(* ===== verification/Kvmc_Prelude.thy ===== *)
theory Kvmc_Prelude
  imports Main "HOL-Library.Word"
begin

unbundle bit_operations_syntax

section \<open>Prelude: machine integers, byte strings and shared lemmas\<close>

text \<open>
  What every component of the development shares: names for the C integer types, the
  little-endian and big-endian byte encodings that \<^verbatim>\<open>include/linux/byteorder.h\<close>, the
  port-I/O helpers and the on-disk formats rely on, buffers as functions from a byte index
  to a byte, and the lemma collections that the component proofs use.

  A C buffer reached through a \<^verbatim>\<open>void *data\<close> is a \<open>buf\<close>: the bytes from that pointer on,
  indexed by \<open>nat\<close>. Writing past the length the caller announced is then visible in the model
  (the byte at that index changes) instead of being undefined.
\<close>

type_synonym u8 = "8 word"
type_synonym u16 = "16 word"
type_synonym u32 = "32 word"
type_synonym u64 = "64 word"

type_synonym buf = "nat \<Rightarrow> u8"

named_theorems kvmc_defs \<open>definitions that component proofs unfold\<close>
named_theorems word_bounds \<open>bounds on word values\<close>


lemma option_eqI: "(\<And>a. x = Some a \<longleftrightarrow> y = Some a) \<Longrightarrow> x = y"
  by (cases x; cases y) auto


subsection \<open>Bytes of a word, least significant first\<close>

definition le_bytes :: "nat \<Rightarrow> 'a::len word \<Rightarrow> u8 list" where
  "le_bytes n w = map (\<lambda>i. ucast (drop_bit (8 * i) w)) [0..<n]"

fun le_word :: "u8 list \<Rightarrow> 'a::len word" where
  "le_word [] = 0"
| "le_word (b # bs) = ucast b OR push_bit 8 (le_word bs)"

lemma length_le_bytes [simp]: "length (le_bytes n w) = n"
  by (simp add: le_bytes_def)

lemma nth_le_bytes [simp]: "i < n \<Longrightarrow> le_bytes n w ! i = ucast (drop_bit (8 * i) w)"
  by (simp add: le_bytes_def)

lemma bit_le_word:
  "bit (le_word bs :: 'a::len word) k \<longleftrightarrow>
     k < LENGTH('a) \<and> k div 8 < length bs \<and> bit (bs ! (k div 8)) (k mod 8)"
proof (induction bs arbitrary: k)
  case Nil
  then show ?case by simp
next
  case (Cons b bs)
  show ?case
  proof (cases "k < 8")
    case True
    then have "k div 8 = 0" "k mod 8 = k" by auto
    with True show ?thesis
      by (auto simp: bit_or_iff bit_push_bit_iff bit_unsigned_iff)
  next
    case False
    then have k: "k div 8 = Suc ((k - 8) div 8)" "(k - 8) mod 8 = k mod 8"
      by (auto simp: le_div_geq le_mod_geq)
    have nb: "\<not> bit b k" using False bit_imp_le_length [of b k] by auto
    with False k Cons.IH [of "k - 8"] show ?thesis
      by (auto simp: bit_or_iff bit_push_bit_iff bit_unsigned_iff not_less)
  qed
qed

lemma le_word_le_bytes:
  assumes "LENGTH('a::len) \<le> 8 * n"
  shows "le_word (le_bytes n w) = (w :: 'a word)"
proof (rule bit_eqI)
  fix k
  show "bit (le_word (le_bytes n w) :: 'a word) k = bit w k"
  proof (cases "k < LENGTH('a)")
    case True
    with assms have "k div 8 < n" by auto
    with True show ?thesis
      by (auto simp: bit_le_word bit_unsigned_iff bit_drop_bit_eq)
  next
    case False
    then show ?thesis using bit_imp_le_length [of w k] by (auto simp: bit_le_word)
  qed
qed

lemma le_bytes_le_word:
  assumes "8 * length bs \<le> LENGTH('a::len)"
  shows "le_bytes (length bs) (le_word bs :: 'a word) = bs"
proof (rule nth_equalityI)
  show "length (le_bytes (length bs) (le_word bs :: 'a word)) = length bs" by simp
next
  fix i assume "i < length (le_bytes (length bs) (le_word bs :: 'a word))"
  then have i: "i < length bs" by simp
  show "le_bytes (length bs) (le_word bs :: 'a word) ! i = bs ! i"
  proof (rule bit_eqI)
    fix k
    show "bit (le_bytes (length bs) (le_word bs :: 'a word) ! i) k = bit (bs ! i) k"
    proof (cases "k < 8")
      case True
      from i assms True have "8 * i + k < LENGTH('a)" by linarith
      with i True show ?thesis
        by (simp add: bit_unsigned_iff bit_drop_bit_eq bit_le_word)
    next
      case False
      then show ?thesis
        using bit_imp_le_length [of "bs ! i" k]
          bit_imp_le_length [of "le_bytes (length bs) (le_word bs :: 'a word) ! i" k]
        by auto
    qed
  qed
qed


subsection \<open>Byte swapping\<close>

definition bswap16 :: "u16 \<Rightarrow> u16" where "bswap16 w = le_word (rev (le_bytes 2 w))"
definition bswap32 :: "u32 \<Rightarrow> u32" where "bswap32 w = le_word (rev (le_bytes 4 w))"
definition bswap64 :: "u64 \<Rightarrow> u64" where "bswap64 w = le_word (rev (le_bytes 8 w))"

lemma bswap_gen:
  assumes "LENGTH('a::len) = 8 * n"
  shows "le_word (rev (le_bytes n (le_word (rev (le_bytes n w)) :: 'a word))) = (w :: 'a word)"
proof -
  have "le_bytes n (le_word (rev (le_bytes n w)) :: 'a word) = rev (le_bytes n w)"
    using le_bytes_le_word [of "rev (le_bytes n w)", where 'a = 'a] assms by simp
  then show ?thesis using assms by (simp add: le_word_le_bytes)
qed

lemma bswap16_bswap16 [simp]: "bswap16 (bswap16 w) = w"
  unfolding bswap16_def by (rule bswap_gen) simp

lemma bswap32_bswap32 [simp]: "bswap32 (bswap32 w) = w"
  unfolding bswap32_def by (rule bswap_gen) simp

lemma bswap64_bswap64 [simp]: "bswap64 (bswap64 w) = w"
  unfolding bswap64_def by (rule bswap_gen) simp


subsection \<open>Buffers\<close>

text \<open>\<open>buf_write d bs\<close> is \<^verbatim>\<open>memcpy(d, bs, length bs)\<close>; \<open>buf_read d n\<close> the first \<open>n\<close> bytes.\<close>

definition buf_write :: "buf \<Rightarrow> u8 list \<Rightarrow> buf" where
  "buf_write d bs = (\<lambda>i. if i < length bs then bs ! i else d i)"

definition buf_read :: "buf \<Rightarrow> nat \<Rightarrow> u8 list" where
  "buf_read d n = map d [0..<n]"

definition buf_at :: "buf \<Rightarrow> nat \<Rightarrow> buf" where
  "buf_at d off = (\<lambda>i. d (off + i))"

definition buf_put :: "buf \<Rightarrow> nat \<Rightarrow> u8 list \<Rightarrow> buf" where
  "buf_put d off bs = (\<lambda>i. if off \<le> i \<and> i < off + length bs then bs ! (i - off) else d i)"

lemma length_buf_read [simp]: "length (buf_read d n) = n"
  by (simp add: buf_read_def)

lemma nth_buf_read [simp]: "i < n \<Longrightarrow> buf_read d n ! i = d i"
  by (simp add: buf_read_def)

lemma buf_read_write [simp]: "buf_read (buf_write d bs) (length bs) = bs"
  by (rule nth_equalityI) (auto simp: buf_write_def)

lemma buf_write_beyond: "length bs \<le> i \<Longrightarrow> buf_write d bs i = d i"
  by (simp add: buf_write_def)

lemma buf_write_below: "i < length bs \<Longrightarrow> buf_write d bs i = bs ! i"
  by (simp add: buf_write_def)

lemma buf_read_put [simp]: "buf_read (buf_at (buf_put d off bs) off) (length bs) = bs"
  by (rule nth_equalityI) (auto simp: buf_put_def buf_at_def)

lemma buf_put_outside: "i < off \<or> off + length bs \<le> i \<Longrightarrow> buf_put d off bs i = d i"
  by (auto simp: buf_put_def)


subsection \<open>Clearing bits\<close>

lemma and_not_absorb: "w AND m = 0 \<Longrightarrow> w AND NOT m = (w :: 'a::len word)"
  by (metis bit.conj_disj_distrib bit.conj_one_right bit.disj_cancel_right or.left_neutral)

lemma and_mask_bit: "w AND (2 ^ n) \<noteq> 0 \<longleftrightarrow> bit (w :: 'a::len word) n"
  using and_exp_eq_0_iff_not_bit [of w n] by simp

lemma unat_ucast_up:
  fixes w :: "'a::len word"
  assumes "LENGTH('a) \<le> LENGTH('b::len)"
  shows "unat (ucast w :: 'b word) = unat w"
proof -
  have "unat w < 2 ^ LENGTH('a)" by (rule unsigned_less)
  also have "\<dots> \<le> 2 ^ LENGTH('b)" using assms by simp
  finally show ?thesis by (simp add: unsigned_ucast_eq take_bit_nat_eq_self)
qed

lemma unat_exp:
  assumes "n < LENGTH('a::len)"
  shows "unat (2 ^ n :: 'a word) = 2 ^ n"
proof -
  have "(2 :: nat) ^ n < 2 ^ LENGTH('a)" using assms by simp
  then have "unat (of_nat (2 ^ n) :: 'a word) = 2 ^ n" by (subst unat_of_nat) simp
  then show ?thesis by simp
qed

lemma unat_drop_bit_div: "unat (drop_bit n w :: 'a::len word) = unat w div 2 ^ n"
  unfolding unat_drop_bit_eq by (rule drop_bit_eq_div)

lemma and_mask_mod:
  assumes "n < LENGTH('a::len)"
  shows "unat (w AND (2 ^ n - 1) :: 'a word) = unat w mod 2 ^ n"
proof -
  have "w AND (2 ^ n - 1) = take_bit n w" by (simp only: take_bit_eq_mask mask_eq_exp_minus_1)
  also have "\<dots> = w mod 2 ^ n" by (simp only: take_bit_eq_mod)
  finally show ?thesis using assms by (simp add: unat_mod unat_exp)
qed

subsection \<open>Error numbers\<close>

definition EPERM :: int where "EPERM = 1"
definition ENOENT :: int where "ENOENT = 2"
definition ENXIO :: int where "ENXIO = 6"
definition ENOMEM :: int where "ENOMEM = 12"
definition EEXIST :: int where "EEXIST = 17"
definition EINVAL :: int where "EINVAL = 22"
definition ENOSPC :: int where "ENOSPC = 28"
definition ENOSYS :: int where "ENOSYS = 38"

lemmas errno_defs =
  EPERM_def ENOENT_def ENXIO_def ENOMEM_def EEXIST_def EINVAL_def ENOSPC_def ENOSYS_def


subsection \<open>Partly filled buffers\<close>

text \<open>\<open>overlay old bs\<close> is the buffer \<open>old\<close> after \<open>bs\<close> has been stored at its start.\<close>

definition overlay :: "u8 list \<Rightarrow> u8 list \<Rightarrow> u8 list" where
  "overlay old bs = bs @ drop (length bs) old"

lemma overlay_full: "length old = length bs \<Longrightarrow> overlay old bs = bs"
  by (simp add: overlay_def)

lemma length_overlay [simp]: "length bs \<le> length old \<Longrightarrow> length (overlay old bs) = length old"
  by (simp add: overlay_def)

text \<open>A call of \<^verbatim>\<open>die\<close> ends the program.\<close>

datatype 'a outcome = Returned 'a | Died

lemma unat_of_nat64: "n < 2 ^ 64 \<Longrightarrow> unat (of_nat n :: u64) = n"
  by (simp add: unat_of_nat)

subsection \<open>Integers in a buffer\<close>

text \<open>The access of a little-endian machine to an integer at a byte offset.\<close>

definition put8 :: "buf \<Rightarrow> nat \<Rightarrow> u8 \<Rightarrow> buf" where "put8 b p w = buf_put b p [w]"
definition put16 :: "buf \<Rightarrow> nat \<Rightarrow> u16 \<Rightarrow> buf" where "put16 b p w = buf_put b p (le_bytes 2 w)"
definition put32 :: "buf \<Rightarrow> nat \<Rightarrow> u32 \<Rightarrow> buf" where "put32 b p w = buf_put b p (le_bytes 4 w)"
definition get16 :: "buf \<Rightarrow> nat \<Rightarrow> u16" where "get16 b p = le_word (buf_read (buf_at b p) 2)"
definition get32 :: "buf \<Rightarrow> nat \<Rightarrow> u32" where "get32 b p = le_word (buf_read (buf_at b p) 4)"

lemma buf_read_cong: "(\<And>i. i < n \<Longrightarrow> b i = c i) \<Longrightarrow> buf_read b n = buf_read c n"
  by (rule nth_equalityI) auto

lemma get16_put16 [simp]: "get16 (put16 b p w) p = w"
  using buf_read_put [of b p "le_bytes 2 w"] by (simp add: get16_def put16_def le_word_le_bytes)

lemma get32_put32 [simp]: "get32 (put32 b p w) p = w"
  using buf_read_put [of b p "le_bytes 4 w"] by (simp add: get32_def put32_def le_word_le_bytes)

lemma get16_outside [simp]: "q + 2 \<le> p \<or> p + length bs \<le> q \<Longrightarrow> get16 (buf_put b p bs) q = get16 b q"
  unfolding get16_def by (intro arg_cong [of _ _ le_word] buf_read_cong) (auto simp: buf_at_def buf_put_def)

lemma get32_outside [simp]: "q + 4 \<le> p \<or> p + length bs \<le> q \<Longrightarrow> get32 (buf_put b p bs) q = get32 b q"
  unfolding get32_def by (intro arg_cong [of _ _ le_word] buf_read_cong) (auto simp: buf_at_def buf_put_def)

named_theorems buf_simps \<open>accesses to a buffer after stores at other offsets\<close>

lemma put_outside [buf_simps]:
  "i < p \<or> p + 1 \<le> i \<Longrightarrow> put8 b p w i = b i"
  "i < p \<or> p + 2 \<le> i \<Longrightarrow> put16 b p x i = b i"
  "i < p \<or> p + 4 \<le> i \<Longrightarrow> put32 b p y i = b i"
  "i < p \<or> p + length bs \<le> i \<Longrightarrow> buf_put b p bs i = b i"
  by (auto simp: put8_def put16_def put32_def buf_put_def)

lemma put8_same [buf_simps]: "put8 b p w p = w"
  by (simp add: put8_def buf_put_def)

lemma get16_after [buf_simps]:
  "q + 2 \<le> p \<or> p + 1 \<le> q \<Longrightarrow> get16 (put8 b p w) q = get16 b q"
  "q + 2 \<le> p \<or> p + 2 \<le> q \<Longrightarrow> get16 (put16 b p x) q = get16 b q"
  "q + 2 \<le> p \<or> p + 4 \<le> q \<Longrightarrow> get16 (put32 b p y) q = get16 b q"
  by (simp_all add: put8_def put16_def put32_def)

lemma get32_after [buf_simps]:
  "q + 4 \<le> p \<or> p + 1 \<le> q \<Longrightarrow> get32 (put8 b p w) q = get32 b q"
  "q + 4 \<le> p \<or> p + 2 \<le> q \<Longrightarrow> get32 (put16 b p x) q = get32 b q"
  "q + 4 \<le> p \<or> p + 4 \<le> q \<Longrightarrow> get32 (put32 b p y) q = get32 b q"
  by (simp_all add: put8_def put16_def put32_def)

lemma get_cong:
  "(\<And>i. i < 2 \<Longrightarrow> b (p + i) = c (p + i)) \<Longrightarrow> get16 b p = get16 c p"
  "(\<And>i. i < 4 \<Longrightarrow> b (p + i) = c (p + i)) \<Longrightarrow> get32 b p = get32 c p"
  unfolding get16_def get32_def by (intro arg_cong [of _ _ le_word] buf_read_cong; simp add: buf_at_def)+

lemma buf_read_at_put [simp]: "length bs = n \<Longrightarrow> buf_read (buf_at (buf_put b p bs) p) n = bs"
  using buf_read_put [of b p bs] by simp

end
