(* ===== verification/RBTree.thy ===== *)
theory RBTree
  imports Kvmc_Prelude
begin

section \<open>The red-black tree (util/rbtree.c, include/linux/rbtree*.h)\<close>

text \<open>
  Every index of the program (port ranges, MMIO ranges, devices of a bus, cached L2 tables and
  refcount blocks, 9p fids) is a Linux red-black tree. A \<^verbatim>\<open>struct rb_node\<close> with its children is a
  value of \<open>rbt\<close>, with the enclosing structure (\<^verbatim>\<open>rb_entry\<close>) as its element. A pointer to
  a node \<^emph>\<open>inside\<close> a tree, from which the C code walks up through \<^verbatim>\<open>rb_parent\<close>, is the
  subtree at that node together with its path: the list of the ancestors, nearest first, each
  with its colour, its element and its other subtree. \<open>plug\<close> rebuilds the tree from both.

  Both rebalancing loops dereference pointers that the invariants keep from being NULL (the
  grandparent of a node with a red parent, the sibling of a node that lacks a black one). Where
  the C code would follow a NULL pointer the model returns \<open>None\<close>; the theorems show
  that this never happens on red-black trees.
\<close>

subsection \<open>Nodes, paths, locations\<close>

datatype color = RB_RED | RB_BLACK

datatype 'a rbt = Leaf | Node color "'a rbt" 'a "'a rbt"

datatype 'a frame =
  InL color 'a "'a rbt"   \<comment> \<open>we are the left child: parent's colour, element, right child\<close>
| InR "'a rbt" color 'a   \<comment> \<open>we are the right child: parent's left child, colour, element\<close>

type_synonym 'a path = "'a frame list"
type_synonym 'a loc = "'a rbt \<times> 'a path"

fun plug :: "'a rbt \<Rightarrow> 'a path \<Rightarrow> 'a rbt" where
  "plug t [] = t"
| "plug t (InL c x r # fs) = plug (Node c t x r) fs"
| "plug t (InR l c x # fs) = plug (Node c l x t) fs"

fun inorder :: "'a rbt \<Rightarrow> 'a list" where
  "inorder Leaf = []"
| "inorder (Node c l x r) = inorder l @ x # inorder r"

fun rb_is_red :: "'a rbt \<Rightarrow> bool" where
  "rb_is_red Leaf = False"
| "rb_is_red (Node c l x r) = (c = RB_RED)"

fun set_color :: "color \<Rightarrow> 'a rbt \<Rightarrow> 'a rbt" where
  "set_color c Leaf = Leaf"
| "set_color c (Node c' l x r) = Node c l x r"

abbreviation rb_set_black :: "'a rbt \<Rightarrow> 'a rbt" where
  "rb_set_black \<equiv> set_color RB_BLACK"

fun frame_color :: "'a frame \<Rightarrow> color" where
  "frame_color (InL c x r) = c"
| "frame_color (InR l c x) = c"


subsection \<open>Insertion\<close>

text \<open>
  \<^verbatim>\<open>__rb_insert\<close>: the loop walks up from the red node \<open>n\<close>. The parent is the first frame, the
  grandparent the second; the case split on the second frame is the test
  \<^verbatim>\<open>parent != gparent->rb_right\<close>, the one on the first frame is \<^verbatim>\<open>node == tmp\<close>.
\<close>

fun rb_insert_loop :: "'a rbt \<Rightarrow> 'a path \<Rightarrow> 'a rbt option" where
  "rb_insert_loop n [] = Some (rb_set_black n)"
| "rb_insert_loop n [f] =
     (if frame_color f = RB_BLACK then Some (plug n [f]) else None)"
| "rb_insert_loop n (f # InL gc gx u # fs) =
     (if frame_color f = RB_BLACK then Some (plug n (f # InL gc gx u # fs))
      else if rb_is_red u
        then rb_insert_loop (Node RB_RED (rb_set_black (plug n [f])) gx (rb_set_black u)) fs
      else (case f of
          InR pl pc px \<Rightarrow>
            (case n of Leaf \<Rightarrow> None
             | Node nc nl nx nr \<Rightarrow>
                 Some (plug (Node gc (Node RB_RED pl px (rb_set_black nl)) nx
                                     (Node RB_RED (rb_set_black nr) gx u)) fs))
        | InL pc px pr \<Rightarrow>
            Some (plug (Node gc n px (Node RB_RED (rb_set_black pr) gx u)) fs)))"
| "rb_insert_loop n (f # InR u gc gx # fs) =
     (if frame_color f = RB_BLACK then Some (plug n (f # InR u gc gx # fs))
      else if rb_is_red u
        then rb_insert_loop (Node RB_RED (rb_set_black u) gx (rb_set_black (plug n [f]))) fs
      else (case f of
          InL pc px pr \<Rightarrow>
            (case n of Leaf \<Rightarrow> None
             | Node nc nl nx nr \<Rightarrow>
                 Some (plug (Node gc (Node RB_RED u gx (rb_set_black nl)) nx
                                     (Node RB_RED (rb_set_black nr) px pr)) fs))
        | InR pl pc px \<Rightarrow>
            Some (plug (Node gc (Node RB_RED u gx (rb_set_black pl)) px n) fs)))"

text \<open>\<^verbatim>\<open>rb_link_node\<close> hangs a fresh red node at the empty link the descent found.\<close>

definition rb_link_node :: "'a \<Rightarrow> 'a rbt" where
  "rb_link_node x = Node RB_RED Leaf x Leaf"

definition rb_insert_color :: "'a \<Rightarrow> 'a path \<Rightarrow> 'a rbt option" where
  "rb_insert_color x link = rb_insert_loop (rb_link_node x) link"


subsection \<open>Removal\<close>

text \<open>
  One round of \<^verbatim>\<open>____rb_erase_color\<close> from the line \<^verbatim>\<open>tmp1 = sibling->rb_right\<close> on, for
  the node \<open>n\<close> that lacks a black node, its parent's colour and element and the black sibling:
  \<open>Up\<close> is the \<^verbatim>\<open>continue\<close> at the parent, \<open>Stop\<close> the \<^verbatim>\<open>break\<close>.
\<close>

datatype 'a erase_step = Crash | Stop "'a rbt" | Up "'a rbt"

fun erase_color_left :: "'a rbt \<Rightarrow> color \<Rightarrow> 'a \<Rightarrow> 'a rbt \<Rightarrow> 'a erase_step" where
  "erase_color_left n pc px Leaf = Crash"
| "erase_color_left n pc px (Node sc sl sx sr) =
     (if \<not> rb_is_red sr
      then if \<not> rb_is_red sl
           then if pc = RB_RED then Stop (Node RB_BLACK n px (Node RB_RED sl sx sr))
                else Up (Node pc n px (Node RB_RED sl sx sr))
           else (case sl of Leaf \<Rightarrow> Crash
                 | Node tc a y b \<Rightarrow>
                     Stop (Node pc (Node RB_BLACK n px a) y
                                   (Node RB_BLACK (rb_set_black b) sx sr)))
      else Stop (Node pc (Node RB_BLACK n px sl) sx (rb_set_black sr)))"

fun erase_color_right :: "'a rbt \<Rightarrow> color \<Rightarrow> 'a \<Rightarrow> 'a rbt \<Rightarrow> 'a erase_step" where
  "erase_color_right n pc px Leaf = Crash"
| "erase_color_right n pc px (Node sc sl sx sr) =
     (if \<not> rb_is_red sl
      then if \<not> rb_is_red sr
           then if pc = RB_RED then Stop (Node RB_BLACK (Node RB_RED sl sx sr) px n)
                else Up (Node pc (Node RB_RED sl sx sr) px n)
           else (case sr of Leaf \<Rightarrow> Crash
                 | Node tc a y b \<Rightarrow>
                     Stop (Node pc (Node RB_BLACK sl sx (rb_set_black a)) y
                                   (Node RB_BLACK b px n)))
      else Stop (Node pc (rb_set_black sl) sx (Node RB_BLACK sr px n)))"

lemma erase_color_red_stops:
  "erase_color_left n RB_RED px s \<noteq> Up t" "erase_color_right n RB_RED px s \<noteq> Up t"
  by (cases s; auto split: rbt.splits)+

text \<open>
  The whole loop. Case 1 (a red sibling) rotates first; the parent is red afterwards, so the
  rest of the round stops (\<open>erase_color_red_stops\<close>), which is why the loop terminates.
\<close>

function rb_erase_loop :: "'a rbt \<Rightarrow> 'a path \<Rightarrow> 'a rbt option" where
  "rb_erase_loop n [] = Some n"
| "rb_erase_loop n (InL pc px s # fs) =
     (case s of Leaf \<Rightarrow> None
      | Node sc sl sx sr \<Rightarrow>
          if sc = RB_RED
          then if sl = Leaf then None
               else (case erase_color_left n RB_RED px (rb_set_black sl) of
                       Crash \<Rightarrow> None
                     | Stop t \<Rightarrow> Some (plug t (InL pc sx sr # fs))
                     | Up t \<Rightarrow> rb_erase_loop t (InL pc sx sr # fs))
          else (case erase_color_left n pc px s of
                  Crash \<Rightarrow> None
                | Stop t \<Rightarrow> Some (plug t fs)
                | Up t \<Rightarrow> rb_erase_loop t fs))"
| "rb_erase_loop n (InR s pc px # fs) =
     (case s of Leaf \<Rightarrow> None
      | Node sc sl sx sr \<Rightarrow>
          if sc = RB_RED
          then if sr = Leaf then None
               else (case erase_color_right n RB_RED px (rb_set_black sr) of
                       Crash \<Rightarrow> None
                     | Stop t \<Rightarrow> Some (plug t (InR sl pc sx # fs))
                     | Up t \<Rightarrow> rb_erase_loop t (InR sl pc sx # fs))
          else (case erase_color_right n pc px s of
                  Crash \<Rightarrow> None
                | Stop t \<Rightarrow> Some (plug t fs)
                | Up t \<Rightarrow> rb_erase_loop t fs))"
  by pat_completeness auto
termination
  by (relation "measure (\<lambda>(n, fs). length fs)") (auto simp: erase_color_red_stops)

text \<open>
  The \<^verbatim>\<open>do ... while (tmp)\<close> loop of \<^verbatim>\<open>__rb_erase_augmented\<close>: the leftmost node under a
  subtree, with its colour, element, right child and the path from it up to the subtree's top.
\<close>

fun leftmost :: "'a rbt \<Rightarrow> 'a path \<Rightarrow> (color \<times> 'a \<times> 'a rbt \<times> 'a path) option" where
  "leftmost Leaf fs = None"
| "leftmost (Node c Leaf x r) fs = Some (c, x, r, fs)"
| "leftmost (Node c l x r) fs = leftmost l (InL c x r # fs)"

text \<open>
  \<^verbatim>\<open>rb_erase\<close> of the node at a location: \<^verbatim>\<open>__rb_erase_augmented\<close> unlinks it, and the
  loop runs when it asks for rebalancing at a non-NULL parent.
\<close>

fun rb_erase :: "'a loc \<Rightarrow> 'a rbt option" where
  "rb_erase (Leaf, fs) = None"
| "rb_erase (Node c Leaf x child, fs) =
     (if child \<noteq> Leaf then Some (plug (set_color c child) fs)
      else if c = RB_BLACK then rb_erase_loop Leaf fs
      else Some (plug Leaf fs))"
| "rb_erase (Node c l x Leaf, fs) = Some (plug (set_color c l) fs)"
| "rb_erase (Node c l x child, fs) =
     (case leftmost child [] of
        None \<Rightarrow> None
      | Some (sc, sx, child2, q) \<Rightarrow>
          if child2 \<noteq> Leaf
          then Some (plug (rb_set_black child2) (q @ InR l c sx # fs))
          else if sc = RB_BLACK then rb_erase_loop Leaf (q @ InR l c sx # fs)
          else Some (plug Leaf (q @ InR l c sx # fs)))"


subsection \<open>Traversal\<close>

fun rb_first :: "'a rbt \<Rightarrow> 'a path \<Rightarrow> 'a loc option" where
  "rb_first Leaf fs = None"
| "rb_first (Node c Leaf x r) fs = Some (Node c Leaf x r, fs)"
| "rb_first (Node c l x r) fs = rb_first l (InL c x r # fs)"

fun rb_last :: "'a rbt \<Rightarrow> 'a path \<Rightarrow> 'a loc option" where
  "rb_last Leaf fs = None"
| "rb_last (Node c l x Leaf) fs = Some (Node c l x Leaf, fs)"
| "rb_last (Node c l x r) fs = rb_last r (InR l c x # fs)"

text \<open>The two upward loops, that stop at the first ancestor we are left (right) child of.\<close>

fun up_right :: "'a rbt \<Rightarrow> 'a path \<Rightarrow> 'a loc option" where
  "up_right n [] = None"
| "up_right n (InR l c x # fs) = up_right (Node c l x n) fs"
| "up_right n (InL c x r # fs) = Some (Node c n x r, fs)"

fun up_left :: "'a rbt \<Rightarrow> 'a path \<Rightarrow> 'a loc option" where
  "up_left n [] = None"
| "up_left n (InL c x r # fs) = up_left (Node c n x r) fs"
| "up_left n (InR l c x # fs) = Some (Node c l x n, fs)"

fun rb_next :: "'a loc \<Rightarrow> 'a loc option" where
  "rb_next (Leaf, fs) = None"
| "rb_next (Node c l x r, fs) =
     (if r \<noteq> Leaf then rb_first r (InR l c x # fs) else up_right (Node c l x r) fs)"

fun rb_prev :: "'a loc \<Rightarrow> 'a loc option" where
  "rb_prev (Leaf, fs) = None"
| "rb_prev (Node c l x r, fs) =
     (if l \<noteq> Leaf then rb_last l (InL c x r # fs) else up_left (Node c l x r) fs)"

fun rb_elem :: "'a loc \<Rightarrow> 'a option" where
  "rb_elem (Leaf, fs) = None"
| "rb_elem (Node c l x r, fs) = Some x"

text \<open>\<^verbatim>\<open>rb_replace_node\<close>: the new node takes the victim's place, colour and children.\<close>

fun rb_replace_node :: "'a loc \<Rightarrow> 'a \<Rightarrow> 'a rbt" where
  "rb_replace_node (Leaf, fs) y = plug Leaf fs"
| "rb_replace_node (Node c l x r, fs) y = plug (Node c l y r) fs"


subsection \<open>Invariants\<close>

text \<open>
  Properties 4 and 5 of the comment at the head of \<^verbatim>\<open>rbtree.c\<close> on trees (\<open>no_red_red\<close>,
  \<open>balanced\<close>), property 2 in \<open>rb_inv\<close>, and the same split over a path: \<open>path_balanced h fs\<close> says that
  the tree is balanced when a subtree of black height \<open>h\<close> is plugged in.
\<close>

fun black_height :: "'a rbt \<Rightarrow> nat" where
  "black_height Leaf = 0"
| "black_height (Node c l x r) = black_height l + (if c = RB_BLACK then 1 else 0)"

fun balanced :: "'a rbt \<Rightarrow> bool" where
  "balanced Leaf = True"
| "balanced (Node c l x r) \<longleftrightarrow> balanced l \<and> balanced r \<and> black_height l = black_height r"

fun no_red_red :: "'a rbt \<Rightarrow> bool" where
  "no_red_red Leaf = True"
| "no_red_red (Node c l x r) \<longleftrightarrow>
     no_red_red l \<and> no_red_red r \<and> (c = RB_RED \<longrightarrow> \<not> rb_is_red l \<and> \<not> rb_is_red r)"

definition rb_inv :: "'a rbt \<Rightarrow> bool" where
  "rb_inv t \<longleftrightarrow> balanced t \<and> no_red_red t \<and> \<not> rb_is_red t"

fun path_balanced :: "nat \<Rightarrow> 'a path \<Rightarrow> bool" where
  "path_balanced h [] = True"
| "path_balanced h (InL c x r # fs) \<longleftrightarrow>
     balanced r \<and> black_height r = h \<and> path_balanced (h + (if c = RB_BLACK then 1 else 0)) fs"
| "path_balanced h (InR l c x # fs) \<longleftrightarrow>
     balanced l \<and> black_height l = h \<and> path_balanced (h + (if c = RB_BLACK then 1 else 0)) fs"

fun black_parent :: "'a path \<Rightarrow> bool" where
  "black_parent [] = False"
| "black_parent (f # fs) = (frame_color f = RB_BLACK)"

fun path_colored :: "'a path \<Rightarrow> bool" where
  "path_colored [] = True"
| "path_colored (InL c x r # fs) \<longleftrightarrow>
     no_red_red r \<and> (c = RB_RED \<longrightarrow> \<not> rb_is_red r \<and> black_parent fs) \<and> path_colored fs"
| "path_colored (InR l c x # fs) \<longleftrightarrow>
     no_red_red l \<and> (c = RB_RED \<longrightarrow> \<not> rb_is_red l \<and> black_parent fs) \<and> path_colored fs"

fun path_left :: "'a path \<Rightarrow> 'a list" where
  "path_left [] = []"
| "path_left (InL c x r # fs) = path_left fs"
| "path_left (InR l c x # fs) = path_left fs @ inorder l @ [x]"

fun path_right :: "'a path \<Rightarrow> 'a list" where
  "path_right [] = []"
| "path_right (InL c x r # fs) = x # inorder r @ path_right fs"
| "path_right (InR l c x # fs) = path_right fs"

lemma color_cases [simp]: "c \<noteq> RB_RED \<longleftrightarrow> c = RB_BLACK" "c \<noteq> RB_BLACK \<longleftrightarrow> c = RB_RED"
  by (cases c; simp)+

lemma inorder_plug: "inorder (plug t fs) = path_left fs @ inorder t @ path_right fs"
  by (induction t fs rule: plug.induct) auto

lemma rb_inv_plug:
  "rb_inv (plug t fs) \<longleftrightarrow>
     balanced t \<and> no_red_red t \<and> path_balanced (black_height t) fs \<and> path_colored fs \<and>
     (rb_is_red t \<longrightarrow> black_parent fs)"
  by (induction t fs rule: plug.induct) (auto simp: rb_inv_def)

lemma set_color_simps [simp]:
  "inorder (set_color c t) = inorder t" "balanced (set_color c t) = balanced t"
  "set_color c t = Leaf \<longleftrightarrow> t = Leaf"
  by (cases t; simp)+

lemma set_black_simps [simp]:
  "\<not> rb_is_red (rb_set_black t)" "no_red_red t \<Longrightarrow> no_red_red (rb_set_black t)"
  "\<not> rb_is_red t \<Longrightarrow> rb_set_black t = t"
  "black_height (rb_set_black t) = black_height t + (if rb_is_red t then 1 else 0)"
  by (cases t; simp)+

lemma path_append [simp]:
  "plug t (q @ fs) = plug (plug t q) fs"
  "path_left (q @ fs) = path_left fs @ path_left q"
  "path_right (q @ fs) = path_right q @ path_right fs"
  by (induction t q rule: plug.induct) auto


subsection \<open>Insertion is correct\<close>

lemma rb_insert_loop_correct:
  assumes "rb_is_red n" "balanced n" "no_red_red n"
    and "path_balanced (black_height n) fs" "path_colored fs"
  shows "\<exists>t. rb_insert_loop n fs = Some t \<and> rb_inv t \<and> inorder t = inorder (plug n fs)"
  using assms
proof (induction n fs rule: rb_insert_loop.induct)
  case (1 n)
  then show ?case by (auto simp: rb_inv_def)
next
  case (2 n f)
  then show ?case by (cases f) (auto simp: rb_inv_def)
next
  case (3 n f gc gx u fs)
  then show ?case
    by (cases f; cases n) (auto simp: rb_inv_plug inorder_plug)
next
  case (4 n f u gc gx fs)
  then show ?case
    by (cases f; cases n) (auto simp: rb_inv_plug inorder_plug)
qed


subsection \<open>Removal is correct\<close>

lemma erase_color_left_correct:
  assumes "balanced n" "no_red_red n" "\<not> rb_is_red n"
    and "balanced s" "no_red_red s" "\<not> rb_is_red s" "black_height s = Suc (black_height n)"
  shows "case erase_color_left n pc px s of
           Crash \<Rightarrow> False
         | Stop t \<Rightarrow> balanced t \<and> no_red_red t \<and> inorder t = inorder n @ px # inorder s \<and>
             black_height t = black_height (Node pc s px n) \<and> (rb_is_red t \<longrightarrow> pc = RB_RED)
         | Up t \<Rightarrow> balanced t \<and> no_red_red t \<and> inorder t = inorder n @ px # inorder s \<and>
             pc = RB_BLACK \<and> \<not> rb_is_red t \<and> black_height t = black_height s"
proof (cases s)
  case (Node sc sl sx sr)
  with assms show ?thesis
    by (cases sl; cases sr) (auto split: if_splits)
qed (use assms in simp)

lemma erase_color_right_correct:
  assumes "balanced n" "no_red_red n" "\<not> rb_is_red n"
    and "balanced s" "no_red_red s" "\<not> rb_is_red s" "black_height s = Suc (black_height n)"
  shows "case erase_color_right n pc px s of
           Crash \<Rightarrow> False
         | Stop t \<Rightarrow> balanced t \<and> no_red_red t \<and> inorder t = inorder s @ px # inorder n \<and>
             black_height t = black_height (Node pc s px n) \<and> (rb_is_red t \<longrightarrow> pc = RB_RED)
         | Up t \<Rightarrow> balanced t \<and> no_red_red t \<and> inorder t = inorder s @ px # inorder n \<and>
             pc = RB_BLACK \<and> \<not> rb_is_red t \<and> black_height t = black_height s"
proof (cases s)
  case (Node sc sl sx sr)
  with assms show ?thesis
    by (cases sl; cases sr) (auto split: if_splits)
qed (use assms in simp)

lemma black_child_not_leaf:
  "black_height t = Suc h \<Longrightarrow> t \<noteq> Leaf"
  by auto

lemma rb_erase_loop_correct:
  assumes "balanced n" "no_red_red n" "\<not> rb_is_red n"
    and "path_balanced (Suc (black_height n)) fs" "path_colored fs"
  shows "\<exists>t. rb_erase_loop n fs = Some t \<and> rb_inv t \<and> inorder t = inorder (plug n fs)"
  using assms
proof (induction n fs rule: rb_erase_loop.induct)
  case (1 n)
  then show ?case by (auto simp: rb_inv_def)
next
  case (2 n pc px s fs)
  then obtain sc sl sx sr where s: "s = Node sc sl sx sr" by (cases s) auto
  show ?case
  proof (cases "sc = RB_RED")
    case True
    with 2 s have sl: "\<not> rb_is_red sl" "black_height sl = Suc (black_height n)"
      "balanced sl" "no_red_red sl" and pc: "pc = RB_BLACK" by auto
    then have "sl \<noteq> Leaf" by auto
    with erase_color_left_correct [of n sl, where pc = RB_RED and px = px] 2 s True sl pc show ?thesis
      by (auto simp: rb_inv_plug inorder_plug erase_color_red_stops
          simp del: erase_color_left.simps erase_color_right.simps split: erase_step.splits)
  next
    case False
    with erase_color_left_correct [of n s, where pc = pc and px = px] 2 s show ?thesis
      by (fastforce simp: rb_inv_plug inorder_plug
          simp del: erase_color_left.simps erase_color_right.simps split: erase_step.splits)
  qed
next
  case (3 n s pc px fs)
  then obtain sc sl sx sr where s: "s = Node sc sl sx sr" by (cases s) auto
  show ?case
  proof (cases "sc = RB_RED")
    case True
    with 3 s have sr: "\<not> rb_is_red sr" "black_height sr = Suc (black_height n)"
      "balanced sr" "no_red_red sr" and pc: "pc = RB_BLACK" by auto
    then have "sr \<noteq> Leaf" by auto
    with erase_color_right_correct [of n sr, where pc = RB_RED and px = px] 3 s True sr pc show ?thesis
      by (auto simp: rb_inv_plug inorder_plug erase_color_red_stops
          simp del: erase_color_left.simps erase_color_right.simps split: erase_step.splits)
  next
    case False
    with erase_color_right_correct [of n s, where pc = pc and px = px] 3 s show ?thesis
      by (fastforce simp: rb_inv_plug inorder_plug
          simp del: erase_color_left.simps erase_color_right.simps split: erase_step.splits)
  qed
qed

lemma leftmost_plug:
  "leftmost t fs = Some (c, x, r, q) \<Longrightarrow> plug (Node c Leaf x r) q = plug t fs"
  by (induction t fs rule: leftmost.induct) auto

lemma leftmost_path_left:
  "leftmost t fs = Some (c, x, r, q) \<Longrightarrow> path_left q = path_left fs"
  by (induction t fs rule: leftmost.induct) auto

lemma leftmost_Some: "t \<noteq> Leaf \<Longrightarrow> \<exists>c x r q. leftmost t fs = Some (c, x, r, q)"
  by (induction t fs rule: leftmost.induct) auto

lemma leftmost_append:
  "leftmost t (fs @ gs) = map_option (\<lambda>(c, x, r, q). (c, x, r, q @ gs)) (leftmost t fs)"
  by (induction t fs rule: leftmost.induct) auto


text \<open>
  Unlinking a node. What is left of the node's place is a path: the location's own path, or the
  path below it to the successor; the deleted element is the one between its two sides.
\<close>

lemma one_child_red:
  assumes "balanced (Node c l x r)" "no_red_red (Node c l x r)" "l = Leaf \<or> r = Leaf"
  shows "(l \<noteq> Leaf \<longrightarrow> rb_is_red l \<and> c = RB_BLACK) \<and> (r \<noteq> Leaf \<longrightarrow> rb_is_red r \<and> c = RB_BLACK)"
  using assms by (cases l; cases r) (auto split: if_splits)

theorem rb_erase_correct:
  assumes "rb_inv (plug (Node c l x r) fs)"
  shows "\<exists>t. rb_erase (Node c l x r, fs) = Some t \<and> rb_inv t \<and>
             inorder t = path_left fs @ inorder l @ inorder r @ path_right fs"
proof (cases "l = Leaf \<or> r = Leaf")
  case True
  have inv: "balanced (Node c l x r)" "no_red_red (Node c l x r)"
    "path_balanced (black_height (Node c l x r)) fs" "path_colored fs"
    "c = RB_RED \<longrightarrow> black_parent fs"
    using assms by (auto simp: rb_inv_plug)
  note red = one_child_red [OF inv(1,2) True]
  show ?thesis
  proof (cases "l = Leaf \<and> r = Leaf \<and> c = RB_BLACK")
    case True
    with inv rb_erase_loop_correct [of Leaf fs] show ?thesis by (auto simp: inorder_plug)
  next
    case False
    with inv red True show ?thesis
      by (cases l; cases r) (auto simp: rb_inv_plug inorder_plug)
  qed
next
  case False
  then obtain lc ll lx lr rc rl rx rr
    where l: "l = Node lc ll lx lr" and r: "r = Node rc rl rx rr"
    by (cases l; cases r) auto
  obtain sc sx c2 q where lm: "leftmost r [] = Some (sc, sx, c2, q)"
    using leftmost_Some [of r "[]"] False by auto
  let ?p = "q @ InR l c sx # fs"
  have pl: "plug (Node sc Leaf sx c2) q = r"
    using leftmost_plug [OF lm] by simp
  have ql: "path_left q = []" using leftmost_path_left [OF lm] by simp
  have inor: "inorder r = sx # inorder c2 @ path_right q"
    using pl ql inorder_plug [of "Node sc Leaf sx c2" q] by simp
  have "rb_inv (plug (Node sc Leaf sx c2) ?p)"
    using assms pl by (auto simp: rb_inv_plug)
  then have inv: "balanced (Node sc Leaf sx c2)" "no_red_red (Node sc Leaf sx c2)"
    "path_balanced (black_height (Node sc Leaf sx c2)) ?p" "path_colored ?p"
    "sc = RB_RED \<longrightarrow> black_parent ?p"
    unfolding rb_inv_plug by auto
  note red = one_child_red [OF inv(1,2)]
  have io: "inorder (plug c2 ?p) = path_left fs @ inorder l @ inorder r @ path_right fs"
    by (simp add: inorder_plug inor ql)
  show ?thesis
  proof (cases "c2 = Leaf \<and> sc = RB_BLACK")
    case True
    with inv rb_erase_loop_correct [of Leaf ?p] io lm l r show ?thesis by auto
  next
    case False
    with inv red io lm l r show ?thesis
      by (cases c2) (auto simp: rb_inv_plug inorder_plug simp del: path_append)
  qed
qed

theorem rb_insert_color_correct:
  assumes "rb_inv (plug Leaf fs)"
  shows "\<exists>t. rb_insert_color x fs = Some t \<and> rb_inv t \<and>
             inorder t = path_left fs @ x # path_right fs"
proof -
  have "path_balanced (black_height (rb_link_node x)) fs" "path_colored fs"
    using assms by (auto simp: rb_inv_plug rb_link_node_def)
  with rb_insert_loop_correct [of "rb_link_node x" fs] show ?thesis
    by (auto simp: rb_insert_color_def rb_link_node_def inorder_plug)
qed


subsection \<open>Traversal visits the elements in order\<close>

fun loc_list :: "'a loc option \<Rightarrow> 'a list" where
  "loc_list None = []"
| "loc_list (Some (t, fs)) = (case t of Leaf \<Rightarrow> [] | Node c l x r \<Rightarrow> x # inorder r @ path_right fs)"

lemma rb_first_list: "loc_list (rb_first t fs) = (if t = Leaf then [] else inorder t @ path_right fs)"
  by (induction t fs rule: rb_first.induct) auto

lemma rb_first_plug: "rb_first t fs = Some (t', fs') \<Longrightarrow> plug t' fs' = plug t fs \<and> t' \<noteq> Leaf"
  by (induction t fs rule: rb_first.induct) auto

lemma up_right_list: "loc_list (up_right n fs) = path_right fs"
  by (induction n fs rule: up_right.induct) auto

text \<open>From the location of an element, \<open>rb_next\<close> leads to the rest of the in-order list.\<close>

lemma rb_next_list:
  "loc_list (rb_next (Node c l x r, fs)) = inorder r @ path_right fs"
  by (auto simp: rb_first_list up_right_list)

lemma rb_next_plug:
  "rb_next (Node c l x r, fs) = Some (t', fs') \<Longrightarrow> plug t' fs' = plug (Node c l x r) fs \<and> t' \<noteq> Leaf"
proof (cases "r = Leaf")
  case True
  have "up_right n fs = Some (t', fs') \<Longrightarrow> plug t' fs' = plug n fs \<and> t' \<noteq> Leaf" for n
    by (induction n fs rule: up_right.induct) auto
  then show "rb_next (Node c l x r, fs) = Some (t', fs') \<Longrightarrow> ?thesis"
    using True by auto
next
  case False
  then show "rb_next (Node c l x r, fs) = Some (t', fs') \<Longrightarrow> ?thesis"
    by (auto dest: rb_first_plug)
qed

lemma inorder_replace:
  "inorder (rb_replace_node (Node c l x r, fs) y) =
     path_left fs @ inorder l @ y # inorder r @ path_right fs"
  by (simp add: inorder_plug)

lemma rb_inv_replace:
  "rb_inv (rb_replace_node (Node c l x r, fs) y) = rb_inv (plug (Node c l x r) fs)"
  by (simp add: rb_inv_plug)

subsection \<open>Height\<close>

fun height :: "'a rbt \<Rightarrow> nat" where
  "height Leaf = 0"
| "height (Node c l x r) = Suc (max (height l) (height r))"

lemma black_height_size: "balanced t \<Longrightarrow> 2 ^ black_height t \<le> length (inorder t) + 1"
proof (induction t)
  case (Node c l x r)
  then have "(2 :: nat) ^ black_height l \<le> length (inorder l) + 1"
    "(2 :: nat) ^ black_height l \<le> length (inorder r) + 1" by auto
  then show ?case by (cases c) auto
qed simp

lemma height_black_height:
  "balanced t \<Longrightarrow> no_red_red t \<Longrightarrow> height t \<le> 2 * black_height t + (if rb_is_red t then 1 else 0)"
proof (induction t)
  case (Node c l x r)
  then have "height l \<le> 2 * black_height l + (if rb_is_red l then 1 else 0)"
    "height r \<le> 2 * black_height l + (if rb_is_red r then 1 else 0)" by auto
  then show ?case using Node.prems(2) by (cases c) (auto split: if_splits)
qed simp

lemma rb_height:
  assumes "rb_inv t"
  shows "2 ^ height t \<le> (length (inorder t) + 1) ^ 2"
proof -
  have "(2 :: nat) ^ height t \<le> 2 ^ (2 * black_height t)"
    using height_black_height [of t] assms by (intro power_increasing) (auto simp: rb_inv_def)
  also have "\<dots> = (2 ^ black_height t) ^ 2" by (simp add: power_mult [symmetric] mult.commute)
  also have "\<dots> \<le> (length (inorder t) + 1) ^ 2"
    using black_height_size [of t] assms by (intro power_mono) (auto simp: rb_inv_def)
  finally show ?thesis .
qed

subsection \<open>Claims\<close>

text \<open>
  C6: linking a new node at an empty link of a red-black tree and rebalancing never follows a NULL
  pointer, gives a red-black tree with the element at that place of the in-order list and no
  other change, and keeps every path within twice the logarithm of the number of elements.
\<close>

theorem rb_insert_balanced:
  assumes "rb_inv (plug Leaf fs)"
  shows "\<exists>t. rb_insert_color x fs = Some t \<and> rb_inv t \<and>
             inorder t = path_left fs @ x # path_right fs \<and>
             2 ^ height t \<le> (length (inorder t) + 1) ^ 2"
  using rb_insert_color_correct [OF assms, of x] rb_height by blast

theorem rb_insert_balanced_witness:
  "\<exists>t. rb_insert_color (0 :: nat) [InL RB_RED 1 Leaf, InL RB_BLACK 2 Leaf] = Some t \<and> rb_inv t \<and>
       inorder t = [0, 1, 2]"
  using rb_insert_balanced [of "[InL RB_RED 1 Leaf, InL RB_BLACK 2 Leaf]" "0 :: nat"]
  by (auto simp: rb_inv_def)

text \<open>
  C1: removing any node of a red-black tree never follows a NULL pointer, gives a red-black tree
  and removes exactly that node's element from the in-order list.
\<close>

theorem rb_erase_balanced:
  assumes "rb_inv t" "t = plug (Node c l x r) fs"
  shows "\<exists>t' xs ys. inorder t = xs @ x # ys \<and> length xs = length (path_left fs @ inorder l) \<and>
           rb_erase (Node c l x r, fs) = Some t' \<and> rb_inv t' \<and> inorder t' = xs @ ys"
proof -
  obtain t' where "rb_erase (Node c l x r, fs) = Some t'" "rb_inv t'"
    "inorder t' = path_left fs @ inorder l @ inorder r @ path_right fs"
    using rb_erase_correct [OF assms(1) [unfolded assms(2)]] by blast
  moreover have "inorder t = (path_left fs @ inorder l) @ x # (inorder r @ path_right fs)"
    by (simp add: assms(2) inorder_plug)
  ultimately show ?thesis by (metis append.assoc)
qed

theorem rb_erase_balanced_witness:
  "\<exists>t'. rb_erase (Node RB_BLACK Leaf (1 :: nat) Leaf, [InL RB_BLACK 2 (Node RB_BLACK Leaf 3 Leaf)]) = Some t' \<and>
        rb_inv t' \<and> inorder t' = [2, 3]"
  using rb_erase_balanced [of "plug (Node RB_BLACK Leaf 1 Leaf) [InL RB_BLACK 2 (Node RB_BLACK Leaf 3 Leaf)]"
      RB_BLACK Leaf "1 :: nat" Leaf "[InL RB_BLACK 2 (Node RB_BLACK Leaf 3 Leaf)]"]
  by (auto simp: rb_inv_def)

end
