(* ===== verification/Index.thy ===== *)
theory Index
  imports RBTree
begin

section \<open>Tree indexes and their contract\<close>

text \<open>
  The search loop that all the tree clients share, the contract of an index (\<open>index\<close>: what a
  lookup returns after an insertion and a removal), and the proof that a red-black tree searched
  with a consistent comparison fulfils it (\<open>tree_index\<close>, a sublocale). The components interpret
  \<open>tree_index\<close> with their own comparison functions and get the lookup laws from \<open>index\<close>.
\<close>

subsection \<open>Guided descent\<close>

text \<open>
  Every search and every insertion of the program is the same loop, \<^verbatim>\<open>while (*node)\<close> with a
  three-way comparison against the current element. \<open>rb_descend\<close> is that loop; the callers supply
  their comparison. It ends at the node where the comparison stops, or at the empty link.
\<close>

datatype dir = Go_left | Go_right | Here

fun rb_descend :: "('a \<Rightarrow> dir) \<Rightarrow> 'a rbt \<Rightarrow> 'a path \<Rightarrow> 'a loc" where
  "rb_descend d Leaf fs = (Leaf, fs)"
| "rb_descend d (Node c l x r) fs =
     (case d x of
        Go_left \<Rightarrow> rb_descend d l (InL c x r # fs)
      | Go_right \<Rightarrow> rb_descend d r (InR l c x # fs)
      | Here \<Rightarrow> (Node c l x r, fs))"

text \<open>
  A comparison guides the descent when it never changes from left back to right along the
  elements, and it singles out one element when it stops at one element at most.
\<close>

definition guides :: "('a \<Rightarrow> dir) \<Rightarrow> 'a list \<Rightarrow> bool" where
  "guides d xs \<longleftrightarrow>
     sorted_wrt (\<lambda>a b. (d a = Go_left \<longrightarrow> d b = Go_left) \<and> (d b = Go_right \<longrightarrow> d a = Go_right)) xs"

definition singles_out :: "('a \<Rightarrow> dir) \<Rightarrow> 'a list \<Rightarrow> bool" where
  "singles_out d xs \<longleftrightarrow> sorted_wrt (\<lambda>a b. d a = Go_right \<or> d b = Go_left) xs"

lemma guides_append:
  "guides d (xs @ x # ys) \<longleftrightarrow> guides d xs \<and> guides d ys \<and>
     (\<forall>a \<in> set xs. (d a = Go_left \<longrightarrow> d x = Go_left) \<and> (d x = Go_right \<longrightarrow> d a = Go_right)) \<and>
     (\<forall>b \<in> set ys. (d x = Go_left \<longrightarrow> d b = Go_left) \<and> (d b = Go_right \<longrightarrow> d x = Go_right)) \<and>
     (\<forall>a \<in> set xs. \<forall>b \<in> set ys.
        (d a = Go_left \<longrightarrow> d b = Go_left) \<and> (d b = Go_right \<longrightarrow> d a = Go_right))"
  by (auto simp: guides_def sorted_wrt_append)

lemma singles_out_guides: "singles_out d xs \<Longrightarrow> guides d xs"
  unfolding singles_out_def guides_def by (erule sorted_wrt_mono_rel [rotated]) auto

lemma singles_out_Here:
  "singles_out d (xs @ x # ys) \<Longrightarrow> d x = Here \<Longrightarrow> a \<in> set xs \<union> set ys \<Longrightarrow> d a \<noteq> Here"
  by (auto simp: singles_out_def sorted_wrt_append)

lemma rb_descend_plug: "rb_descend d t fs = (t', q) \<Longrightarrow> plug t' q = plug t fs"
  by (induction d t fs rule: rb_descend.induct) (auto split: dir.splits)

lemma rb_descend_Here: "rb_descend d t fs = (Node c l x r, q) \<Longrightarrow> d x = Here"
  by (induction d t fs rule: rb_descend.induct) (auto split: dir.splits)

lemma rb_descend_Leaf:
  assumes "rb_descend d t fs = (Leaf, q)" "guides d (inorder t)"
  shows "(\<forall>a \<in> set (inorder t). d a \<noteq> Here) \<and>
         (\<forall>a \<in> set (path_left q). a \<in> set (path_left fs) \<or> d a = Go_right) \<and>
         (\<forall>a \<in> set (path_right q). a \<in> set (path_right fs) \<or> d a = Go_left)"
  using assms
proof (induction d t fs rule: rb_descend.induct)
  case (2 d c l x r fs)
  note g = "2.prems"(2) [simplified, unfolded guides_append]
  show ?case
  proof (cases "d x")
    case Go_left
    with g have all: "\<forall>b \<in> set (inorder r). d b = Go_left" by simp
    from "2.IH"(1) [OF Go_left] "2.prems"(1) g Go_left
    have ih: "(\<forall>a \<in> set (inorder l). d a \<noteq> Here) \<and>
        (\<forall>a \<in> set (path_left q). a \<in> set (path_left fs) \<or> d a = Go_right) \<and>
        (\<forall>a \<in> set (path_right q). a \<in> set (x # inorder r @ path_right fs) \<or> d a = Go_left)"
      by simp
    with all Go_left show ?thesis by auto
  next
    case Go_right
    with g have all: "\<forall>b \<in> set (inorder l). d b = Go_right" by auto
    from "2.IH"(2) [OF Go_right] "2.prems"(1) g Go_right
    have ih: "(\<forall>a \<in> set (inorder r). d a \<noteq> Here) \<and>
        (\<forall>a \<in> set (path_left q). a \<in> set (path_left fs @ inorder l @ [x]) \<or> d a = Go_right) \<and>
        (\<forall>a \<in> set (path_right q). a \<in> set (path_right fs) \<or> d a = Go_left)"
      by simp
    with all Go_right show ?thesis by auto
  qed (use "2.prems" in simp)
qed simp

text \<open>
  Insertion at the link the descent ends at, and removal of the node it stops at. Inserting where
  the comparison stops leaves the tree alone (the callers return before linking).
\<close>

definition rb_insert_by :: "('a \<Rightarrow> dir) \<Rightarrow> 'a \<Rightarrow> 'a rbt \<Rightarrow> 'a rbt option" where
  "rb_insert_by d x t =
     (case rb_descend d t [] of
        (Leaf, fs) \<Rightarrow> rb_insert_color x fs
      | (Node _ _ _ _, fs) \<Rightarrow> Some t)"

definition rb_find_by :: "('a \<Rightarrow> dir) \<Rightarrow> 'a rbt \<Rightarrow> 'a loc option" where
  "rb_find_by d t =
     (case rb_descend d t [] of
        (Leaf, fs) \<Rightarrow> None
      | (Node c l x r, fs) \<Rightarrow> Some (Node c l x r, fs))"

lemma rb_descend_Node_mem:
  "rb_descend d t [] = (Node c l x r, fs) \<Longrightarrow> x \<in> set (inorder t) \<and> d x = Here"
  using rb_descend_plug [of d t "[]"] rb_descend_Here [of d t "[]"] inorder_plug [of "Node c l x r" fs]
  by auto

lemma rb_find_by_None:
  assumes "guides d (inorder t)"
  shows "rb_find_by d t = None \<longleftrightarrow> (\<forall>a \<in> set (inorder t). d a \<noteq> Here)"
proof -
  obtain n fs where desc: "rb_descend d t [] = (n, fs)" by fastforce
  show ?thesis
  proof (cases n)
    case Leaf
    with desc assms rb_descend_Leaf [of d t "[]" fs] show ?thesis by (simp add: rb_find_by_def)
  next
    case (Node c l x r)
    with desc rb_descend_Node_mem [of d t c l x r fs] show ?thesis by (auto simp: rb_find_by_def)
  qed
qed

lemma rb_find_by_Some:
  assumes "rb_find_by d t = Some loc"
  obtains c l x r fs where "loc = (Node c l x r, fs)" "d x = Here" "plug (Node c l x r) fs = t"
    "x \<in> set (inorder t)"
proof -
  obtain n fs where desc: "rb_descend d t [] = (n, fs)" by fastforce
  with assms obtain c l x r where "loc = (Node c l x r, fs)" and n: "n = Node c l x r"
    by (cases n) (auto simp: rb_find_by_def)
  with that desc rb_descend_Node_mem [of d t c l x r fs] rb_descend_plug [OF desc]
  show thesis by simp
qed

lemma rb_insert_by_fresh:
  assumes "rb_inv t" "guides d (inorder t)" "\<forall>a \<in> set (inorder t). d a \<noteq> Here"
  shows "\<exists>t' ls rs. rb_insert_by d x t = Some t' \<and> rb_inv t' \<and>
           inorder t = ls @ rs \<and> inorder t' = ls @ x # rs \<and>
           (\<forall>a \<in> set ls. d a = Go_right) \<and> (\<forall>a \<in> set rs. d a = Go_left)"
proof -
  obtain n fs where desc: "rb_descend d t [] = (n, fs)" by fastforce
  have leaf: "n = Leaf"
    using desc assms(3) rb_descend_Node_mem [of d t] by (cases n) auto
  with desc have plug: "plug Leaf fs = t" using rb_descend_plug [OF desc] by simp
  then obtain t' where "rb_insert_color x fs = Some t'" "rb_inv t'"
    "inorder t' = path_left fs @ x # path_right fs"
    using rb_insert_color_correct [of fs x] assms(1) by auto
  moreover have "inorder t = path_left fs @ path_right fs"
    using plug inorder_plug [of Leaf fs] by simp
  moreover have "\<forall>a \<in> set (path_left fs). d a = Go_right" "\<forall>a \<in> set (path_right fs). d a = Go_left"
    using desc leaf rb_descend_Leaf [of d t "[]" fs] assms(2) by auto
  ultimately show ?thesis using desc leaf unfolding rb_insert_by_def by auto
qed

lemma rb_insert_by_clash:
  assumes "guides d (inorder t)" "a \<in> set (inorder t)" "d a = Here"
  shows "rb_insert_by d x t = Some t"
proof -
  obtain n fs where desc: "rb_descend d t [] = (n, fs)" by fastforce
  with assms rb_descend_Leaf [of d t "[]" fs] have "n \<noteq> Leaf" by auto
  with desc show ?thesis by (cases n) (auto simp: rb_insert_by_def)
qed


subsection \<open>The contract of an index\<close>

text \<open>
  An element covers some keys (an interval its points, a device its number); elements of one index
  never cover a common key. The operations return \<open>None\<close> only when they would follow a
  NULL pointer, and the laws say that they do not.
\<close>

locale index =
  fixes invar :: "'t \<Rightarrow> bool"
    and elems :: "'t \<Rightarrow> 'a set"
    and ok :: "'a \<Rightarrow> bool"
    and covers :: "'a \<Rightarrow> 'k \<Rightarrow> bool"
    and lookup :: "'t \<Rightarrow> 'k \<Rightarrow> 'a option"
    and insert :: "'t \<Rightarrow> 'a \<Rightarrow> 't option"
    and delete :: "'t \<Rightarrow> 'k \<Rightarrow> 't option"
  assumes elems_ok: "invar t \<Longrightarrow> a \<in> elems t \<Longrightarrow> ok a"
    and lookup_iff: "invar t \<Longrightarrow> lookup t k = Some a \<longleftrightarrow> a \<in> elems t \<and> covers a k"
    and insert_fresh: "invar t \<Longrightarrow> ok a \<Longrightarrow> (\<And>b k. b \<in> elems t \<Longrightarrow> covers a k \<Longrightarrow> \<not> covers b k) \<Longrightarrow>
      \<exists>t'. insert t a = Some t' \<and> invar t' \<and> elems t' = Set.insert a (elems t)"
    and insert_clash: "invar t \<Longrightarrow> ok a \<Longrightarrow> b \<in> elems t \<Longrightarrow> covers a k \<Longrightarrow> covers b k \<Longrightarrow>
      insert t a = Some t"
    and delete_elems: "invar t \<Longrightarrow>
      \<exists>t'. delete t k = Some t' \<and> invar t' \<and> elems t' = {b \<in> elems t. \<not> covers b k}"
begin

lemma disjoint:
  "invar t \<Longrightarrow> a \<in> elems t \<Longrightarrow> b \<in> elems t \<Longrightarrow> covers a k \<Longrightarrow> covers b k \<Longrightarrow> a = b"
  using lookup_iff [of t k a] lookup_iff [of t k b] by simp

lemma lookup_None: "invar t \<Longrightarrow> lookup t k = None \<longleftrightarrow> (\<forall>a \<in> elems t. \<not> covers a k)"
  using lookup_iff [of t k] by (metis not_Some_eq)

lemma lookup_insert:
  assumes "invar t" "ok a" "\<And>b k. b \<in> elems t \<Longrightarrow> covers a k \<Longrightarrow> \<not> covers b k"
  shows "\<exists>t'. insert t a = Some t' \<and> invar t' \<and> elems t' = Set.insert a (elems t) \<and>
           (\<forall>k. lookup t' k = (if covers a k then Some a else lookup t k))"
proof -
  obtain t' where t': "insert t a = Some t'" "invar t'" "elems t' = Set.insert a (elems t)"
    using insert_fresh [of t a] assms by blast
  have "lookup t' k = (if covers a k then Some a else lookup t k)" for k
    using t' assms by (intro option_eqI) (auto simp: lookup_iff)
  with t' show ?thesis by blast
qed

lemma lookup_delete:
  assumes "invar t"
  shows "\<exists>t'. delete t k = Some t' \<and> invar t' \<and> elems t' = {b \<in> elems t. \<not> covers b k} \<and>
           (\<forall>j. lookup t' j =
              (case lookup t k of None \<Rightarrow> lookup t j
               | Some a \<Rightarrow> if covers a j then None else lookup t j))"
proof -
  obtain t' where t': "delete t k = Some t'" "invar t'" "elems t' = {b \<in> elems t. \<not> covers b k}"
    using delete_elems [OF assms, of k] by blast
  have "lookup t' j = (case lookup t k of None \<Rightarrow> lookup t j
               | Some a \<Rightarrow> if covers a j then None else lookup t j)" for j
  proof (cases "lookup t k")
    case None
    then have "\<forall>a \<in> elems t. \<not> covers a k" using assms by (simp add: lookup_None)
    with assms t' have "lookup t' j = lookup t j"
      by (intro option_eqI) (auto simp: lookup_iff)
    with None show ?thesis by simp
  next
    case (Some a)
    then have a: "a \<in> elems t" "covers a k" using assms by (auto simp: lookup_iff)
    then have "elems t' = elems t - {a}" using t'(3) disjoint [OF assms] by blast
    with a assms t'(2) have "lookup t' j = (if covers a j then None else lookup t j)"
      using disjoint [OF assms, of a _ j] by (intro option_eqI) (auto simp: lookup_iff)
    with Some show ?thesis by simp
  qed
  with t' show ?thesis by blast
qed

lemma delete_after_insert:
  assumes "invar t" "ok a" "\<And>b k. b \<in> elems t \<Longrightarrow> covers a k \<Longrightarrow> \<not> covers b k" "covers a k"
  shows "\<exists>t1 t2. insert t a = Some t1 \<and> delete t1 k = Some t2 \<and> invar t2 \<and> elems t2 = elems t"
proof -
  obtain t1 where t1: "insert t a = Some t1" "invar t1" "elems t1 = Set.insert a (elems t)"
    using insert_fresh [of t a] assms by blast
  obtain t2 where t2: "delete t1 k = Some t2" "invar t2" "elems t2 = {b \<in> elems t1. \<not> covers b k}"
    using delete_elems [OF t1(2)] by blast
  have "elems t2 = elems t" using t1(3) t2(3) assms(3) [OF _ assms(4)] assms(4) by auto
  with t1 t2 show ?thesis by auto
qed

end


subsection \<open>A tree searched with a consistent comparison is an index\<close>

locale tree_index =
  fixes before :: "'a \<Rightarrow> 'a \<Rightarrow> bool"
    and ok :: "'a \<Rightarrow> bool"
    and dir_key :: "'k \<Rightarrow> 'a \<Rightarrow> dir"
    and dir_elem :: "'a \<Rightarrow> 'a \<Rightarrow> dir"
    and lookup :: "'a rbt \<Rightarrow> 'k \<Rightarrow> 'a option"
    and insert :: "'a rbt \<Rightarrow> 'a \<Rightarrow> 'a rbt option"
    and delete :: "'a rbt \<Rightarrow> 'k \<Rightarrow> 'a rbt option"
  assumes dir_key_guides: "ok a \<Longrightarrow> ok b \<Longrightarrow> before a b \<Longrightarrow> dir_key k a = Go_right \<or> dir_key k b = Go_left"
    and dir_elem_guides:
      "ok a \<Longrightarrow> ok b \<Longrightarrow> ok x \<Longrightarrow> before a b \<Longrightarrow>
        (dir_elem x a = Go_left \<longrightarrow> dir_elem x b = Go_left) \<and>
        (dir_elem x b = Go_right \<longrightarrow> dir_elem x a = Go_right)"
    and dir_elem_left: "dir_elem x a = Go_left \<Longrightarrow> before x a"
    and dir_elem_right: "dir_elem x a = Go_right \<Longrightarrow> before a x"
    and dir_elem_here: "ok a \<Longrightarrow> ok x \<Longrightarrow>
      dir_elem x a = Here \<longleftrightarrow> (\<exists>k. dir_key k x = Here \<and> dir_key k a = Here)"
    and lookup_impl: "lookup t k = Option.bind (rb_find_by (dir_key k) t) rb_elem"
    and insert_impl: "insert t x = rb_insert_by (dir_elem x) x t"
    and delete_impl: "delete t k =
      (case rb_find_by (dir_key k) t of None \<Rightarrow> Some t | Some loc \<Rightarrow> rb_erase loc)"
begin

definition tree_inv :: "'a rbt \<Rightarrow> bool" where
  "tree_inv t \<longleftrightarrow> rb_inv t \<and> sorted_wrt before (inorder t) \<and> (\<forall>a \<in> set (inorder t). ok a)"

lemma singles_out_key:
  assumes "tree_inv t"
  shows "singles_out (dir_key k) (inorder t)"
  unfolding singles_out_def
proof (rule sorted_wrt_mono_rel [of _ before])
  show "sorted_wrt before (inorder t)" using assms by (simp add: tree_inv_def)
next
  fix a b assume "a \<in> set (inorder t)" "b \<in> set (inorder t)" "before a b"
  with assms show "dir_key k a = Go_right \<or> dir_key k b = Go_left"
    by (intro dir_key_guides) (auto simp: tree_inv_def)
qed

lemmas guides_key = singles_out_key [THEN singles_out_guides]

lemma guides_elem:
  assumes "tree_inv t" "ok x"
  shows "guides (dir_elem x) (inorder t)"
  unfolding guides_def
proof (rule sorted_wrt_mono_rel [of _ before])
  show "sorted_wrt before (inorder t)" using assms by (simp add: tree_inv_def)
next
  fix a b assume "a \<in> set (inorder t)" "b \<in> set (inorder t)" "before a b"
  with assms show "(dir_elem x a = Go_left \<longrightarrow> dir_elem x b = Go_left) \<and>
      (dir_elem x b = Go_right \<longrightarrow> dir_elem x a = Go_right)"
    by (intro dir_elem_guides) (auto simp: tree_inv_def)
qed

lemma lookup_tree:
  assumes "tree_inv t"
  shows "lookup t k = Some a \<longleftrightarrow> a \<in> set (inorder t) \<and> dir_key k a = Here"
proof (cases "rb_find_by (dir_key k) t")
  case None
  with rb_find_by_None [OF guides_key [OF assms, of k]] show ?thesis
    by (auto simp: lookup_impl)
next
  case (Some loc)
  then obtain c l x r fs where loc: "loc = (Node c l x r, fs)" "dir_key k x = Here"
    "plug (Node c l x r) fs = t" "x \<in> set (inorder t)" by (rule rb_find_by_Some)
  have io: "inorder t = (path_left fs @ inorder l) @ x # (inorder r @ path_right fs)"
    using loc(3) inorder_plug [of "Node c l x r" fs] by simp
  have uniq: "a = x" if "a \<in> set (inorder t)" "dir_key k a = Here" for a
    using that singles_out_Here singles_out_key [OF assms, of k] loc(2) unfolding io by fastforce
  have "lookup t k = Some x" by (simp add: lookup_impl Some loc(1))
  then show ?thesis using uniq loc(2,4) by (metis option.inject)
qed

lemma insert_tree_fresh:
  assumes "tree_inv t" "ok x" "\<forall>a \<in> set (inorder t). dir_elem x a \<noteq> Here"
  shows "\<exists>t'. insert t x = Some t' \<and> tree_inv t' \<and> set (inorder t') = Set.insert x (set (inorder t))"
proof -
  obtain t' ls rs where t': "insert t x = Some t'" "rb_inv t'" "inorder t = ls @ rs"
    "inorder t' = ls @ x # rs" "\<forall>a \<in> set ls. dir_elem x a = Go_right"
    "\<forall>a \<in> set rs. dir_elem x a = Go_left"
    using rb_insert_by_fresh [OF _ guides_elem [OF assms(1,2)] assms(3), of x] assms(1)
    unfolding insert_impl tree_inv_def by blast
  moreover have "sorted_wrt before (inorder t')"
    using assms(1) t' dir_elem_left dir_elem_right
    by (auto simp: tree_inv_def sorted_wrt_append)
  ultimately show ?thesis using assms(1,2) by (auto simp: tree_inv_def)
qed

lemma delete_tree:
  assumes "tree_inv t"
  shows "\<exists>t'. delete t k = Some t' \<and> tree_inv t' \<and>
           set (inorder t') = {b \<in> set (inorder t). dir_key k b \<noteq> Here}"
proof (cases "rb_find_by (dir_key k) t")
  case None
  with rb_find_by_None [OF guides_key [OF assms, of k]] assms show ?thesis
    by (auto simp: delete_impl)
next
  case (Some loc)
  then obtain c l x r fs where loc: "loc = (Node c l x r, fs)" "dir_key k x = Here"
    "plug (Node c l x r) fs = t" "x \<in> set (inorder t)" by (rule rb_find_by_Some)
  have io: "inorder t = (path_left fs @ inorder l) @ x # (inorder r @ path_right fs)"
    using loc(3) inorder_plug [of "Node c l x r" fs] by simp
  have "rb_inv (plug (Node c l x r) fs)" using assms loc(3) by (simp add: tree_inv_def)
  then obtain t' where t': "rb_erase (Node c l x r, fs) = Some t'" "rb_inv t'"
    "inorder t' = (path_left fs @ inorder l) @ inorder r @ path_right fs"
    using rb_erase_correct [of c l x r fs] by auto
  have others: "dir_key k b \<noteq> Here" if "b \<in> set (inorder t')" for b
    using that singles_out_Here singles_out_key [OF assms, of k] loc(2) unfolding io t'(3)
    by fastforce
  have "tree_inv t'"
    using assms t'(2) unfolding tree_inv_def io t'(3) by (auto simp: sorted_wrt_append)
  moreover have "set (inorder t') = {b \<in> set (inorder t). dir_key k b \<noteq> Here}"
    using others loc(2) unfolding io t'(3) by auto
  ultimately show ?thesis using Some loc t'(1) by (auto simp: delete_impl)
qed

end

sublocale tree_index \<subseteq> index tree_inv "\<lambda>t. set (inorder t)" ok
    "\<lambda>a k. dir_key k a = Here" lookup insert delete
proof
  fix t a k
  assume inv: "tree_inv t"
  show "a \<in> set (inorder t) \<Longrightarrow> ok a" using inv by (auto simp: tree_inv_def)
  show "lookup t k = Some a \<longleftrightarrow> a \<in> set (inorder t) \<and> dir_key k a = Here"
    using lookup_tree [OF inv] .
  show "\<exists>t'. delete t k = Some t' \<and> tree_inv t' \<and>
      set (inorder t') = {b \<in> set (inorder t). dir_key k b \<noteq> Here}"
    using delete_tree [OF inv] .
next
  fix t x
  assume inv: "tree_inv t" and ok: "ok x"
    and fresh: "\<And>b k. b \<in> set (inorder t) \<Longrightarrow> dir_key k x = Here \<Longrightarrow> dir_key k b \<noteq> Here"
  have "dir_elem x a \<noteq> Here" if "a \<in> set (inorder t)" for a
    using that fresh [OF that] dir_elem_here [of a x] ok inv by (auto simp: tree_inv_def)
  then show "\<exists>t'. insert t x = Some t' \<and> tree_inv t' \<and>
      set (inorder t') = Set.insert x (set (inorder t))"
    using insert_tree_fresh [OF inv ok] by simp
next
  fix t x b k
  assume inv: "tree_inv t" and ok: "ok x" and b: "b \<in> set (inorder t)"
    and k: "dir_key k x = Here" "dir_key k b = Here"
  have "dir_elem x b = Here" using dir_elem_here [of b x] ok b k inv by (auto simp: tree_inv_def)
  then show "insert t x = Some t"
    using rb_insert_by_clash [OF guides_elem [OF inv ok] b] by (simp add: insert_impl)
qed

end
