(* ===== verification/Interval_Tree.thy ===== *)
theory Interval_Tree
  imports Index
begin

section \<open>Interval trees (util/rbtree-interval.c, include/kvm/rbtree-interval.h)\<close>

text \<open>
  A \<^verbatim>\<open>struct rb_int_node\<close> is an interval \<open>[low, high)\<close> of 64-bit addresses; \<open>entry\<close> stands for the other
  fields of the structure it is embedded in (\<^verbatim>\<open>struct ioport\<close>, \<^verbatim>\<open>struct mmio_mapping\<close>). A node
  pointer is the node's location in the tree.
\<close>

record 'p rb_int_node =
  low :: u64
  high :: u64
  entry :: 'p

definition point_dir :: "u64 \<Rightarrow> 'p rb_int_node \<Rightarrow> dir" where
  "point_dir point cur =
     (if point < low cur then Go_left else if high cur \<le> point then Go_right else Here)"

definition rb_int_search_single ::
    "'p rb_int_node rbt \<Rightarrow> u64 \<Rightarrow> 'p rb_int_node loc option" where
  "rb_int_search_single root point = rb_find_by (point_dir point) root"

definition rb_int_search_range ::
    "'p rb_int_node rbt \<Rightarrow> u64 \<Rightarrow> u64 \<Rightarrow> 'p rb_int_node loc option" where
  "rb_int_search_range root lo hi =
     (case rb_int_search_single root lo of
        None \<Rightarrow> None
      | Some node \<Rightarrow>
          (case rb_elem node of
             None \<Rightarrow> None
           | Some n \<Rightarrow> if high n < hi then None else Some node))"

definition insert_dir :: "'p rb_int_node \<Rightarrow> 'p rb_int_node \<Rightarrow> dir" where
  "insert_dir i_node cur =
     (if high i_node \<le> low cur then Go_left
      else if high cur \<le> low i_node then Go_right else Here)"

definition rb_int_insert ::
    "'p rb_int_node rbt \<Rightarrow> 'p rb_int_node \<Rightarrow> (int \<times> 'p rb_int_node rbt) option" where
  "rb_int_insert root i_node =
     (case rb_descend (insert_dir i_node) root [] of
        (Node _ _ _ _, _) \<Rightarrow> Some (- EEXIST, root)
      | (Leaf, link) \<Rightarrow> map_option (\<lambda>t. (0, t)) (rb_insert_color i_node link))"

definition rb_int_erase :: "'p rb_int_node loc \<Rightarrow> 'p rb_int_node rbt option" where
  "rb_int_erase node = rb_erase node"

text \<open>The operations as an index: the element found, the tree after an insertion or a removal.\<close>

definition rb_int_lookup :: "'p rb_int_node rbt \<Rightarrow> u64 \<Rightarrow> 'p rb_int_node option" where
  "rb_int_lookup root point = Option.bind (rb_int_search_single root point) rb_elem"

definition rb_int_insert_tree ::
    "'p rb_int_node rbt \<Rightarrow> 'p rb_int_node \<Rightarrow> 'p rb_int_node rbt option" where
  "rb_int_insert_tree root i_node = map_option snd (rb_int_insert root i_node)"

definition rb_int_erase_point ::
    "'p rb_int_node rbt \<Rightarrow> u64 \<Rightarrow> 'p rb_int_node rbt option" where
  "rb_int_erase_point root point =
     (case rb_int_search_single root point of
        None \<Rightarrow> Some root
      | Some node \<Rightarrow> rb_int_erase node)"

text \<open>Well-formed interval trees: proper intervals, pairwise disjoint and in order.\<close>

definition int_ok :: "'p rb_int_node \<Rightarrow> bool" where
  "int_ok n \<longleftrightarrow> low n < high n"

definition in_int :: "'p rb_int_node \<Rightarrow> u64 \<Rightarrow> bool" where
  "in_int n p \<longleftrightarrow> low n \<le> p \<and> p < high n"

definition int_before :: "'p rb_int_node \<Rightarrow> 'p rb_int_node \<Rightarrow> bool" where
  "int_before a b \<longleftrightarrow> high a \<le> low b"

definition int_disjoint :: "'p rb_int_node \<Rightarrow> 'p rb_int_node \<Rightarrow> bool" where
  "int_disjoint a b \<longleftrightarrow> high a \<le> low b \<or> high b \<le> low a"

definition rb_int_inv :: "'p rb_int_node rbt \<Rightarrow> bool" where
  "rb_int_inv t \<longleftrightarrow> rb_inv t \<and> sorted_wrt int_before (inorder t) \<and> (\<forall>n \<in> set (inorder t). int_ok n)"

lemma point_dir_Here [simp]: "point_dir p n = Here \<longleftrightarrow> in_int n p"
  by (auto simp: point_dir_def in_int_def)

lemma insert_dir_Here: "insert_dir x a = Here \<longleftrightarrow> \<not> int_disjoint x a"
  by (auto simp: insert_dir_def int_disjoint_def)

lemma disjoint_iff:
  assumes "int_ok a" "int_ok b"
  shows "int_disjoint a b \<longleftrightarrow> (\<forall>p. \<not> (in_int a p \<and> in_int b p))"
proof
  show "int_disjoint a b \<Longrightarrow> \<forall>p. \<not> (in_int a p \<and> in_int b p)"
    by (auto simp: int_disjoint_def in_int_def)
next
  assume "\<forall>p. \<not> (in_int a p \<and> in_int b p)"
  from spec [OF this, of "max (low a) (low b)"] assms show "int_disjoint a b"
    by (auto simp: int_disjoint_def in_int_def int_ok_def max_def split: if_splits)
qed

lemma rb_int_insert_by:
  "rb_int_insert root i_node =
     (if (\<exists>c l x r fs. rb_descend (insert_dir i_node) root [] = (Node c l x r, fs))
      then Some (- EEXIST, root)
      else map_option (\<lambda>t. (0, t)) (rb_insert_by (insert_dir i_node) i_node root))"
  by (auto simp: rb_int_insert_def rb_insert_by_def split: prod.splits rbt.splits)

interpretation itree: tree_index "int_before :: 'p rb_int_node \<Rightarrow> _" int_ok point_dir insert_dir
    rb_int_lookup rb_int_insert_tree rb_int_erase_point
proof
  fix a b x :: "'p rb_int_node" and k :: u64 and t :: "'p rb_int_node rbt"
  show "int_ok a \<Longrightarrow> int_ok b \<Longrightarrow> int_before a b \<Longrightarrow>
      point_dir k a = Go_right \<or> point_dir k b = Go_left"
    by (auto simp: point_dir_def int_ok_def int_before_def)
  show "int_ok a \<Longrightarrow> int_ok b \<Longrightarrow> int_ok x \<Longrightarrow> int_before a b \<Longrightarrow>
      (insert_dir x a = Go_left \<longrightarrow> insert_dir x b = Go_left) \<and>
      (insert_dir x b = Go_right \<longrightarrow> insert_dir x a = Go_right)"
    by (auto simp: insert_dir_def int_ok_def int_before_def)
  show "insert_dir x a = Go_left \<Longrightarrow> int_before x a"
    by (auto simp: insert_dir_def int_before_def split: if_splits)
  show "insert_dir x a = Go_right \<Longrightarrow> int_before a x"
    by (auto simp: insert_dir_def int_before_def split: if_splits)
  show "int_ok a \<Longrightarrow> int_ok x \<Longrightarrow> insert_dir x a = Here \<longleftrightarrow>
      (\<exists>k. point_dir k x = Here \<and> point_dir k a = Here)"
    using disjoint_iff [of x a] by (auto simp: insert_dir_Here)
  show "rb_int_lookup t k = Option.bind (rb_find_by (point_dir k) t) rb_elem"
    by (simp add: rb_int_lookup_def rb_int_search_single_def)
  show "rb_int_insert_tree t x = rb_insert_by (insert_dir x) x t"
    by (auto simp: rb_int_insert_tree_def rb_int_insert_def rb_insert_by_def option.map_comp comp_def option.map_ident
        split: prod.splits rbt.splits)
  show "rb_int_erase_point t k =
      (case rb_find_by (point_dir k) t of None \<Rightarrow> Some t | Some loc \<Rightarrow> rb_erase loc)"
    by (simp add: rb_int_erase_point_def rb_int_search_single_def rb_int_erase_def split: option.splits)
qed

lemma tree_inv_eq [simp]: "itree.tree_inv t = rb_int_inv t"
  by (simp add: itree.tree_inv_def rb_int_inv_def)

lemma rb_int_search_iff:
  assumes "rb_int_inv t"
  shows "rb_int_lookup t p = Some n \<longleftrightarrow> n \<in> set (inorder t) \<and> in_int n p"
  using itree.lookup_tree [of t p n] assms by simp

lemma rb_int_search_range_iff:
  assumes "rb_int_inv t"
  shows "Option.bind (rb_int_search_range t lo hi) rb_elem = Some n \<longleftrightarrow>
           n \<in> set (inorder t) \<and> in_int n lo \<and> hi \<le> high n"
proof -
  have "Option.bind (rb_int_search_range t lo hi) rb_elem =
      Option.bind (rb_int_lookup t lo) (\<lambda>n. if high n < hi then None else Some n)"
    by (auto simp: rb_int_search_range_def rb_int_lookup_def bind_eq_Some_conv
        split: option.splits)
  with rb_int_search_iff [OF assms, of lo n] show ?thesis
    by (auto simp: bind_eq_Some_conv split: if_splits)
qed

text \<open>
  Insertion: 0 and the enlarged tree when the interval is disjoint from every registered one,
  \<open>-EEXIST\<close> and the same tree otherwise.
\<close>

lemma rb_int_insert_ok:
  assumes "rb_int_inv t" "int_ok n" "\<forall>m \<in> set (inorder t). int_disjoint n m"
  shows "\<exists>t'. rb_int_insert t n = Some (0, t') \<and> rb_int_inv t' \<and>
           set (inorder t') = insert n (set (inorder t)) \<and>
           (\<forall>p. rb_int_lookup t' p = (if in_int n p then Some n else rb_int_lookup t p))"
proof -
  have fresh: "\<And>b k. b \<in> set (inorder t) \<Longrightarrow> point_dir k n = Here \<Longrightarrow> point_dir k b \<noteq> Here"
    using assms disjoint_iff [OF assms(2)] by (auto simp: rb_int_inv_def)
  obtain t' where t': "rb_int_insert_tree t n = Some t'" "rb_int_inv t'"
    "set (inorder t') = insert n (set (inorder t))"
    "\<forall>p. rb_int_lookup t' p = (if in_int n p then Some n else rb_int_lookup t p)"
    using itree.lookup_insert [of t n] assms(1,2) fresh by auto
  have "\<nexists>c l x r fs. rb_descend (insert_dir n) t [] = (Node c l x r, fs)"
    using rb_descend_Node_mem [of "insert_dir n" t] assms(3) by (auto simp: insert_dir_Here)
  then have "rb_int_insert t n = Some (0, t')"
    using t'(1) by (auto simp: rb_int_insert_tree_def rb_int_insert_by)
  with t' show ?thesis by auto
qed

lemma rb_int_insert_clash:
  assumes "rb_int_inv t" "int_ok n" "m \<in> set (inorder t)" "\<not> int_disjoint n m"
  shows "rb_int_insert t n = Some (- EEXIST, t)"
proof -
  obtain n' fs where desc: "rb_descend (insert_dir n) t [] = (n', fs)" by fastforce
  have "guides (insert_dir n) (inorder t)"
    using itree.guides_elem [of t n] assms by simp
  with desc rb_descend_Leaf [of "insert_dir n" t "[]" fs] assms(3,4) have "n' \<noteq> Leaf"
    by (auto simp: insert_dir_Here)
  with desc show ?thesis by (cases n') (auto simp: rb_int_insert_def)
qed

subsection \<open>Claims\<close>

text \<open>
  C18: inserting an interval that overlaps no stored one succeeds, keeps the tree a red-black tree of
  disjoint intervals, and changes the lookup exactly at the new interval's points.
\<close>

theorem interval_insert_lookup:
  assumes "rb_int_inv t" "int_ok n" "\<forall>m \<in> set (inorder t). int_disjoint n m"
  shows "\<exists>t'. rb_int_insert t n = Some (0, t') \<and> rb_int_inv t' \<and>
           set (inorder t') = insert n (set (inorder t)) \<and>
           (\<forall>p. rb_int_lookup t' p = (if in_int n p then Some n else rb_int_lookup t p))"
  by (rule rb_int_insert_ok [OF assms])

theorem interval_insert_lookup_witness:
  "\<exists>t'. rb_int_insert (Node RB_BLACK Leaf \<lparr> low = 10, high = 20, entry = () \<rparr> Leaf) \<lparr> low = 20, high = 24, entry = () \<rparr>
          = Some (0, t') \<and> rb_int_inv t' \<and> rb_int_lookup t' 23 = Some \<lparr> low = 20, high = 24, entry = () \<rparr> \<and>
        rb_int_lookup t' 5 = None"
proof -
  let ?t = "Node RB_BLACK Leaf \<lparr> low = 10, high = 20, entry = () \<rparr> Leaf"
  let ?n = "\<lparr> low = 20, high = 24, entry = () \<rparr>"
  have "rb_int_inv ?t" "int_ok ?n" "\<forall>m \<in> set (inorder ?t). int_disjoint ?n m" "rb_int_lookup ?t 5 = None"
    by (simp_all add: rb_int_inv_def rb_inv_def int_ok_def int_disjoint_def int_before_def rb_int_lookup_def
        rb_int_search_single_def rb_find_by_def point_dir_def)
  then show ?thesis using interval_insert_lookup [of ?t ?n] by (auto simp: in_int_def)
qed

end
