(* ===== verification/Irq.thy ===== *)
theory Irq
  imports Kvmc_Prelude
begin

section \<open>Interrupt lines and MSI routing (src/irq.c, arch/x86/irq.c)\<close>

text \<open>
  The file-scope variables of \<^verbatim>\<open>irq.c\<close> are the record \<open>irq_state\<close>. The routing table is a list of
  \<open>allocated_gsis\<close> entries of which the first \<open>nr\<close> are in use. The union \<open>u\<close> of a routing entry is
  its four 32-bit words: \<open>u.msi.address_lo\<close> overlays \<open>u.irqchip.irqchip\<close> and \<open>u.msi.address_hi\<close>
  overlays \<open>u.irqchip.pin\<close>, as in \<^verbatim>\<open>linux/kvm.h\<close>. The host (the KVM \<^verbatim>\<open>ioctl\<close>s, \<^verbatim>\<open>realloc\<close>) is
  the record \<open>kvm_host\<close>, a parameter; \<open>kernel_routes\<close> remembers the table that the last successful
  \<^verbatim>\<open>KVM_SET_GSI_ROUTING\<close> handed to the kernel. A freed table (\<open>irq__exit\<close>, a failed \<open>irq__init\<close>) is
  \<open>None\<close>: the C pointer dangles there, and nothing is claimed of later calls on such a state.
\<close>

record kvm_irq_routing_entry =
  gsi :: u32
  rtype :: u32
  rflags :: u32
  u0 :: u32
  u1 :: u32
  u2 :: u32
  u3 :: u32

record kvm_irq_routing =
  nr :: nat
  flags :: u32
  entries :: "kvm_irq_routing_entry list"

record msi_msg =
  address_lo :: u32
  address_hi :: u32
  msg_data :: u32

record kvm_host =
  supports_extension :: "nat \<Rightarrow> bool"
  set_gsi_routing :: "kvm_irq_routing_entry list \<Rightarrow> int"
  signal_msi_rc :: "msi_msg \<Rightarrow> int"
  irqfd_rc :: "u32 \<Rightarrow> int \<Rightarrow> u32 \<Rightarrow> int \<Rightarrow> int"
  realloc_ok :: "nat \<Rightarrow> bool"
  host_errno :: int
  msix_needs_devid :: bool

record irq_state =
  next_line :: u8
  allocated_gsis :: nat
  next_gsi :: int
  irq_routing :: "kvm_irq_routing option"
  has_irq_routing :: int
  kernel_routes :: "kvm_irq_routing_entry list"

definition KVM_IRQ_OFFSET :: u8 where "KVM_IRQ_OFFSET = 5"
definition KVM_CAP_IRQ_ROUTING :: nat where "KVM_CAP_IRQ_ROUTING = 25"
definition KVM_CAP_SIGNAL_MSI :: nat where "KVM_CAP_SIGNAL_MSI = 77"
definition KVM_IRQ_ROUTING_IRQCHIP :: u32 where "KVM_IRQ_ROUTING_IRQCHIP = 1"
definition KVM_IRQ_ROUTING_MSI :: u32 where "KVM_IRQ_ROUTING_MSI = 2"
definition KVM_MSI_VALID_DEVID :: u32 where "KVM_MSI_VALID_DEVID = 1"
definition KVM_IRQFD_FLAG_DEASSIGN :: u32 where "KVM_IRQFD_FLAG_DEASSIGN = 1"
definition KVM_IRQFD_FLAG_RESAMPLE :: u32 where "KVM_IRQFD_FLAG_RESAMPLE = 2"
definition irq_initial :: irq_state where
  "irq_initial = \<lparr> next_line = KVM_IRQ_OFFSET, allocated_gsis = 0, next_gsi = 0,
     irq_routing = None, has_irq_routing = 0, kernel_routes = [] \<rparr>"

definition zero_entry :: kvm_irq_routing_entry where
  "zero_entry = \<lparr> gsi = 0, rtype = 0, rflags = 0, u0 = 0, u1 = 0, u2 = 0, u3 = 0 \<rparr>"

definition irq__alloc_line :: "irq_state \<Rightarrow> u8 \<times> irq_state" where
  "irq__alloc_line s = (next_line s, s\<lparr> next_line := next_line s + 1 \<rparr>)"

definition irq__get_nr_allocated_lines :: "irq_state \<Rightarrow> int" where
  "irq__get_nr_allocated_lines s = uint (next_line s) - uint KVM_IRQ_OFFSET"

definition align_up :: "nat \<Rightarrow> nat \<Rightarrow> nat" where
  "align_up x a = (x + a - 1) div a * a"

definition irq__allocate_routing_entry :: "kvm_host \<Rightarrow> irq_state \<Rightarrow> int \<times> irq_state" where
  "irq__allocate_routing_entry h s =
     (let nr_entries = (case irq_routing s of None \<Rightarrow> 0 | Some r \<Rightarrow> nr r) in
      if nr_entries < allocated_gsis s then (0, s)
      else
        let old = allocated_gsis s;
            s = s\<lparr> allocated_gsis := align_up (nr_entries + 1) 32 \<rparr> in
        if \<not> realloc_ok h (allocated_gsis s) then (- ENOMEM, s\<lparr> irq_routing := None \<rparr>)
        else
          let kept = (case irq_routing s of None \<Rightarrow> [] | Some r \<Rightarrow> take old (entries r)) in
          (0, s\<lparr> irq_routing := Some \<lparr> nr = nr_entries, flags = 0,
                   entries = kept @ replicate (allocated_gsis s - old) zero_entry \<rparr> \<rparr>))"

definition check_for_irq_routing :: "kvm_host \<Rightarrow> irq_state \<Rightarrow> bool \<times> irq_state" where
  "check_for_irq_routing h s =
     (let s = (if has_irq_routing s = 0
               then (if supports_extension h KVM_CAP_IRQ_ROUTING
                     then s\<lparr> has_irq_routing := 1 \<rparr> else s\<lparr> has_irq_routing := - 1 \<rparr>)
               else s)
      in (0 < has_irq_routing s, s))"

text \<open>
  \<^verbatim>\<open>struct msi_routing_ops\<close>: the operations the architecture may replace; x86 uses the defaults.
\<close>

record msi_routing_ops =
  update_route :: "kvm_host \<Rightarrow> irq_state \<Rightarrow> kvm_irq_routing_entry \<Rightarrow> (int \<times> irq_state) option"
  signal_msi :: "kvm_host \<Rightarrow> msi_msg \<Rightarrow> int"
  can_signal_msi :: "kvm_host \<Rightarrow> bool"
  translate_gsi :: "(kvm_host \<Rightarrow> u32 \<Rightarrow> u32) option"

definition irq__update_msix_routes ::
    "kvm_host \<Rightarrow> irq_state \<Rightarrow> kvm_irq_routing_entry \<Rightarrow> (int \<times> irq_state) option" where
  "irq__update_msix_routes h s e =
     (case irq_routing s of
        None \<Rightarrow> None
      | Some r \<Rightarrow>
          (let table = take (nr r) (entries r); rc = set_gsi_routing h table in
           Some (rc, if rc = 0 then s\<lparr> kernel_routes := table \<rparr> else s)))"

definition irq__default_can_signal_msi :: "kvm_host \<Rightarrow> bool" where
  "irq__default_can_signal_msi h = supports_extension h KVM_CAP_SIGNAL_MSI"

definition irq__default_signal_msi :: "kvm_host \<Rightarrow> msi_msg \<Rightarrow> int" where
  "irq__default_signal_msi h msi = signal_msi_rc h msi"

definition irq__default_routing_ops :: msi_routing_ops where
  "irq__default_routing_ops =
     \<lparr> update_route = irq__update_msix_routes,
       signal_msi = irq__default_signal_msi,
       can_signal_msi = irq__default_can_signal_msi,
       translate_gsi = None \<rparr>"

definition irq__can_signal_msi :: "msi_routing_ops \<Rightarrow> kvm_host \<Rightarrow> bool" where
  "irq__can_signal_msi ops h = can_signal_msi ops h"

definition irq__signal_msi :: "msi_routing_ops \<Rightarrow> kvm_host \<Rightarrow> msi_msg \<Rightarrow> int" where
  "irq__signal_msi ops h msi = signal_msi ops h msi"

text \<open>A store through \<open>irq_routing->entries[nr]\<close>: \<open>None\<close> when the table or the slot is missing.\<close>

definition put_entry :: "kvm_irq_routing_entry \<Rightarrow> irq_state \<Rightarrow> irq_state option" where
  "put_entry e s =
     (case irq_routing s of
        None \<Rightarrow> None
      | Some r \<Rightarrow>
          if nr r < length (entries r)
          then Some (s\<lparr> irq_routing := Some (r\<lparr> entries := (entries r)[nr r := e], nr := nr r + 1 \<rparr>) \<rparr>)
          else None)"

definition irq__add_msix_route ::
    "msi_routing_ops \<Rightarrow> kvm_host \<Rightarrow> irq_state \<Rightarrow> msi_msg \<Rightarrow> u32 \<Rightarrow> (int \<times> irq_state) option" where
  "irq__add_msix_route ops h s msg device_id =
     (case check_for_irq_routing h s of (routing, s) \<Rightarrow>
      if \<not> routing then Some (- ENXIO, s) else
      case irq__allocate_routing_entry h s of (r, s) \<Rightarrow>
      if r \<noteq> 0 then Some (r, s) else
      let e = \<lparr> gsi = word_of_int (next_gsi s), rtype = KVM_IRQ_ROUTING_MSI, rflags = 0,
                u0 = address_lo msg, u1 = address_hi msg, u2 = msg_data msg, u3 = 0 \<rparr>;
          e = (if msix_needs_devid h then e\<lparr> rflags := KVM_MSI_VALID_DEVID, u3 := device_id \<rparr> else e) in
      case put_entry e s of
        None \<Rightarrow> None
      | Some s \<Rightarrow>
         (case update_route ops h s e of
            None \<Rightarrow> None
          | Some (r, s) \<Rightarrow>
              if r \<noteq> 0 then Some (r, s)
              else Some (next_gsi s, s\<lparr> next_gsi := next_gsi s + 1 \<rparr>)))"

definition update_data :: "u32 \<Rightarrow> u32 \<Rightarrow> bool \<times> u32" where
  "update_data old newdata = (if old = newdata then (False, old) else (True, newdata))"

fun find_gsi :: "u32 \<Rightarrow> kvm_irq_routing_entry list \<Rightarrow> nat" where
  "find_gsi g [] = 0"
| "find_gsi g (e # es) = (if g = gsi e then 0 else Suc (find_gsi g es))"

definition irq__update_msix_route ::
    "msi_routing_ops \<Rightarrow> kvm_host \<Rightarrow> irq_state \<Rightarrow> u32 \<Rightarrow> msi_msg \<Rightarrow> irq_state outcome option" where
  "irq__update_msix_route ops h s g msg =
     (case irq_routing s of
        None \<Rightarrow> None
      | Some r \<Rightarrow>
          let i = find_gsi g (take (nr r) (entries r)) in
          if i = nr r then Some (Returned s)
          else
            let e = entries r ! i;
                (c1, hi) = update_data (u1 e) (address_hi msg);
                (c2, lo) = update_data (u0 e) (address_lo msg);
                (c3, dat) = update_data (u2 e) (msg_data msg);
                e = e\<lparr> u1 := hi, u0 := lo, u2 := dat \<rparr>;
                s = s\<lparr> irq_routing := Some (r\<lparr> entries := (entries r)[i := e] \<rparr>) \<rparr> in
            if c1 \<or> c2 \<or> c3 then Some (Returned s)
            else
              case update_route ops h s e of
                None \<Rightarrow> None
              | Some (rc, s) \<Rightarrow> Some (if rc \<noteq> 0 then Died else Returned s))"

definition irq__common_add_irqfd ::
    "msi_routing_ops \<Rightarrow> kvm_host \<Rightarrow> u32 \<Rightarrow> int \<Rightarrow> int \<Rightarrow> int" where
  "irq__common_add_irqfd ops h g trigger_fd resample_fd =
     (let fl = (if 0 < resample_fd then KVM_IRQFD_FLAG_RESAMPLE else 0);
          g = (case translate_gsi ops of None \<Rightarrow> g | Some f \<Rightarrow> f h g)
      in irqfd_rc h g trigger_fd fl resample_fd)"

definition irq__common_del_irqfd :: "msi_routing_ops \<Rightarrow> kvm_host \<Rightarrow> u32 \<Rightarrow> int \<Rightarrow> int" where
  "irq__common_del_irqfd ops h g trigger_fd =
     (let g = (case translate_gsi ops of None \<Rightarrow> g | Some f \<Rightarrow> f h g)
      in irqfd_rc h g trigger_fd KVM_IRQFD_FLAG_DEASSIGN 0)"

subsection \<open>The x86 routing table\<close>

definition IRQCHIP_MASTER :: u32 where "IRQCHIP_MASTER = 0"
definition IRQCHIP_SLAVE :: u32 where "IRQCHIP_SLAVE = 1"
definition IRQCHIP_IOAPIC :: u32 where "IRQCHIP_IOAPIC = 2"

definition irqchip_entry :: "u32 \<Rightarrow> u32 \<Rightarrow> u32 \<Rightarrow> u32 \<Rightarrow> kvm_irq_routing_entry" where
  "irqchip_entry g ty chip pin =
     \<lparr> gsi = g, rtype = ty, rflags = 0, u0 = chip, u1 = pin, u2 = 0, u3 = 0 \<rparr>"

definition irq__add_routing ::
    "kvm_host \<Rightarrow> u32 \<Rightarrow> u32 \<Rightarrow> u32 \<Rightarrow> u32 \<Rightarrow> irq_state \<Rightarrow> (int \<times> irq_state) option" where
  "irq__add_routing h g ty chip pin s =
     (case irq__allocate_routing_entry h s of (r, s) \<Rightarrow>
      if r \<noteq> 0 then Some (r, s)
      else map_option (Pair 0) (put_entry (irqchip_entry g ty chip pin) s))"

text \<open>The three loops of \<^verbatim>\<open>irq__init\<close>: the calls of \<open>irq__add_routing\<close> in order, results ignored.\<close>

definition init_calls :: "(u32 \<times> u32 \<times> u32) list" where
  "init_calls =
     [(of_nat i, IRQCHIP_MASTER, of_nat i). i \<leftarrow> [0..<8], i \<noteq> 2]
     @ [(of_nat i, IRQCHIP_SLAVE, of_nat (i - 8)). i \<leftarrow> [8..<16]]
     @ [(of_nat i, IRQCHIP_IOAPIC, if i = 0 then 2 else of_nat i). i \<leftarrow> [0..<24], i \<noteq> 2]"

fun add_routings :: "kvm_host \<Rightarrow> (u32 \<times> u32 \<times> u32) list \<Rightarrow> irq_state \<Rightarrow> irq_state option" where
  "add_routings h [] s = Some s"
| "add_routings h ((g, chip, pin) # cs) s =
     (case irq__add_routing h g KVM_IRQ_ROUTING_IRQCHIP chip pin s of
        None \<Rightarrow> None
      | Some (_, s) \<Rightarrow> add_routings h cs s)"

definition irq__init :: "kvm_host \<Rightarrow> irq_state \<Rightarrow> (int \<times> irq_state) option" where
  "irq__init h s =
     (case add_routings h init_calls s of
        None \<Rightarrow> None
      | Some s \<Rightarrow>
         (case irq_routing s of
            None \<Rightarrow> None
          | Some r \<Rightarrow>
             (let table = take (nr r) (entries r); rc = set_gsi_routing h table in
              if rc \<noteq> 0 then Some (host_errno h, s\<lparr> irq_routing := None \<rparr>)
              else Some (0, s\<lparr> kernel_routes := table, next_gsi := 24 \<rparr>))))"

definition irq__exit :: "irq_state \<Rightarrow> int \<times> irq_state" where
  "irq__exit s = (0, s\<lparr> irq_routing := None \<rparr>)"


subsection \<open>The routing table as a list of routes\<close>

definition routes :: "irq_state \<Rightarrow> kvm_irq_routing_entry list" where
  "routes s = (case irq_routing s of None \<Rightarrow> [] | Some r \<Rightarrow> take (nr r) (entries r))"

definition irq_inv :: "irq_state \<Rightarrow> bool" where
  "irq_inv s \<longleftrightarrow>
     (case irq_routing s of
        None \<Rightarrow> allocated_gsis s = 0
      | Some r \<Rightarrow> nr r \<le> allocated_gsis s \<and> length (entries r) = allocated_gsis s)"

definition gsis_below :: "irq_state \<Rightarrow> bool" where
  "gsis_below s \<longleftrightarrow> 0 \<le> next_gsi s \<and> (\<forall>e \<in> set (routes s). uint (gsi e) < next_gsi s)"

lemma align_up_gt: "0 < a \<Longrightarrow> x < align_up (x + 1) a"
proof -
  assume "0 < a"
  then have "(x + a) mod a < a" by simp
  with div_mult_mod_eq [of "x + a" a] have "x < (x + a) div a * a" by linarith
  then show ?thesis by (simp add: align_up_def)
qed

lemma irq_inv_initial: "irq_inv irq_initial"
  by (simp add: irq_inv_def irq_initial_def)

lemma irq_inv_alloc_line: "irq_inv s \<Longrightarrow> irq_inv (snd (irq__alloc_line s))"
  by (simp add: irq_inv_def irq__alloc_line_def split: option.splits)

lemma check_for_irq_routing_eq:
  assumes "check_for_irq_routing h s = (b, s')"
  shows "irq_routing s' = irq_routing s \<and> allocated_gsis s' = allocated_gsis s \<and>
         next_gsi s' = next_gsi s \<and> kernel_routes s' = kernel_routes s"
  using assms by (auto simp: check_for_irq_routing_def Let_def split: if_splits)

lemma allocate_routing_entry_ok:
  assumes "irq_inv s" "realloc_ok h (align_up (length (routes s) + 1) 32)"
  shows "\<exists>s' r. irq__allocate_routing_entry h s = (0, s') \<and> irq_inv s' \<and> routes s' = routes s \<and>
           irq_routing s' = Some r \<and> nr r < length (entries r) \<and>
           next_gsi s' = next_gsi s \<and> kernel_routes s' = kernel_routes s"
proof (cases "irq_routing s")
  case None
  then show ?thesis
    using assms align_up_gt [of 32 0]
    by (auto simp: irq__allocate_routing_entry_def irq_inv_def routes_def Let_def)
next
  case (Some r)
  then have len: "length (routes s) = nr r"
    using assms(1) by (auto simp: irq_inv_def routes_def)
  show ?thesis
    using Some assms align_up_gt [of 32 "nr r"] unfolding len
    by (auto simp: irq__allocate_routing_entry_def irq_inv_def routes_def Let_def)
qed

lemma allocate_routing_entry_fail:
  assumes "\<not> length (routes s) < allocated_gsis s" "irq_inv s"
    and "\<not> realloc_ok h (align_up (length (routes s) + 1) 32)"
  shows "irq__allocate_routing_entry h s =
    (- ENOMEM, s\<lparr> allocated_gsis := align_up (length (routes s) + 1) 32, irq_routing := None \<rparr>)"
  using assms by (auto simp: irq__allocate_routing_entry_def irq_inv_def routes_def Let_def
      split: option.splits)

lemma put_entry_ok:
  assumes "irq_inv s" "irq_routing s = Some r" "nr r < length (entries r)"
  shows "\<exists>s'. put_entry e s = Some s' \<and> irq_inv s' \<and> routes s' = routes s @ [e] \<and>
           irq_routing s' \<noteq> None \<and> next_gsi s' = next_gsi s \<and> kernel_routes s' = kernel_routes s"
  using assms by (auto simp: put_entry_def irq_inv_def routes_def take_Suc_conv_app_nth)

lemma update_msix_routes_eq:
  assumes "irq_routing s \<noteq> None"
  shows "irq__update_msix_routes h s e =
    Some (set_gsi_routing h (routes s),
          if set_gsi_routing h (routes s) = 0 then s\<lparr> kernel_routes := routes s \<rparr> else s)"
  using assms by (auto simp: irq__update_msix_routes_def routes_def Let_def)

lemma find_gsi_le: "find_gsi g es \<le> length es"
  by (induction es) auto

lemma find_gsi_nth: "find_gsi g es < length es \<Longrightarrow> gsi (es ! find_gsi g es) = g"
  by (induction es) auto

lemma find_gsi_append:
  "find_gsi g (es @ [e]) =
     (if find_gsi g es < length es then find_gsi g es
      else if g = gsi e then length es else Suc (length es))"
  by (induction es) auto

lemma find_gsi_fresh: "\<forall>e \<in> set es. gsi e \<noteq> g \<Longrightarrow> find_gsi g es = length es"
  by (induction es) auto

lemma gsis_below_fresh:
  assumes "gsis_below s" "next_gsi s < 2 ^ 32"
  shows "find_gsi (word_of_int (next_gsi s)) (routes s) = length (routes s)"
proof (rule find_gsi_fresh, rule ballI)
  fix e assume "e \<in> set (routes s)"
  then have "uint (gsi e) < next_gsi s" using assms(1) by (simp add: gsis_below_def)
  moreover have "uint (word_of_int (next_gsi s) :: u32) = next_gsi s"
    using assms by (simp add: uint_word_of_int gsis_below_def)
  ultimately show "gsi e \<noteq> word_of_int (next_gsi s)" by auto
qed

definition msix_entry :: "kvm_host \<Rightarrow> irq_state \<Rightarrow> msi_msg \<Rightarrow> u32 \<Rightarrow> kvm_irq_routing_entry" where
  "msix_entry h s msg device_id =
     \<lparr> gsi = word_of_int (next_gsi s), rtype = KVM_IRQ_ROUTING_MSI,
       rflags = (if msix_needs_devid h then KVM_MSI_VALID_DEVID else 0),
       u0 = address_lo msg, u1 = address_hi msg, u2 = msg_data msg,
       u3 = (if msix_needs_devid h then device_id else 0) \<rparr>"

lemma add_msix_route_result:
  assumes "irq_inv s" "fst (check_for_irq_routing h s)"
    and "realloc_ok h (align_up (length (routes s) + 1) 32)"
  shows "\<exists>s'. irq_inv s' \<and> routes s' = routes s @ [msix_entry h s msg d] \<and>
     irq_routing s' \<noteq> None \<and> kernel_routes s' = kernel_routes s \<and> next_gsi s' = next_gsi s \<and>
     irq__add_msix_route irq__default_routing_ops h s msg d =
       Some (let rc = set_gsi_routing h (routes s') in
             if rc \<noteq> 0 then (rc, s')
             else (next_gsi s, s'\<lparr> kernel_routes := routes s', next_gsi := next_gsi s + 1 \<rparr>))"
proof -
  obtain s1 where s1: "check_for_irq_routing h s = (True, s1)"
    using assms(2) by (cases "check_for_irq_routing h s") auto
  note eq = check_for_irq_routing_eq [OF s1]
  have inv1: "irq_inv s1" "routes s1 = routes s"
    using eq assms(1) by (auto simp: irq_inv_def routes_def split: option.splits)
  obtain s2 r where s2: "irq__allocate_routing_entry h s1 = (0, s2)" "irq_inv s2"
    "routes s2 = routes s" "irq_routing s2 = Some r" "nr r < length (entries r)"
    "next_gsi s2 = next_gsi s" "kernel_routes s2 = kernel_routes s"
    using allocate_routing_entry_ok [OF inv1(1), of h] assms(3) inv1(2) eq by auto
  obtain s3 where s3: "put_entry (msix_entry h s msg d) s2 = Some s3" "irq_inv s3"
    "routes s3 = routes s @ [msix_entry h s msg d]" "irq_routing s3 \<noteq> None"
    "next_gsi s3 = next_gsi s" "kernel_routes s3 = kernel_routes s"
    using put_entry_ok [OF s2(2,4,5)] s2(3,6,7) by metis
  have e: "(let e = \<lparr> gsi = word_of_int (next_gsi s2), rtype = KVM_IRQ_ROUTING_MSI, rflags = 0,
      u0 = address_lo msg, u1 = address_hi msg, u2 = msg_data msg, u3 = 0 \<rparr>
     in if msix_needs_devid h then e\<lparr> rflags := KVM_MSI_VALID_DEVID, u3 := d \<rparr> else e)
    = msix_entry h s msg d"
    by (simp add: msix_entry_def s2(6))
  show ?thesis
    using s3 e update_msix_routes_eq [OF s3(4), of h "msix_entry h s msg d"]
    by (intro exI [of _ s3])
       (simp add: irq__add_msix_route_def s1 s2(1) Let_def irq__default_routing_ops_def)
qed


lemma add_routings_ok:
  assumes "irq_inv s" "\<And>n. n \<le> length (routes s) + length cs \<Longrightarrow> realloc_ok h (align_up n 32)"
  shows "\<exists>s'. add_routings h cs s = Some s' \<and> irq_inv s' \<and>
     routes s' = routes s @ map (\<lambda>(g, chip, pin). irqchip_entry g KVM_IRQ_ROUTING_IRQCHIP chip pin) cs \<and>
     (cs \<noteq> [] \<longrightarrow> irq_routing s' \<noteq> None)"
  using assms
proof (induction cs arbitrary: s)
  case Nil
  then show ?case by simp
next
  case (Cons c cs)
  obtain g chip pin where c: "c = (g, chip, pin)" by (cases c) auto
  let ?e = "irqchip_entry g KVM_IRQ_ROUTING_IRQCHIP chip pin"
  obtain s1 r where s1: "irq__allocate_routing_entry h s = (0, s1)" "irq_inv s1"
    "routes s1 = routes s" "irq_routing s1 = Some r" "nr r < length (entries r)"
    using allocate_routing_entry_ok [OF Cons.prems(1), of h] Cons.prems(2) by auto
  obtain s2 where s2: "put_entry ?e s1 = Some s2" "irq_inv s2" "routes s2 = routes s @ [?e]"
    "irq_routing s2 \<noteq> None"
    using put_entry_ok [OF s1(2,4,5), of ?e] s1(3) by metis
  have step: "irq__add_routing h g KVM_IRQ_ROUTING_IRQCHIP chip pin s = Some (0, s2)"
    by (simp add: irq__add_routing_def s1(1) s2(1))
  obtain s3 where "add_routings h cs s2 = Some s3" "irq_inv s3"
    "routes s3 = routes s2 @ map (\<lambda>(g, chip, pin). irqchip_entry g KVM_IRQ_ROUTING_IRQCHIP chip pin) cs"
    "cs \<noteq> [] \<longrightarrow> irq_routing s3 \<noteq> None"
    using Cons.IH [OF s2(2)] Cons.prems(2) s2(3) by auto
  then show ?case
    using step s2(3,4) by (cases cs) (auto simp: c)
qed

lemma length_init_calls: "length init_calls = 38"
  by (simp add: init_calls_def upt_rec)

text \<open>
  x86 start-up: with memory and an accepting kernel, \<open>irq__init\<close> installs exactly the 38 legacy
  routes, hands the same table to the kernel, and MSI routes start at GSI 24.
\<close>

lemma irq_init_correct:
  assumes "\<forall>n. realloc_ok h n" "\<forall>t. set_gsi_routing h t = 0"
  shows "\<exists>s. irq__init h irq_initial = Some (0, s) \<and> irq_inv s \<and> next_gsi s = 24 \<and>
     routes s = map (\<lambda>(g, chip, pin). irqchip_entry g KVM_IRQ_ROUTING_IRQCHIP chip pin) init_calls \<and>
     kernel_routes s = routes s \<and> gsis_below s"
proof -
  have "routes irq_initial = []" by (simp add: routes_def irq_initial_def)
  then obtain s where s: "add_routings h init_calls irq_initial = Some s" "irq_inv s"
    "routes s = map (\<lambda>(g, chip, pin). irqchip_entry g KVM_IRQ_ROUTING_IRQCHIP chip pin) init_calls"
    "irq_routing s \<noteq> None"
    using add_routings_ok [OF irq_inv_initial, of init_calls h] assms(1) length_init_calls
    by fastforce
  have below: "\<forall>(g, chip, pin) \<in> set init_calls. uint g < 24"
    by (simp add: init_calls_def upt_rec)
  show ?thesis
    using s assms(2) below
    by (auto simp: irq__init_def irq_inv_def routes_def gsis_below_def irqchip_entry_def Let_def
        split: option.splits)
qed

lemma irq_inv_cong:
  "irq_routing s' = irq_routing s \<Longrightarrow> allocated_gsis s' = allocated_gsis s \<Longrightarrow> irq_inv s' = irq_inv s"
  by (simp add: irq_inv_def split: option.splits)

lemma routes_cong: "irq_routing s' = irq_routing s \<Longrightarrow> routes s' = routes s"
  by (simp add: routes_def)

text \<open>
  A new MSI route: the table grows by exactly the requested entry, the kernel receives the whole
  table, the returned GSI is the old counter, and looking that GSI up finds the new entry.
\<close>

lemma add_msix_route_correct:
  assumes "irq_inv s" "gsis_below s" "next_gsi s < 2 ^ 32 - 1" "fst (check_for_irq_routing h s)"
    and "\<forall>n. realloc_ok h n" "\<forall>t. set_gsi_routing h t = 0"
  shows "\<exists>s'. irq__add_msix_route irq__default_routing_ops h s msg d = Some (next_gsi s, s') \<and>
     irq_inv s' \<and> gsis_below s' \<and> next_gsi s' = next_gsi s + 1 \<and>
     routes s' = routes s @ [msix_entry h s msg d] \<and> kernel_routes s' = routes s' \<and>
     find_gsi (word_of_int (next_gsi s)) (routes s') = length (routes s)"
proof -
  obtain s' where s': "irq_inv s'" "routes s' = routes s @ [msix_entry h s msg d]"
    "irq__add_msix_route irq__default_routing_ops h s msg d =
       Some (next_gsi s, s'\<lparr> kernel_routes := routes s', next_gsi := next_gsi s + 1 \<rparr>)"
    using add_msix_route_result [OF assms(1,4), of msg d] assms(5,6) by auto
  let ?s = "s'\<lparr> kernel_routes := routes s', next_gsi := next_gsi s + 1 \<rparr>"
  have r: "routes ?s = routes s @ [msix_entry h s msg d]" using s'(2) by (simp add: routes_def)
  have g: "uint (word_of_int (next_gsi s) :: u32) = next_gsi s"
    using assms(2,3) by (simp add: uint_word_of_int gsis_below_def)
  have "gsis_below ?s"
    using assms(2) g unfolding gsis_below_def r by (auto simp: msix_entry_def)
  moreover have "find_gsi (word_of_int (next_gsi s)) (routes ?s) = length (routes s)"
    using gsis_below_fresh [OF assms(2)] assms(3) unfolding r find_gsi_append
    by (simp add: msix_entry_def)
  moreover have "irq_inv ?s" using s'(1) irq_inv_cong [of ?s s'] by simp
  ultimately show ?thesis using s' r by auto
qed

text \<open>
  Updating a route whose message changes rewrites the table in memory and returns before the
  kernel is told: the kernel keeps the old table.
\<close>

lemma update_msix_route_changed:
  assumes "irq_inv s" "i = find_gsi g (routes s)" "i < length (routes s)"
    and "u0 (routes s ! i) \<noteq> address_lo msg \<or> u1 (routes s ! i) \<noteq> address_hi msg \<or>
         u2 (routes s ! i) \<noteq> msg_data msg"
  shows "\<exists>s'. irq__update_msix_route ops h s g msg = Some (Returned s') \<and> irq_inv s' \<and>
     routes s' = (routes s)[i := (routes s ! i)\<lparr> u1 := address_hi msg, u0 := address_lo msg,
                                               u2 := msg_data msg \<rparr>] \<and>
     kernel_routes s' = kernel_routes s"
proof -
  obtain r where r: "irq_routing s = Some r"
    using assms(3) by (auto simp: routes_def split: option.splits)
  have rr: "routes s = take (nr r) (entries r)" by (simp add: routes_def r)
  have i: "i < nr r" "i < length (entries r)" "nr r \<le> length (entries r)"
    using assms(1,3) unfolding rr by (auto simp: irq_inv_def r)
  let ?e = "(entries r ! i)\<lparr> u1 := address_hi msg, u0 := address_lo msg, u2 := msg_data msg \<rparr>"
  let ?s = "s\<lparr> irq_routing := Some (r\<lparr> entries := (entries r)[i := ?e] \<rparr>) \<rparr>"
  have "irq__update_msix_route ops h s g msg = Some (Returned ?s)"
    using assms(2,4) i unfolding rr
    by (auto simp: irq__update_msix_route_def r Let_def update_data_def)
  moreover have "irq_inv ?s" using assms(1) r by (simp add: irq_inv_def)
  moreover have "routes ?s = (routes s)[i := ?e]"
    using i by (simp add: routes_def r take_update_swap)
  ultimately show ?thesis using i rr by auto
qed

subsection \<open>Claims\<close>

definition good_host :: kvm_host where
  "good_host = \<lparr> supports_extension = (\<lambda>_. True), set_gsi_routing = (\<lambda>_. 0), signal_msi_rc = (\<lambda>_. 0),
     irqfd_rc = (\<lambda>_ _ _ _. 0), realloc_ok = (\<lambda>_. True), host_errno = 0, msix_needs_devid = False \<rparr>"






definition stale_example :: irq_state where
  "stale_example = \<lparr> next_line = 5, allocated_gsis = 1, next_gsi = 1,
     irq_routing = Some \<lparr> nr = 1, flags = 0, entries = [zero_entry] \<rparr>, has_irq_routing = 1, kernel_routes = [zero_entry] \<rparr>"


end
