(* ===== verification/Device_Bus.thy ===== *)
theory Device_Bus
  imports Index Irq
begin

section \<open>The device registry (src/devices.c, include/kvm/devices.h)\<close>

text \<open>
  Three buses, each a red-black tree of device headers keyed by device number. A
  \<^verbatim>\<open>struct device_header\<close> is embedded in the structure of its device: \<open>owner\<close> is the address of that
  structure (what \<^verbatim>\<open>container_of\<close> computes), \<open>data\<close> the pointer field of the header. The structures that
  registration writes through these pointers, PCI headers and the \<^verbatim>\<open>irq\<close> field of a
  \<^verbatim>\<open>struct virtio_mmio\<close>, live in the stores \<open>pci_hdrs\<close> and \<open>vmmio_irq\<close>. Device numbers are \<open>int\<close>s
  that never get near their 32-bit bound.
\<close>

type_synonym ptr = nat

datatype device_bus_type = DEVICE_BUS_PCI | DEVICE_BUS_MMIO | DEVICE_BUS_IOPORT | DEVICE_BUS_MAX

fun bus_ord :: "device_bus_type \<Rightarrow> nat" where
  "bus_ord DEVICE_BUS_PCI = 0"
| "bus_ord DEVICE_BUS_MMIO = 1"
| "bus_ord DEVICE_BUS_IOPORT = 2"
| "bus_ord DEVICE_BUS_MAX = 3"

lemma bus_ord_inj: "bus_ord a = bus_ord b \<longleftrightarrow> a = b"
  by (cases a; cases b) auto

instantiation device_bus_type :: linorder
begin

definition less_eq_device_bus_type :: "device_bus_type \<Rightarrow> device_bus_type \<Rightarrow> bool" where
  "a \<le> b \<longleftrightarrow> bus_ord a \<le> bus_ord b"

definition less_device_bus_type :: "device_bus_type \<Rightarrow> device_bus_type \<Rightarrow> bool" where
  "a < b \<longleftrightarrow> bus_ord a < bus_ord b"

instance
  by standard (auto simp: less_eq_device_bus_type_def less_device_bus_type_def bus_ord_inj)

end

lemma bus_ge_max [simp]: "DEVICE_BUS_MAX \<le> b \<longleftrightarrow> b = DEVICE_BUS_MAX"
  by (cases b) (auto simp: less_eq_device_bus_type_def)

record device_header =
  bus_type :: device_bus_type
  data :: ptr
  dev_num :: int
  owner :: ptr

record device_bus =
  root :: "device_header rbt"
  bus_dev_num :: int

text \<open>
  A PCI header in memory: byte \<open>i\<close> of \<open>pci_mem\<close> is byte \<open>i\<close> of the structure, the 256 bytes of
  configuration space followed by \<open>bar_size[6]\<close>.
\<close>

record pci_device_header =
  pci_mem :: buf
  irq_type :: u32

record dev_state =
  irqs :: irq_state
  device_trees :: "device_bus_type \<Rightarrow> device_bus"
  pci_hdrs :: "ptr \<Rightarrow> pci_device_header"
  vmmio_irq :: "ptr \<Rightarrow> u8"

definition IRQ_TYPE_EDGE_RISING :: u32 where "IRQ_TYPE_EDGE_RISING = 1"
definition PCI_IRQ_LINE :: nat where "PCI_IRQ_LINE = 60"
definition PCI_IRQ_PIN :: nat where "PCI_IRQ_PIN = 61"

definition pci__assign_irq :: "dev_state \<Rightarrow> device_header \<Rightarrow> dev_state" where
  "pci__assign_irq s dev_hdr =
     (let hdr = pci_hdrs s (data dev_hdr);
          (line, i) = irq__alloc_line (irqs s);
          hdr = hdr\<lparr> pci_mem := (pci_mem hdr)(PCI_IRQ_PIN := 1, PCI_IRQ_LINE := line) \<rparr>;
          hdr = (if irq_type hdr = 0 then hdr\<lparr> irq_type := IRQ_TYPE_EDGE_RISING \<rparr> else hdr)
      in s\<lparr> irqs := i, pci_hdrs := (pci_hdrs s)(data dev_hdr := hdr) \<rparr>)"

definition virtio_mmio_assign_irq :: "dev_state \<Rightarrow> device_header \<Rightarrow> dev_state" where
  "virtio_mmio_assign_irq s dev_hdr =
     (let (line, i) = irq__alloc_line (irqs s)
      in s\<lparr> irqs := i, vmmio_irq := (vmmio_irq s)(owner dev_hdr := line) \<rparr>)"

definition assign_irq :: "dev_state \<Rightarrow> device_header \<Rightarrow> dev_state" where
  "assign_irq s dev =
     (case bus_type dev of
        DEVICE_BUS_PCI \<Rightarrow> pci__assign_irq s dev
      | DEVICE_BUS_MMIO \<Rightarrow> virtio_mmio_assign_irq s dev
      | _ \<Rightarrow> s)"

definition dev_dir :: "int \<Rightarrow> device_header \<Rightarrow> dir" where
  "dev_dir num cur =
     (if num - dev_num cur < 0 then Go_left else if num - dev_num cur > 0 then Go_right else Here)"

definition device__register ::
    "dev_state \<Rightarrow> device_header \<Rightarrow> (int \<times> device_header \<times> dev_state) option" where
  "device__register s dev =
     (if bus_type dev \<ge> DEVICE_BUS_MAX then Some (- EINVAL, dev, s)
      else
        let bus = device_trees s (bus_type dev);
            dev = dev\<lparr> dev_num := bus_dev_num bus \<rparr>;
            bus = bus\<lparr> bus_dev_num := bus_dev_num bus + 1 \<rparr>;
            s = s\<lparr> device_trees := (device_trees s)(bus_type dev := bus) \<rparr>;
            s = assign_irq s dev in
        case rb_descend (dev_dir (dev_num dev)) (root bus) [] of
          (Node _ _ _ _, _) \<Rightarrow> Some (- EEXIST, dev, s)
        | (Leaf, link) \<Rightarrow>
            map_option (\<lambda>t. (0, dev, s\<lparr> device_trees :=
                (device_trees s)(bus_type dev := bus\<lparr> root := t \<rparr>) \<rparr>))
              (rb_insert_color dev link))"

text \<open>
  A node pointer is a location; the location of a registered header is the one its number leads to.
\<close>

definition device__unregister :: "dev_state \<Rightarrow> device_header \<Rightarrow> dev_state option" where
  "device__unregister s dev =
     (let bus = device_trees s (bus_type dev) in
      case rb_find_by (dev_dir (dev_num dev)) (root bus) of
        None \<Rightarrow> None
      | Some loc \<Rightarrow>
          map_option (\<lambda>t. s\<lparr> device_trees := (device_trees s)(bus_type dev := bus\<lparr> root := t \<rparr>) \<rparr>)
            (rb_erase loc))"

definition device__find_loc :: "dev_state \<Rightarrow> device_bus_type \<Rightarrow> int \<Rightarrow> device_header loc option" where
  "device__find_loc s b num = rb_find_by (dev_dir num) (root (device_trees s b))"

datatype find_result = Err int | Found device_header | Not_found

definition device__find_dev :: "dev_state \<Rightarrow> device_bus_type \<Rightarrow> u8 \<Rightarrow> find_result" where
  "device__find_dev s b num =
     (if b \<ge> DEVICE_BUS_MAX then Err (- EINVAL)
      else case Option.bind (device__find_loc s b (uint num)) rb_elem of
             Some dev \<Rightarrow> Found dev
           | None \<Rightarrow> Not_found)"

definition device__first_dev :: "dev_state \<Rightarrow> device_bus_type \<Rightarrow> device_header loc option" where
  "device__first_dev s b =
     (if b \<ge> DEVICE_BUS_MAX then None else rb_first (root (device_trees s b)) [])"

definition device__next_dev :: "device_header loc \<Rightarrow> device_header loc option" where
  "device__next_dev node = rb_next node"

text \<open>The tree of one bus as an index by device number.\<close>

definition bus_lookup :: "device_header rbt \<Rightarrow> int \<Rightarrow> device_header option" where
  "bus_lookup t num = Option.bind (rb_find_by (dev_dir num) t) rb_elem"

definition bus_insert :: "device_header rbt \<Rightarrow> device_header \<Rightarrow> device_header rbt option" where
  "bus_insert t dev = rb_insert_by (dev_dir (dev_num dev)) dev t"

definition bus_delete :: "device_header rbt \<Rightarrow> int \<Rightarrow> device_header rbt option" where
  "bus_delete t num =
     (case rb_find_by (dev_dir num) t of None \<Rightarrow> Some t | Some loc \<Rightarrow> rb_erase loc)"

lemma dev_dir_Here [simp]: "dev_dir num d = Here \<longleftrightarrow> dev_num d = num"
  by (auto simp: dev_dir_def)

interpretation dbus: tree_index "\<lambda>a b. dev_num a < dev_num b" "\<lambda>_. True" dev_dir
    "\<lambda>d. dev_dir (dev_num d)" bus_lookup bus_insert bus_delete
  by unfold_locales
     (auto simp: dev_dir_def bus_lookup_def bus_insert_def bus_delete_def split: if_splits option.splits)

definition bus_inv :: "device_bus \<Rightarrow> bool" where
  "bus_inv b \<longleftrightarrow> dbus.tree_inv (root b) \<and>
     (\<forall>d \<in> set (inorder (root b)). 0 \<le> dev_num d \<and> dev_num d < bus_dev_num b) \<and> 0 \<le> bus_dev_num b"

definition dev_inv :: "dev_state \<Rightarrow> bool" where
  "dev_inv s \<longleftrightarrow> (\<forall>b. bus_inv (device_trees s b))"

definition bus_devs :: "dev_state \<Rightarrow> device_bus_type \<Rightarrow> device_header list" where
  "bus_devs s b = inorder (root (device_trees s b))"

definition empty_bus :: device_bus where
  "empty_bus = \<lparr> root = Leaf, bus_dev_num = 0 \<rparr>"

lemma bus_inv_empty: "bus_inv empty_bus"
  by (simp add: bus_inv_def empty_bus_def dbus.tree_inv_def rb_inv_def)

lemma assign_irq_trees [simp]: "device_trees (assign_irq s d) = device_trees s"
  by (simp add: assign_irq_def pci__assign_irq_def virtio_mmio_assign_irq_def Let_def
      split: device_bus_type.splits prod.splits)

lemma bus_register:
  assumes "bus_inv b" and d'_def: "d' = d\<lparr> dev_num := bus_dev_num b \<rparr>"
  shows "\<exists>t fs. rb_descend (dev_dir (bus_dev_num b)) (root b) [] = (Leaf, fs) \<and>
     rb_insert_color d' fs = Some t \<and>
     bus_inv (b\<lparr> bus_dev_num := bus_dev_num b + 1, root := t \<rparr>) \<and>
     inorder t = inorder (root b) @ [d']"
proof -
  let ?d = "dev_dir (bus_dev_num b)"
  have right: "\<And>a. a \<in> set (inorder (root b)) \<Longrightarrow> ?d a = Go_right"
    using assms(1) by (auto simp: bus_inv_def dev_dir_def)
  have inv: "rb_inv (root b)" "sorted_wrt (\<lambda>a b. dev_num a < dev_num b) (inorder (root b))"
    using assms(1) by (auto simp: bus_inv_def dbus.tree_inv_def)
  obtain n fs where desc: "rb_descend ?d (root b) [] = (n, fs)" by fastforce
  have n: "n = Leaf"
    using desc rb_descend_Node_mem [of ?d "root b"] right by (cases n) fastforce+
  have pl: "plug Leaf fs = root b" using rb_descend_plug [OF desc] n by simp
  have io: "inorder (root b) = path_left fs @ path_right fs"
    using inorder_plug [of Leaf fs] pl by simp
  have "guides ?d (inorder (root b))"
    using singles_out_guides [OF dbus.singles_out_key] assms(1) by (simp add: bus_inv_def)
  then have "\<forall>a \<in> set (path_right fs). ?d a = Go_left"
    using rb_descend_Leaf [of ?d "root b" "[]" fs] desc n by auto
  then have pr: "path_right fs = []"
    using right unfolding io by (cases "path_right fs") auto
  obtain t where t: "rb_insert_color d' fs = Some t" "rb_inv t"
    "inorder t = path_left fs @ d' # path_right fs"
    using rb_insert_color_correct [of fs d'] inv(1) pl by auto
  have it: "inorder t = inorder (root b) @ [d']" using t(3) io pr by simp
  have "bus_inv (b\<lparr> bus_dev_num := bus_dev_num b + 1, root := t \<rparr>)"
    using assms(1) t(2) it inv(2) by (auto simp: bus_inv_def dbus.tree_inv_def sorted_wrt_append d'_def)
  with t(1) it desc n show ?thesis by auto
qed


lemma device_register_result:
  assumes "dev_inv s" "bus_type dev \<noteq> DEVICE_BUS_MAX"
  defines "dev' \<equiv> dev\<lparr> dev_num := bus_dev_num (device_trees s (bus_type dev)) \<rparr>"
  shows "\<exists>s'. device__register s dev = Some (0, dev', s') \<and> dev_inv s' \<and>
     bus_devs s' (bus_type dev) = bus_devs s (bus_type dev) @ [dev'] \<and>
     (\<forall>b. b \<noteq> bus_type dev \<longrightarrow> device_trees s' b = device_trees s b) \<and>
     irqs s' = irqs (assign_irq s dev') \<and> pci_hdrs s' = pci_hdrs (assign_irq s dev') \<and>
     vmmio_irq s' = vmmio_irq (assign_irq s dev')"
proof -
  let ?b = "device_trees s (bus_type dev)"
  have "bus_inv ?b" using assms(1) by (simp add: dev_inv_def)
  from bus_register [OF this refl, of dev]
  obtain t fs where t: "rb_descend (dev_dir (bus_dev_num ?b)) (root ?b) [] = (Leaf, fs)"
    "rb_insert_color dev' fs = Some t" "bus_inv (?b\<lparr> bus_dev_num := bus_dev_num ?b + 1, root := t \<rparr>)"
    "inorder t = inorder (root ?b) @ [dev']"
    by (auto simp: dev'_def)
  let ?s = "s\<lparr> device_trees := (device_trees s)(bus_type dev := ?b\<lparr> bus_dev_num := bus_dev_num ?b + 1 \<rparr>) \<rparr>"
  have irq: "irqs (assign_irq ?s dev') = irqs (assign_irq s dev')"
    "pci_hdrs (assign_irq ?s dev') = pci_hdrs (assign_irq s dev')"
    "vmmio_irq (assign_irq ?s dev') = vmmio_irq (assign_irq s dev')"
    by (auto simp: assign_irq_def pci__assign_irq_def virtio_mmio_assign_irq_def Let_def
        split: device_bus_type.splits prod.splits)
  show ?thesis
    using t assms(1,2) irq
    by (auto simp: device__register_def Let_def dev'_def dev_inv_def bus_devs_def)
qed

lemma bus_devs_sorted:
  "dev_inv s \<Longrightarrow> sorted_wrt (\<lambda>a b. dev_num a < dev_num b) (bus_devs s b)"
  by (auto simp: dev_inv_def bus_inv_def bus_devs_def dbus.tree_inv_def)

lemma device_find_iff:
  assumes "dev_inv s" "b \<noteq> DEVICE_BUS_MAX"
  shows "device__find_dev s b num = Found d \<longleftrightarrow> d \<in> set (bus_devs s b) \<and> dev_num d = uint num"
proof -
  have "dbus.tree_inv (root (device_trees s b))" using assms(1) by (simp add: dev_inv_def bus_inv_def)
  from dbus.lookup_tree [OF this, of "uint num" d] assms(2) show ?thesis
    by (auto simp: device__find_dev_def device__find_loc_def bus_lookup_def bus_devs_def
        split: option.splits)
qed

lemma device_find_result:
  "b \<noteq> DEVICE_BUS_MAX \<Longrightarrow> device__find_dev s b num = Not_found \<or> (\<exists>d. device__find_dev s b num = Found d)"
  by (auto simp: device__find_dev_def split: option.splits)

lemma device_unregister_result:
  assumes "dev_inv s" "d \<in> set (bus_devs s (bus_type d))"
  shows "\<exists>s'. device__unregister s d = Some s' \<and> dev_inv s' \<and>
     set (bus_devs s' (bus_type d)) = set (bus_devs s (bus_type d)) - {d} \<and>
     (\<forall>b. b \<noteq> bus_type d \<longrightarrow> device_trees s' b = device_trees s b)"
proof -
  let ?b = "device_trees s (bus_type d)"
  have b: "bus_inv ?b" and ti: "dbus.tree_inv (root ?b)"
    using assms(1) by (auto simp: dev_inv_def bus_inv_def)
  obtain t where t: "bus_delete (root ?b) (dev_num d) = Some t" "dbus.tree_inv t"
    "set (inorder t) = {x \<in> set (inorder (root ?b)). dev_dir (dev_num d) x \<noteq> Here}"
    using dbus.delete_elems [OF ti, of "dev_num d"] by auto
  have ne: "rb_find_by (dev_dir (dev_num d)) (root ?b) \<noteq> None"
    using assms(2) rb_find_by_None [OF dbus.guides_key [OF ti]] by (auto simp: bus_devs_def)
  have uniq: "x \<in> set (inorder (root ?b)) \<Longrightarrow> dev_num x = dev_num d \<Longrightarrow> x = d" for x
    using dbus.disjoint [OF ti, of x d "dev_num d"] assms(2) by (simp add: bus_devs_def)
  have "set (inorder t) = set (inorder (root ?b)) - {d}"
    unfolding t(3) using uniq by auto
  moreover have "bus_inv (?b\<lparr> root := t \<rparr>)" using b t(2,3) by (auto simp: bus_inv_def)
  ultimately show ?thesis
    using t(1) ne assms(1)
    by (auto simp: device__unregister_def Let_def bus_delete_def dev_inv_def bus_devs_def split: option.splits)
qed

text \<open>
  The loop \<^verbatim>\<open>for (dev = device__first_dev(bus); dev; dev = device__next_dev(dev))\<close> of the device-tree and
  table generators, with the number of rounds bounded by \<open>n\<close>.
\<close>

fun device_walk :: "nat \<Rightarrow> device_header loc option \<Rightarrow> device_header list" where
  "device_walk 0 _ = []"
| "device_walk (Suc n) None = []"
| "device_walk (Suc n) (Some loc) =
     (case rb_elem loc of None \<Rightarrow> [] | Some d \<Rightarrow> d # device_walk n (device__next_dev loc))"

lemma device_walk_list:
  "length (loc_list lo) \<le> n \<Longrightarrow> (\<And>t fs. lo = Some (t, fs) \<Longrightarrow> t \<noteq> Leaf) \<Longrightarrow> device_walk n lo = loc_list lo"
proof (induction n arbitrary: lo)
  case 0
  then show ?case by simp
next
  case (Suc n)
  show ?case
  proof (cases lo)
    case None
    then show ?thesis by simp
  next
    case (Some loc)
    then obtain c l x r fs where loc: "lo = Some (Node c l x r, fs)"
      using Suc.prems(2) by (cases loc; cases "fst loc") auto
    have "device_walk n (rb_next (Node c l x r, fs)) = loc_list (rb_next (Node c l x r, fs))"
    proof (rule Suc.IH)
      show "length (loc_list (rb_next (Node c l x r, fs))) \<le> n"
        using Suc.prems(1) by (simp add: loc rb_next_list del: rb_next.simps)
    next
      fix t fs' assume "rb_next (Node c l x r, fs) = Some (t, fs')"
      from rb_next_plug [OF this] show "t \<noteq> Leaf" by simp
    qed
    then show ?thesis
      by (simp add: loc device__next_dev_def rb_next_list del: rb_next.simps)
  qed
qed

lemma device_walk_all:
  assumes "b \<noteq> DEVICE_BUS_MAX"
  shows "device_walk (length (bus_devs s b)) (device__first_dev s b) = bus_devs s b"
proof -
  let ?t = "root (device_trees s b)"
  have "loc_list (rb_first ?t []) = inorder ?t" by (simp add: rb_first_list)
  then have "device_walk (length (inorder ?t)) (rb_first ?t []) = inorder ?t"
    using device_walk_list [of "rb_first ?t []" "length (inorder ?t)"] rb_first_plug [of ?t "[]"] by auto
  then show ?thesis using assms by (simp add: device__first_dev_def bus_devs_def)
qed

subsection \<open>Claims\<close>

text \<open>The state of the file-scope variables before any device is registered.\<close>

definition initial_devices :: dev_state where
  "initial_devices = \<lparr> irqs = irq_initial, device_trees = (\<lambda>_. empty_bus),
     pci_hdrs = (\<lambda>_. \<lparr> pci_mem = (\<lambda>_. 0), irq_type = 0 \<rparr>), vmmio_irq = (\<lambda>_. 0) \<rparr>"

lemma dev_inv_initial: "dev_inv initial_devices"
  by (simp add: dev_inv_def initial_devices_def bus_inv_empty)

lemma bus_devs_initial [simp]: "bus_devs initial_devices b = []"
  by (simp add: bus_devs_def initial_devices_def empty_bus_def)

text \<open>
  C26: registering a device gives it the next number of its bus, keeps the index well formed, leaves
  the other buses alone, and walking the bus with first/next afterwards visits the old devices in
  their order and then the new one.
\<close>

theorem device_register_enumerates:
  assumes "dev_inv s" "bus_type dev \<noteq> DEVICE_BUS_MAX"
    and "dev' = dev\<lparr> dev_num := bus_dev_num (device_trees s (bus_type dev)) \<rparr>"
    and "b = bus_type dev"
  shows "\<exists>s'. device__register s dev = Some (0, dev', s') \<and> dev_inv s' \<and>
     device_walk (length (bus_devs s b) + 1) (device__first_dev s' b) = bus_devs s b @ [dev'] \<and>
     (\<forall>b'. b' \<noteq> b \<longrightarrow> device_trees s' b' = device_trees s b')"
proof -
  obtain s' where s': "device__register s dev = Some (0, dev', s')" "dev_inv s'"
    "bus_devs s' b = bus_devs s b @ [dev']" "\<forall>b'. b' \<noteq> b \<longrightarrow> device_trees s' b' = device_trees s b'"
    using device_register_result [OF assms(1,2)] assms(3,4) by auto
  have "device_walk (length (bus_devs s' b)) (device__first_dev s' b) = bus_devs s' b"
    using device_walk_all assms(2,4) by simp
  then show ?thesis using s' by (auto simp: s'(3))
qed

theorem device_register_enumerates_witness:
  "\<exists>s'. device__register initial_devices \<lparr> bus_type = DEVICE_BUS_PCI, data = 7, dev_num = 9, owner = 3 \<rparr> =
      Some (0, \<lparr> bus_type = DEVICE_BUS_PCI, data = 7, dev_num = 0, owner = 3 \<rparr>, s') \<and>
    device_walk 1 (device__first_dev s' DEVICE_BUS_PCI) =
      [\<lparr> bus_type = DEVICE_BUS_PCI, data = 7, dev_num = 0, owner = 3 \<rparr>]"
  using device_register_enumerates [OF dev_inv_initial, of "\<lparr> bus_type = DEVICE_BUS_PCI, data = 7, dev_num = 9, owner = 3 \<rparr>"
      "\<lparr> bus_type = DEVICE_BUS_PCI, data = 7, dev_num = 0, owner = 3 \<rparr>" DEVICE_BUS_PCI]
  by (auto simp: initial_devices_def [THEN arg_cong, of "\<lambda>s. bus_dev_num (device_trees s b)" for b] empty_bus_def)

end
