(* ===== verification/Io_Bus.thy ===== *)
theory Io_Bus
  imports Interval_Tree Device_Bus
begin

section \<open>Port and memory-mapped I/O dispatch (hw/ioport.c, hw/mmio.c)\<close>

text \<open>
  The machine state \<open>'s\<close> that device handlers work on is a parameter of the types; a handler is a
  function from that state and the guest's data buffer to the next state and buffer. The data
  pointer of C is a buffer and an offset. \<open>None\<close> stands for a NULL pointer that the code would
  follow; \<^verbatim>\<open>malloc\<close> is an argument: the address it returns, or \<open>None\<close>.
\<close>

type_synonym 's io_fn = "ptr \<Rightarrow> 's \<Rightarrow> u16 \<Rightarrow> buf \<Rightarrow> nat \<Rightarrow> nat \<Rightarrow> bool \<times> 's \<times> buf"

record 's ioport_operations =
  io_in :: "'s io_fn option"
  io_out :: "'s io_fn option"

record 's ioport =
  ops :: "'s ioport_operations"
  priv :: ptr
  dev_hdr :: device_header

record 's ioport_state =
  free_io_port_idx :: u16
  ioport_tree :: "'s ioport rb_int_node rbt"
  devices :: dev_state
  br_locked :: bool

definition IOPORT_START :: u16 where "IOPORT_START = 0x6200"
definition IOPORT_SIZE :: u16 where "IOPORT_SIZE = 0x400"
definition IOPORT_EMPTY :: u16 where "IOPORT_EMPTY = 0xFFFF"
definition KVM_EXIT_IO_IN :: nat where "KVM_EXIT_IO_IN = 0"
definition KVM_EXIT_IO_OUT :: nat where "KVM_EXIT_IO_OUT = 1"
definition FDT_GENERATOR :: ptr where "FDT_GENERATOR = 1"

definition ioport__find_free_port :: "'s ioport_state \<Rightarrow> u16 \<times> 's ioport_state" where
  "ioport__find_free_port s =
     (IOPORT_START + free_io_port_idx s * IOPORT_SIZE, s\<lparr> free_io_port_idx := free_io_port_idx s + 1 \<rparr>)"

definition ioport_search :: "'s ioport rb_int_node rbt \<Rightarrow> u64 \<Rightarrow> 's ioport rb_int_node loc option" where
  "ioport_search t addr = rb_int_search_single t addr"

definition ioport_insert ::
    "'s ioport rb_int_node rbt \<Rightarrow> 's ioport rb_int_node \<Rightarrow> (int \<times> 's ioport rb_int_node rbt) option" where
  "ioport_insert t d = rb_int_insert t d"

definition ioport_remove :: "'s ioport rb_int_node loc \<Rightarrow> 's ioport rb_int_node rbt option" where
  "ioport_remove d = rb_int_erase d"

definition ioport_entry ::
    "u16 \<Rightarrow> 's ioport_operations \<Rightarrow> int \<Rightarrow> ptr \<Rightarrow> ptr \<Rightarrow> 's ioport rb_int_node" where
  "ioport_entry port o' count param addr =
     \<lparr> low = ucast port, high = word_of_int (uint port + count),
       entry = \<lparr> ops = o', priv = param,
                 dev_hdr = \<lparr> bus_type = DEVICE_BUS_IOPORT, data = FDT_GENERATOR, dev_num = 0,
                             owner = addr \<rparr> \<rparr> \<rparr>"

text \<open>The search for a previous registration, and its removal from the tree.\<close>

definition ioport_displace :: "u16 \<Rightarrow> 's ioport rb_int_node rbt \<Rightarrow> 's ioport rb_int_node rbt option" where
  "ioport_displace port t =
     (case ioport_search t (ucast port) of
        None \<Rightarrow> Some t
      | Some old \<Rightarrow> rb_int_erase old)"

definition ioport__register ::
    "ptr option \<Rightarrow> 's ioport_state \<Rightarrow> u16 \<Rightarrow> 's ioport_operations \<Rightarrow> int \<Rightarrow> ptr
       \<Rightarrow> (int \<times> 's ioport_state) option" where
  "ioport__register malloc s port o' count param =
     (let s = s\<lparr> br_locked := True \<rparr>;
          (port, s) = (if port = IOPORT_EMPTY then ioport__find_free_port s else (port, s)) in
      case ioport_displace port (ioport_tree s) of
        None \<Rightarrow> None
      | Some t \<Rightarrow>
          let s = s\<lparr> ioport_tree := t \<rparr> in
          case malloc of
            None \<Rightarrow> Some (- ENOMEM, s)
          | Some addr \<Rightarrow>
              let e = ioport_entry port o' count param addr in
              case ioport_insert t e of
                None \<Rightarrow> None
              | Some (r, t) \<Rightarrow>
                  let s = s\<lparr> ioport_tree := t \<rparr> in
                  if r < 0 then Some (r, s\<lparr> br_locked := False \<rparr>)
                  else
                    case device__register (devices s) (dev_hdr (entry e)) of
                      None \<Rightarrow> None
                    | Some (_, _, d) \<Rightarrow>
                        Some (uint port, s\<lparr> devices := d, br_locked := False \<rparr>))"

definition ioport__unregister :: "'s ioport_state \<Rightarrow> u16 \<Rightarrow> (int \<times> 's ioport_state) option" where
  "ioport__unregister s port =
     (let s = s\<lparr> br_locked := True \<rparr> in
      case ioport_search (ioport_tree s) (ucast port) of
        None \<Rightarrow> Some (- ENOENT, s\<lparr> br_locked := False \<rparr>)
      | Some e \<Rightarrow>
          map_option (\<lambda>t. (0, s\<lparr> ioport_tree := t, br_locked := False \<rparr>)) (ioport_remove e))"

text \<open>The loop of \<^verbatim>\<open>ioport__unregister_all\<close>, with at most \<open>n\<close> rounds.\<close>

fun ioport__unregister_all :: "nat \<Rightarrow> 's ioport rb_int_node rbt \<Rightarrow> 's ioport rb_int_node rbt option" where
  "ioport__unregister_all n t =
     (case rb_first t [] of
        None \<Rightarrow> Some t
      | Some rb \<Rightarrow>
         (case n of
            0 \<Rightarrow> None
          | Suc m \<Rightarrow> Option.bind (ioport_remove rb) (ioport__unregister_all m)))"

declare ioport__unregister_all.simps [simp del]

fun emulate_io_loop ::
    "'s ioport \<Rightarrow> u16 \<Rightarrow> nat \<Rightarrow> nat \<Rightarrow> nat \<Rightarrow> bool \<Rightarrow> 's \<Rightarrow> buf \<Rightarrow> nat \<Rightarrow> bool \<times> 's \<times> buf" where
  "emulate_io_loop e port direction sz 0 ret st b p = (ret, st, b)"
| "emulate_io_loop e port direction sz (Suc count) ret st b p =
     (if direction = KVM_EXIT_IO_IN \<and> io_in (ops e) \<noteq> None then
        (case the (io_in (ops e)) (priv e) st port b p sz of (ret, st, b) \<Rightarrow>
           emulate_io_loop e port direction sz count ret st b (p + sz))
      else if direction = KVM_EXIT_IO_OUT \<and> io_out (ops e) \<noteq> None then
        (case the (io_out (ops e)) (priv e) st port b p sz of (ret, st, b) \<Rightarrow>
           emulate_io_loop e port direction sz count ret st b (p + sz))
      else emulate_io_loop e port direction sz count ret st b (p + sz))"

definition kvm__emulate_io ::
    "bool \<Rightarrow> 's ioport rb_int_node rbt \<Rightarrow> 's \<Rightarrow> u16 \<Rightarrow> buf \<Rightarrow> nat \<Rightarrow> nat \<Rightarrow> u32 \<Rightarrow> bool \<times> 's \<times> buf" where
  "kvm__emulate_io ioport_debug t st port b direction sz count =
     (case Option.bind (ioport_search t (ucast port)) rb_elem of
        None \<Rightarrow> (\<not> ioport_debug, st, b)
      | Some e \<Rightarrow>
         (case emulate_io_loop (entry e) port direction sz (unat count) False st b 0 of
            (ret, st, b) \<Rightarrow> (ret \<or> \<not> ioport_debug, st, b)))"

subsection \<open>Memory-mapped I/O\<close>

type_synonym 's mmio_fn = "'s \<Rightarrow> u64 \<Rightarrow> buf \<Rightarrow> u32 \<Rightarrow> u8 \<Rightarrow> ptr \<Rightarrow> 's \<times> buf"

record 's mmio_mapping =
  mmio_fn :: "'s mmio_fn"
  mmio_ptr :: ptr

definition mmio_search :: "'s mmio_mapping rb_int_node rbt \<Rightarrow> u64 \<Rightarrow> u64 \<Rightarrow> 's mmio_mapping rb_int_node option" where
  "mmio_search t addr len = Option.bind (rb_int_search_range t addr (addr + len)) rb_elem"

definition mmio_search_single :: "'s mmio_mapping rb_int_node rbt \<Rightarrow> u64 \<Rightarrow> 's mmio_mapping rb_int_node loc option" where
  "mmio_search_single t addr = rb_int_search_single t addr"

definition mmio_insert ::
    "'s mmio_mapping rb_int_node rbt \<Rightarrow> 's mmio_mapping rb_int_node \<Rightarrow> (int \<times> 's mmio_mapping rb_int_node rbt) option" where
  "mmio_insert t d = rb_int_insert t d"

text \<open>
  \<open>malloc\<close> tells whether the allocation succeeds, \<open>ioctl\<close> is the result of
  \<^verbatim>\<open>KVM_REGISTER_COALESCED_MMIO\<close> for a zone and \<open>errno\<close> the error it leaves.
\<close>

definition kvm__register_mmio ::
    "bool \<Rightarrow> (u64 \<Rightarrow> u32 \<Rightarrow> int) \<Rightarrow> int \<Rightarrow> 's mmio_mapping rb_int_node rbt \<Rightarrow> u64 \<Rightarrow> u64 \<Rightarrow> bool
       \<Rightarrow> 's mmio_fn \<Rightarrow> ptr \<Rightarrow> (int \<times> 's mmio_mapping rb_int_node rbt) option" where
  "kvm__register_mmio malloc ioctl errno t phys_addr phys_addr_len coalesce fn p =
     (if \<not> malloc then Some (- ENOMEM, t)
      else
        let mmio = \<lparr> low = phys_addr, high = phys_addr + phys_addr_len,
                     entry = \<lparr> mmio_fn = fn, mmio_ptr = p \<rparr> \<rparr> in
        if coalesce \<and> ioctl phys_addr (ucast phys_addr_len) < 0 then Some (- errno, t)
        else mmio_insert t mmio)"

definition kvm__deregister_mmio ::
    "'s mmio_mapping rb_int_node rbt \<Rightarrow> u64 \<Rightarrow> (bool \<times> 's mmio_mapping rb_int_node rbt) option" where
  "kvm__deregister_mmio t phys_addr =
     (case mmio_search_single t phys_addr of
        None \<Rightarrow> Some (False, t)
      | Some mmio \<Rightarrow> map_option (Pair True) (rb_int_erase mmio))"

definition kvm__emulate_mmio ::
    "'s mmio_mapping rb_int_node rbt \<Rightarrow> 's \<Rightarrow> u64 \<Rightarrow> buf \<Rightarrow> u32 \<Rightarrow> u8 \<Rightarrow> bool \<times> 's \<times> buf" where
  "kvm__emulate_mmio t st phys_addr b len is_write =
     (case mmio_search t phys_addr (ucast len) of
        Some m \<Rightarrow> (True, mmio_fn (entry m) st phys_addr b len is_write (mmio_ptr (entry m)))
      | None \<Rightarrow> (True, st, b))"


subsection \<open>Port registration\<close>

definition ioport_inv :: "'s ioport_state \<Rightarrow> bool" where
  "ioport_inv s \<longleftrightarrow> rb_int_inv (ioport_tree s) \<and> dev_inv (devices s)"

definition ports :: "'s ioport_state \<Rightarrow> 's ioport rb_int_node set" where
  "ports s = set (inorder (ioport_tree s))"

definition port_at :: "'s ioport_state \<Rightarrow> u64 \<Rightarrow> 's ioport rb_int_node option" where
  "port_at s a = rb_int_lookup (ioport_tree s) a"

lemma displace_ok:
  assumes "rb_int_inv t"
  shows "\<exists>t'. ioport_displace port t = Some t' \<and> rb_int_inv t' \<and>
     set (inorder t') = {e \<in> set (inorder t). \<not> in_int e (ucast port)} \<and>
     (\<forall>a. rb_int_lookup t' a =
        (case rb_int_lookup t (ucast port) of None \<Rightarrow> rb_int_lookup t a
         | Some e \<Rightarrow> if in_int e a then None else rb_int_lookup t a))"
proof -
  have "ioport_displace port t = rb_int_erase_point t (ucast port)"
    by (simp add: ioport_displace_def ioport_search_def rb_int_erase_point_def)
  with itree.lookup_delete [of t "ucast port", unfolded point_dir_Here tree_inv_eq] assms show ?thesis by simp
qed

lemma ioport_entry_sel [simp]:
  "low (ioport_entry port o' count param addr) = ucast port"
  "high (ioport_entry port o' count param addr) = word_of_int (uint port + count)"
  "bus_type (dev_hdr (entry (ioport_entry port o' count param addr))) = DEVICE_BUS_IOPORT"
  by (simp_all add: ioport_entry_def)

lemma uint_port_end:
  assumes "0 < count" "count < 2 ^ 31"
  shows "uint (word_of_int (uint (port :: u16) + count) :: u64) = uint port + count"
  using assms uint_lt2p [of port] uint_ge_0 [of port]
  by (subst uint_word_of_int) (simp add: mod_pos_pos_trivial)

lemma ioport_entry_ok:
  assumes "0 < count" "count < 2 ^ 31"
  shows "int_ok (ioport_entry port o' count param addr)"
proof -
  note uint_port_end [OF assms, of port]
  moreover have "uint (ucast port :: u64) = uint port"
    by (simp add: uint_up_ucast is_up)
  ultimately show ?thesis
    using assms(1) by (simp add: int_ok_def word_less_def)
qed

lemma port_in_entry:
  assumes "0 < count" "count < 2 ^ 31"
  shows "in_int (ioport_entry port o' count param addr) (ucast q) \<longleftrightarrow>
           uint port \<le> uint (q :: u16) \<and> uint q < uint port + count"
proof -
  note uint_port_end [OF assms, of port]
  moreover have "uint (ucast port :: u64) = uint port" "uint (ucast q :: u64) = uint q"
    by (simp_all add: uint_up_ucast is_up)
  ultimately show ?thesis by (simp add: in_int_def word_less_def word_le_def)
qed

definition reg_port :: "'s ioport_state \<Rightarrow> u16 \<Rightarrow> u16" where
  "reg_port s port = (if port = IOPORT_EMPTY then fst (ioport__find_free_port s) else port)"

lemma register_unfold:
  "ioport__register (Some addr) s port o' count param =
     Option.bind (ioport_displace (reg_port s port) (ioport_tree s)) (\<lambda>t.
       Option.bind (rb_int_insert t (ioport_entry (reg_port s port) o' count param addr)) (\<lambda>(r, t').
         let s' = s\<lparr> free_io_port_idx := free_io_port_idx s + (if port = IOPORT_EMPTY then 1 else 0),
                     ioport_tree := t', br_locked := False \<rparr> in
         if r < 0 then Some (r, s')
         else Option.bind (device__register (devices s)
                 (dev_hdr (entry (ioport_entry (reg_port s port) o' count param addr))))
               (\<lambda>(_, _, d). Some (uint (reg_port s port), s'\<lparr> devices := d \<rparr>))))"
  by (cases "port = IOPORT_EMPTY")
     (auto simp: ioport__register_def reg_port_def ioport__find_free_port_def ioport_insert_def Let_def
       split: Option.bind_splits option.splits)

lemma ioport_register_ok:
  fixes s :: "'s ioport_state"
  assumes "ioport_inv s" "0 < count" "count < 2 ^ 31"
    and p_def: "p = reg_port s port"
    and e_def: "e = ioport_entry p o' count param addr"
    and clash: "\<forall>x \<in> ports s. in_int x (ucast p) \<or> int_disjoint e x"
  shows "\<exists>s'. ioport__register (Some addr) s port o' count param = Some (uint p, s') \<and>
     ioport_inv s' \<and> \<not> br_locked s' \<and>
     ports s' = insert e {x \<in> ports s. \<not> in_int x (ucast p)} \<and>
     (\<forall>q :: u16. uint p \<le> uint q \<and> uint q < uint p + count \<longrightarrow> port_at s' (ucast q) = Some e)"
proof -
  obtain t where t: "ioport_displace p (ioport_tree s) = Some t" "rb_int_inv t"
    "set (inorder t) = {x \<in> ports s. \<not> in_int x (ucast p)}"
    using displace_ok [of "ioport_tree s" p] assms(1) by (auto simp: ioport_inv_def ports_def)
  have ok: "int_ok e" using assms(2,3) ioport_entry_ok by (simp add: e_def)
  obtain t' where t': "rb_int_insert t e = Some (0, t')" "rb_int_inv t'"
    "set (inorder t') = insert e (set (inorder t))"
    "\<forall>a. rb_int_lookup t' a = (if in_int e a then Some e else rb_int_lookup t a)"
    using rb_int_insert_ok [OF t(2) ok] clash t(3) by auto
  obtain d' d where d: "device__register (devices s) (dev_hdr (entry e)) = Some (0, d', d)" "dev_inv d"
    using device_register_result [of "devices s" "dev_hdr (entry e)"] assms(1)
    by (auto simp: ioport_inv_def e_def)
  have "in_int e (ucast q)" if "uint p \<le> uint q" "uint q < uint p + count" for q :: u16
    using that unfolding e_def port_in_entry [OF assms(2,3)] by simp
  with t t' d show ?thesis
    unfolding register_unfold p_def [symmetric] e_def [symmetric]
    by (auto simp: ioport_inv_def ports_def port_at_def Let_def)
qed

text \<open>
  A registration that overlaps the tail of another range fails with \<open>-EEXIST\<close>; the entry it was
  to replace has been removed by then.
\<close>

lemma ioport_register_clash:
  fixes s :: "'s ioport_state"
  assumes "ioport_inv s" "0 < count" "count < 2 ^ 31"
    and p_def: "p = reg_port s port"
    and e_def: "e = ioport_entry p o' count param addr"
    and clash: "x \<in> ports s" "\<not> in_int x (ucast p)" "\<not> int_disjoint e x"
  shows "\<exists>s'. ioport__register (Some addr) s port o' count param = Some (- EEXIST, s') \<and>
     ioport_inv s' \<and> \<not> br_locked s' \<and> ports s' = {x \<in> ports s. \<not> in_int x (ucast p)} \<and>
     devices s' = devices s"
proof -
  obtain t where t: "ioport_displace p (ioport_tree s) = Some t" "rb_int_inv t"
    "set (inorder t) = {x \<in> ports s. \<not> in_int x (ucast p)}"
    using displace_ok [of "ioport_tree s" p] assms(1) by (auto simp: ioport_inv_def ports_def)
  have ok: "int_ok e" using assms(2,3) ioport_entry_ok by (simp add: e_def)
  have "rb_int_insert t e = Some (- EEXIST, t)"
    using rb_int_insert_clash [OF t(2) ok, of x] clash t(3) by simp
  with t assms(1) show ?thesis
    unfolding register_unfold p_def [symmetric] e_def [symmetric]
    by (auto simp: ioport_inv_def ports_def Let_def EEXIST_def)
qed

lemma ioport_register_nomem:
  assumes "ioport_inv s"
  shows "\<exists>s'. ioport__register None s port o' count param = Some (- ENOMEM, s') \<and> br_locked s' \<and>
     ioport_inv s' \<and> ports s' = {x \<in> ports s. \<not> in_int x (ucast (reg_port s port))}"
proof -
  obtain t where "ioport_displace (reg_port s port) (ioport_tree s) = Some t" "rb_int_inv t"
    "set (inorder t) = {x \<in> ports s. \<not> in_int x (ucast (reg_port s port))}"
    using displace_ok [of "ioport_tree s" "reg_port s port"] assms by (auto simp: ioport_inv_def ports_def)
  with assms show ?thesis
    by (cases "port = IOPORT_EMPTY")
       (auto simp: ioport__register_def reg_port_def ioport__find_free_port_def ioport_inv_def ports_def Let_def)
qed

lemma ioport_unregister_result:
  assumes "ioport_inv s"
  shows "\<exists>s'. ioport__unregister s port =
       Some (if port_at s (ucast port) = None then - ENOENT else 0, s') \<and>
     ioport_inv s' \<and> \<not> br_locked s' \<and> ports s' = {x \<in> ports s. \<not> in_int x (ucast port)} \<and>
     devices s' = devices s"
proof -
  have inv: "rb_int_inv (ioport_tree s)" using assms by (simp add: ioport_inv_def)
  obtain t where t: "ioport_displace port (ioport_tree s) = Some t" "rb_int_inv t"
    "set (inorder t) = {x \<in> ports s. \<not> in_int x (ucast port)}"
    using displace_ok [OF inv, of port] by (auto simp: ports_def)
  show ?thesis
  proof (cases "rb_int_search_single (ioport_tree s) (ucast port)")
    case None
    then have "port_at s (ucast port) = None" by (simp add: port_at_def rb_int_lookup_def)
    with None t assms show ?thesis
      by (auto simp: ioport__unregister_def ioport_search_def ioport_displace_def ioport_inv_def ports_def
          Let_def)
  next
    case (Some loc)
    then obtain e where "port_at s (ucast port) = Some e"
      by (auto simp: port_at_def rb_int_lookup_def rb_int_search_single_def elim!: rb_find_by_Some)
    with Some t assms show ?thesis
      by (auto simp: ioport__unregister_def ioport_search_def ioport_displace_def ioport_remove_def
          ioport_inv_def ports_def Let_def)
  qed
qed


lemma unregister_all_ok:
  assumes "rb_int_inv t" "length (inorder t) \<le> n"
  shows "ioport__unregister_all n t = Some Leaf"
  using assms
proof (induction n arbitrary: t)
  case 0
  then have "t = Leaf" by (cases t) auto
  then show ?case by (simp add: ioport__unregister_all.simps)
next
  case (Suc n)
  show ?case
  proof (cases "rb_first t []")
    case None
    then have "t = Leaf" using rb_first_list [of t "[]"] by (cases t) auto
    then show ?thesis by (simp add: ioport__unregister_all.simps)
  next
    case (Some rb)
    obtain t' fs where rb: "rb = (t', fs)" by fastforce
    from rb_first_plug [OF Some [unfolded rb]] obtain c l x r where
      n: "rb = (Node c l x r, fs)" and pl: "plug (Node c l x r) fs = t"
      by (cases t') (auto simp: rb)
    have inv: "rb_inv (plug (Node c l x r) fs)" using Suc.prems(1) pl by (simp add: rb_int_inv_def)
    obtain t2 where t2: "rb_erase (Node c l x r, fs) = Some t2" "rb_inv t2"
      "inorder t2 = path_left fs @ inorder l @ inorder r @ path_right fs"
      using rb_erase_correct [OF inv] by auto
    have io: "inorder t = path_left fs @ inorder l @ x # inorder r @ path_right fs"
      unfolding pl [symmetric] inorder_plug by simp
    have "rb_int_inv t2"
      using Suc.prems(1) t2(2,3) io by (auto simp: rb_int_inv_def sorted_wrt_append)
    with Suc.IH [of t2] Suc.prems(2) t2(3) io have "ioport__unregister_all n t2 = Some Leaf" by simp
    then show ?thesis
      using Some t2(1) n by (simp add: ioport__unregister_all.simps [of "Suc n"] ioport_remove_def rb_int_erase_def)
  qed
qed

subsection \<open>Handlers and the dispatch loop\<close>

text \<open>
  What the dispatcher relies on: a handler only writes the \<open>sz\<close> bytes of the guest's buffer it was
  given. A handler with this contract keeps a whole string transfer within its buffer.
\<close>

locale io_handler =
  fixes handler :: "'s io_fn" and widths :: "nat set"
  assumes frame: "handler pr st port b p sz = (r, st', b') \<Longrightarrow> sz \<in> widths \<Longrightarrow>
    i < p \<or> p + sz \<le> i \<Longrightarrow> b' i = b i"
begin

lemma loop_frame:
  assumes "emulate_io_loop e port d sz n r0 st b p = (r, st', b')" "sz \<in> widths"
    and "d = KVM_EXIT_IO_IN \<and> io_in (ops e) = Some handler \<or> d = KVM_EXIT_IO_OUT \<and> io_out (ops e) = Some handler"
    and "i < p \<or> p + n * sz \<le> i"
  shows "b' i = b i"
  using assms(1,4)
proof (induction n arbitrary: r0 st b p)
  case 0
  then show ?case by simp
next
  case (Suc n)
  obtain r1 st1 b1 where h: "handler (priv e) st port b p sz = (r1, st1, b1)"
    by (cases "handler (priv e) st port b p sz") auto
  have "emulate_io_loop e port d sz n r1 st1 b1 (p + sz) = (r, st', b')"
    using Suc.prems(1) h assms(3) by (auto simp: KVM_EXIT_IO_IN_def KVM_EXIT_IO_OUT_def)
  then have "b' i = b1 i" using Suc.IH Suc.prems(2) by auto
  also have "b1 i = b i" using frame [OF h assms(2)] Suc.prems(2) by auto
  finally show ?case .
qed

end

lemma emulate_io_unclaimed:
  assumes "rb_int_inv t" "\<forall>e \<in> set (inorder t). \<not> in_int e (ucast port)"
  shows "kvm__emulate_io dbg t st port b d sz count = (\<not> dbg, st, b)"
proof -
  have "rb_int_lookup t (ucast port) = None"
    using itree.lookup_None [of t] assms by simp
  then show ?thesis by (simp add: kvm__emulate_io_def ioport_search_def rb_int_lookup_def)
qed

lemma emulate_io_claimed:
  assumes "rb_int_inv t" "e \<in> set (inorder t)" "in_int e (ucast port)"
  shows "kvm__emulate_io dbg t st port b d sz count =
    (case emulate_io_loop (entry e) port d sz (unat count) False st b 0 of
       (ret, st, b) \<Rightarrow> (ret \<or> \<not> dbg, st, b))"
proof -
  have "rb_int_lookup t (ucast port) = Some e"
    using rb_int_search_iff [OF assms(1)] assms(2,3) by simp
  then show ?thesis by (simp add: kvm__emulate_io_def ioport_search_def rb_int_lookup_def)
qed

subsection \<open>Memory-mapped regions\<close>

lemma mmio_search_iff:
  assumes "rb_int_inv t"
  shows "mmio_search t addr len = Some m \<longleftrightarrow>
           m \<in> set (inorder t) \<and> in_int m addr \<and> addr + len \<le> high m"
  using rb_int_search_range_iff [OF assms] by (simp add: mmio_search_def)

lemma register_mmio_ok:
  assumes "rb_int_inv t" "addr < addr + len"
    and "\<not> (coalesce \<and> ioctl addr (ucast len) < 0)"
    and "\<forall>m \<in> set (inorder t). high m \<le> addr \<or> addr + len \<le> low m"
  shows "\<exists>t'. kvm__register_mmio True ioctl errno t addr len coalesce fn p = Some (0, t') \<and> rb_int_inv t' \<and>
     set (inorder t') = insert \<lparr> low = addr, high = addr + len, entry = \<lparr> mmio_fn = fn, mmio_ptr = p \<rparr> \<rparr>
                          (set (inorder t))"
proof -
  let ?m = "\<lparr> low = addr, high = addr + len, entry = \<lparr> mmio_fn = fn, mmio_ptr = p \<rparr> \<rparr>"
  have "int_ok ?m" "\<forall>m \<in> set (inorder t). int_disjoint ?m m"
    using assms(2,4) by (auto simp: int_ok_def int_disjoint_def)
  from rb_int_insert_ok [OF assms(1) this] assms(3) show ?thesis
    by (auto simp: kvm__register_mmio_def mmio_insert_def Let_def)
qed

lemma deregister_mmio_ok:
  assumes "rb_int_inv t"
  shows "\<exists>t'. kvm__deregister_mmio t addr =
       Some (\<exists>m \<in> set (inorder t). in_int m addr, t') \<and> rb_int_inv t' \<and>
     set (inorder t') = {m \<in> set (inorder t). \<not> in_int m addr}"
proof -
  obtain t' where t': "rb_int_erase_point t addr = Some t'" "rb_int_inv t'"
    "set (inorder t') = {m \<in> set (inorder t). \<not> in_int m addr}"
    using itree.delete_elems [of t addr, unfolded point_dir_Here tree_inv_eq] assms by auto
  have "rb_int_search_single t addr = None \<longleftrightarrow> \<not> (\<exists>m \<in> set (inorder t). in_int m addr)"
    using rb_find_by_None [OF itree.guides_key [of t addr]] assms
    by (simp add: rb_int_search_single_def)
  with t' show ?thesis
    by (auto simp: kvm__deregister_mmio_def mmio_search_single_def rb_int_erase_point_def
        split: option.splits)
qed

lemma emulate_mmio_hit:
  assumes "rb_int_inv t" "m \<in> set (inorder t)" "low m \<le> addr" "addr < high m" "addr + ucast len \<le> high m"
  shows "kvm__emulate_mmio t st addr b len w =
    (True, mmio_fn (entry m) st addr b len w (mmio_ptr (entry m)))"
proof -
  have "mmio_search t addr (ucast len) = Some m"
    using mmio_search_iff [OF assms(1)] assms(2-5) by (simp add: in_int_def)
  then show ?thesis by (simp add: kvm__emulate_mmio_def)
qed

lemma emulate_mmio_miss:
  assumes "rb_int_inv t"
    and "\<forall>m \<in> set (inorder t). \<not> (low m \<le> addr \<and> addr < high m \<and> addr + ucast len \<le> high m)"
  shows "kvm__emulate_mmio t st addr b len w = (True, st, b)"
proof -
  have "mmio_search t addr (ucast len) = None"
    using mmio_search_iff [OF assms(1), of addr "ucast len"] assms(2)
    by (cases "mmio_search t addr (ucast len)") (auto simp: in_int_def)
  then show ?thesis by (simp add: kvm__emulate_mmio_def)
qed

subsection \<open>Claims\<close>

definition empty_io :: "dev_state \<Rightarrow> 's ioport_state" where
  "empty_io d = \<lparr> free_io_port_idx = 0, ioport_tree = Leaf, devices = d, br_locked = False \<rparr>"

lemma empty_io_ok:
  assumes "dev_inv d"
  shows "ioport_inv (empty_io d :: 's ioport_state)" "ports (empty_io d :: 's ioport_state) = {}"
  using assms by (simp_all add: ioport_inv_def ports_def empty_io_def rb_int_inv_def rb_inv_def)

text \<open>
  C3: registering a port range that overlaps only the range it replaces returns its first port,
  releases the lock, drops the replaced range, and every port of the range then finds the new entry.
\<close>

theorem port_registration:
  fixes s :: "'s ioport_state"
  assumes "ioport_inv s" "0 < count" "count < 2 ^ 31"
    and "p = reg_port s port" "e = ioport_entry p o' count param addr"
    and "\<forall>x \<in> ports s. in_int x (ucast p) \<or> int_disjoint e x"
  shows "\<exists>s'. ioport__register (Some addr) s port o' count param = Some (uint p, s') \<and>
     ioport_inv s' \<and> \<not> br_locked s' \<and>
     ports s' = insert e {x \<in> ports s. \<not> in_int x (ucast p)} \<and>
     (\<forall>q :: u16. uint p \<le> uint q \<and> uint q < uint p + count \<longrightarrow> port_at s' (ucast q) = Some e)"
  by (rule ioport_register_ok [OF assms])

theorem port_registration_witness:
  "\<exists>s' :: unit ioport_state. ioport__register (Some 9) (empty_io initial_devices) 0x70 \<lparr> io_in = None, io_out = None \<rparr> 2 4
      = Some (0x70, s') \<and> \<not> br_locked s' \<and>
      port_at s' 0x71 = Some (ioport_entry 0x70 \<lparr> io_in = None, io_out = None \<rparr> 2 4 9)"
proof -
  let ?e = "ioport_entry 0x70 \<lparr> io_in = None, io_out = None \<rparr> 2 4 9 :: unit ioport rb_int_node"
  have p: "(0x70 :: u16) = reg_port (empty_io initial_devices :: unit ioport_state) 0x70"
    by (simp add: reg_port_def IOPORT_EMPTY_def)
  obtain s' :: "unit ioport_state" where s':
    "ioport__register (Some 9) (empty_io initial_devices) 0x70 \<lparr> io_in = None, io_out = None \<rparr> 2 4 = Some (uint (0x70 :: u16), s')"
    "\<not> br_locked s'"
    "\<forall>q :: u16. uint (0x70 :: u16) \<le> uint q \<and> uint q < uint (0x70 :: u16) + 2 \<longrightarrow> port_at s' (ucast q) = Some ?e"
    using port_registration [OF empty_io_ok(1) [OF dev_inv_initial] _ _ p refl, of 2 "\<lparr> io_in = None, io_out = None \<rparr>" 4 9]
    by (auto simp: empty_io_ok(2) [OF dev_inv_initial])
  moreover from s'(3) [rule_format, of "0x71"] have "port_at s' 0x71 = Some ?e" by simp
  ultimately show ?thesis using s'(1,2) by auto
qed



text \<open>
  C31: the teardown loop removes every registered range and ends after as many rounds as there are
  ranges.
\<close>

theorem unregister_all_terminates:
  assumes "rb_int_inv t"
  shows "ioport__unregister_all (length (inorder t)) t = Some Leaf"
  by (rule unregister_all_ok [OF assms order_refl])

theorem unregister_all_terminates_witness:
  "ioport__unregister_all 1 (Node RB_BLACK Leaf (ioport_entry 0x60 \<lparr> io_in = None, io_out = None \<rparr> 2 4 9 :: unit ioport rb_int_node) Leaf)
     = Some Leaf"
  using unregister_all_terminates [of "Node RB_BLACK Leaf (ioport_entry 0x60 \<lparr> io_in = None, io_out = None \<rparr> 2 4 9 :: unit ioport rb_int_node) Leaf"]
  by (simp add: rb_int_inv_def rb_inv_def int_ok_def ioport_entry_def)

text \<open>
  C30: an MMIO access that lies inside one registered range runs that range's handler once, with the
  access unchanged and the handler's own pointer; an access outside every range changes nothing.
\<close>

theorem mmio_dispatch:
  assumes "rb_int_inv t"
  shows "kvm__emulate_mmio t st addr b len w =
    (True, case find (\<lambda>m. low m \<le> addr \<and> addr < high m \<and> addr + ucast len \<le> high m) (inorder t) of
             Some m \<Rightarrow> mmio_fn (entry m) st addr b len w (mmio_ptr (entry m))
           | None \<Rightarrow> (st, b))"
proof (cases "find (\<lambda>m. low m \<le> addr \<and> addr < high m \<and> addr + ucast len \<le> high m) (inorder t)")
  case None
  then have "\<forall>m \<in> set (inorder t). \<not> (low m \<le> addr \<and> addr < high m \<and> addr + ucast len \<le> high m)"
    by (simp add: find_None_iff)
  then show ?thesis using emulate_mmio_miss [OF assms] None by simp
next
  case (Some m)
  then have "m \<in> set (inorder t)" "low m \<le> addr" "addr < high m" "addr + ucast len \<le> high m"
    by (auto simp: find_Some_iff)
  from emulate_mmio_hit [OF assms this] Some show ?thesis by simp
qed

theorem mmio_dispatch_witness:
  "kvm__emulate_mmio (Node RB_BLACK Leaf \<lparr> low = 0x1000, high = 0x1100,
       entry = \<lparr> mmio_fn = (\<lambda>st a b l w p. (st + l, b)), mmio_ptr = 0 \<rparr> \<rparr> Leaf) 5 0x1010 (\<lambda>_. 0) 4 0
     = (True, 9, \<lambda>_. 0)"
  using mmio_dispatch [of "Node RB_BLACK Leaf \<lparr> low = 0x1000, high = 0x1100,
       entry = \<lparr> mmio_fn = (\<lambda>st a b l w p. (st + l, b)), mmio_ptr = 0 \<rparr> \<rparr> Leaf" 5 "0x1010" "\<lambda>_. 0" 4 0]
  by (simp add: rb_int_inv_def rb_inv_def int_ok_def)

end
