(* ===== verification/X86_Ports.thy ===== *)
theory X86_Ports
  imports Io_Bus
begin

section \<open>Legacy I/O ports of the x86 machine (arch/x86/ioport.c)\<close>

text \<open>
  The ports that the machine claims without emulating a device. \<open>putchar\<close>, the effect of printing
  a character on the host, is a parameter. The registrations of \<^verbatim>\<open>ioport__setup_arch\<close> are made in
  order and their results ignored; \<open>malloc i\<close> is what the allocation of the \<open>i\<close>-th one returns.
\<close>

definition debug_io_out :: "'s io_fn" where
  "debug_io_out pr st port b p sz = (False, st, b)"

definition debug_ops :: "'s ioport_operations" where
  "debug_ops = \<lparr> io_in = None, io_out = Some debug_io_out \<rparr>"

definition seabios_debug_io_out :: "(u8 \<Rightarrow> 's \<Rightarrow> 's) \<Rightarrow> 's io_fn" where
  "seabios_debug_io_out putchar pr st port b p sz = (True, putchar (b p) st, b)"

definition seabios_debug_ops :: "(u8 \<Rightarrow> 's \<Rightarrow> 's) \<Rightarrow> 's ioport_operations" where
  "seabios_debug_ops putchar = \<lparr> io_in = None, io_out = Some (seabios_debug_io_out putchar) \<rparr>"

definition dummy_io_in :: "'s io_fn" where
  "dummy_io_in pr st port b p sz = (True, st, b)"

definition dummy_io_out :: "'s io_fn" where
  "dummy_io_out pr st port b p sz = (True, st, b)"

definition dummy_read_write_ioport_ops :: "'s ioport_operations" where
  "dummy_read_write_ioport_ops = \<lparr> io_in = Some dummy_io_in, io_out = Some dummy_io_out \<rparr>"

definition dummy_write_only_ioport_ops :: "'s ioport_operations" where
  "dummy_write_only_ioport_ops = \<lparr> io_in = None, io_out = Some dummy_io_out \<rparr>"

definition ps2_control_a_io_in :: "'s io_fn" where
  "ps2_control_a_io_in pr st port b p sz = (True, st, b(p := 0x02))"

definition ps2_control_a_ops :: "'s ioport_operations" where
  "ps2_control_a_ops = \<lparr> io_in = Some ps2_control_a_io_in, io_out = Some dummy_io_out \<rparr>"

definition legacy_ports :: "(u8 \<Rightarrow> 's \<Rightarrow> 's) \<Rightarrow> (u16 \<times> 's ioport_operations \<times> int) list" where
  "legacy_ports putchar =
     [(0x0000, dummy_read_write_ioport_ops, 32),
      (0x0020, dummy_read_write_ioport_ops, 2),
      (0x0040, dummy_read_write_ioport_ops, 4),
      (0x0092, ps2_control_a_ops, 1),
      (0x00A0, dummy_read_write_ioport_ops, 2),
      (0x00C0, dummy_read_write_ioport_ops, 32),
      (0x00E0, debug_ops, 1),
      (0x00ED, dummy_write_only_ioport_ops, 1),
      (0x00F0, dummy_write_only_ioport_ops, 2),
      (0x0278, dummy_read_write_ioport_ops, 3),
      (0x0378, dummy_read_write_ioport_ops, 3),
      (0x03D4, dummy_read_write_ioport_ops, 1),
      (0x03D5, dummy_write_only_ioport_ops, 1),
      (0x0402, seabios_debug_ops putchar, 1),
      (0x0510, dummy_read_write_ioport_ops, 2)]"

fun register_all ::
    "(nat \<Rightarrow> ptr option) \<Rightarrow> nat \<Rightarrow> (u16 \<times> 's ioport_operations \<times> int) list \<Rightarrow> 's ioport_state \<Rightarrow> 's ioport_state option" where
  "register_all malloc i [] s = Some s"
| "register_all malloc i ((port, o', count) # cs) s =
     (case ioport__register (malloc i) s port o' count 0 of
        None \<Rightarrow> None
      | Some (_, s) \<Rightarrow> register_all malloc (Suc i) cs s)"

definition ioport__setup_arch ::
    "(u8 \<Rightarrow> 's \<Rightarrow> 's) \<Rightarrow> (nat \<Rightarrow> ptr option) \<Rightarrow> 's ioport_state \<Rightarrow> 's ioport_state option" where
  "ioport__setup_arch putchar malloc s = register_all malloc 0 (legacy_ports putchar) s"

definition ioport__init ::
    "(u8 \<Rightarrow> 's \<Rightarrow> 's) \<Rightarrow> (nat \<Rightarrow> ptr option) \<Rightarrow> 's ioport_state \<Rightarrow> (int \<times> 's ioport_state) option" where
  "ioport__init putchar malloc s = map_option (Pair 0) (ioport__setup_arch putchar malloc s)"

subsection \<open>Registering a list of disjoint ranges\<close>

text \<open>The ranges \<open>[p, p + c)\<close> of a list of registrations, as numbers.\<close>

definition range_apart :: "u16 \<times> 's ioport_operations \<times> int \<Rightarrow> u16 \<times> 's ioport_operations \<times> int \<Rightarrow> bool" where
  "range_apart a b \<longleftrightarrow> (case a of (p, _, c) \<Rightarrow> case b of (q, _, d) \<Rightarrow>
     uint p + c \<le> uint q \<or> uint q + d \<le> uint p)"

definition good_range :: "u16 \<times> 's ioport_operations \<times> int \<Rightarrow> bool" where
  "good_range a \<longleftrightarrow> (case a of (p, _, c) \<Rightarrow> p \<noteq> IOPORT_EMPTY \<and> 0 < c \<and> c < 2 ^ 31)"

fun range_entry :: "(nat \<Rightarrow> ptr) \<Rightarrow> nat \<Rightarrow> u16 \<times> 's ioport_operations \<times> int \<Rightarrow> 's ioport rb_int_node" where
  "range_entry addr i (p, o', c) = ioport_entry p o' c 0 (addr i)"

fun range_entries ::
    "(nat \<Rightarrow> ptr) \<Rightarrow> nat \<Rightarrow> (u16 \<times> 's ioport_operations \<times> int) list \<Rightarrow> 's ioport rb_int_node set" where
  "range_entries addr i [] = {}"
| "range_entries addr i (a # as) = insert (range_entry addr i a) (range_entries addr (Suc i) as)"

lemma entries_apart:
  assumes "0 < c" "c < 2 ^ 31" "0 < d" "d < 2 ^ 31" "uint p + c \<le> uint q \<or> uint q + d \<le> uint p"
  shows "int_disjoint (ioport_entry p o1 c x a) (ioport_entry q o2 d y b)"
proof -
  have "uint (ucast p :: u64) = uint p" "uint (ucast q :: u64) = uint q"
    by (simp_all add: uint_up_ucast is_up)
  with assms uint_port_end [of c p] uint_port_end [of d q] show ?thesis
    by (simp add: int_disjoint_def word_le_def)
qed

lemma entry_excludes:
  assumes "0 < c" "c < 2 ^ 31" "0 < d" "uint p + c \<le> uint q \<or> uint q + d \<le> uint p"
  shows "\<not> in_int (ioport_entry p o1 c x a) (ucast (q :: u16))"
  using assms by (auto simp: port_in_entry)

lemma register_all_ok:
  fixes s :: "'s ioport_state"
  assumes "ioport_inv s" "list_all good_range as" "sorted_wrt range_apart as"
    and "\<And>a x. a \<in> set as \<Longrightarrow> x \<in> ports s \<Longrightarrow>
           (\<exists>b i. x = range_entry addr i b \<and> good_range b \<and> range_apart b a)"
  shows "\<exists>s'. register_all (\<lambda>i. Some (addr i)) i as s = Some s' \<and> ioport_inv s' \<and>
           ports s' = ports s \<union> range_entries addr i as"
  using assms
proof (induction as arbitrary: s i)
  case Nil
  then show ?case by simp
next
  case (Cons a as)
  obtain p o' c where a: "a = (p, o', c)" by (cases a) auto
  have good: "p \<noteq> IOPORT_EMPTY" "0 < c" "c < 2 ^ 31" using Cons.prems(2) by (auto simp: a good_range_def)
  have rp: "reg_port s p = p" using good(1) by (simp add: reg_port_def)
  let ?e = "ioport_entry p o' c 0 (addr i)"
  have apart: "\<not> in_int x (ucast p) \<and> int_disjoint ?e x" if "x \<in> ports s" for x
  proof -
    obtain b j where b: "x = range_entry addr j b" "good_range b" "range_apart b a"
      using Cons.prems(4) [of a x] \<open>x \<in> ports s\<close> by fastforce
    obtain q o2 d where q: "b = (q, o2, d)" by (cases b) auto
    have d: "x = ioport_entry q o2 d 0 (addr j)" "0 < d" "d < 2 ^ 31"
      "uint q + d \<le> uint p \<or> uint p + c \<le> uint q"
      using b by (auto simp: q a good_range_def range_apart_def)
    show ?thesis
      unfolding d(1)
      using entry_excludes [OF d(2,3) good(2) d(4)] entries_apart [OF good(2,3) d(2,3)] d(4) by blast
  qed
  obtain s1 where s1: "ioport__register (Some (addr i)) s p o' c 0 = Some (uint p, s1)" "ioport_inv s1"
    "ports s1 = insert ?e {x \<in> ports s. \<not> in_int x (ucast p)}"
    using ioport_register_ok [of s c p p ?e o' 0 "addr i"] Cons.prems(1) good rp apart by auto
  have p1: "ports s1 = insert ?e (ports s)" using s1(3) apart by auto
  have "\<exists>b j. x = range_entry addr j b \<and> good_range b \<and> range_apart b d"
    if "d \<in> set as" "x \<in> ports s1" for d x
  proof (cases "x = ?e")
    case True
    then have "x = range_entry addr i a \<and> good_range a \<and> range_apart a d"
      using Cons.prems(2,3) that by (auto simp: a)
    then show ?thesis by blast
  next
    case False
    then show ?thesis using Cons.prems(4) [of d x] that p1 by auto
  qed
  then obtain s2 where "register_all (\<lambda>i. Some (addr i)) (Suc i) as s1 = Some s2" "ioport_inv s2"
    "ports s2 = ports s1 \<union> range_entries addr (Suc i) as"
    using Cons.IH [of s1 "Suc i"] Cons.prems(2,3) s1(2) by auto
  then show ?case using s1(1) p1 by (auto simp: a)
qed

lemma legacy_ports_good: "list_all good_range (legacy_ports putchar)"
  by (simp add: legacy_ports_def good_range_def IOPORT_EMPTY_def)

lemma legacy_ports_apart: "sorted_wrt range_apart (legacy_ports putchar)"
  by (simp add: legacy_ports_def range_apart_def)

lemma setup_arch_ok:
  fixes putchar :: "u8 \<Rightarrow> 's \<Rightarrow> 's"
  assumes "dev_inv d"
  shows "\<exists>s. ioport__init putchar (\<lambda>i. Some (addr i)) (empty_io d) = Some (0, s) \<and> ioport_inv s \<and>
           ports s = range_entries addr 0 (legacy_ports putchar)"
proof -
  note empty_io_ok [OF assms, where 's = 's]
  then obtain s where "register_all (\<lambda>i. Some (addr i)) 0 (legacy_ports putchar) (empty_io d) = Some s"
    "ioport_inv s" "ports s = range_entries addr 0 (legacy_ports putchar)"
    using register_all_ok [OF _ legacy_ports_good legacy_ports_apart, of "empty_io d" putchar addr 0] by auto
  then show ?thesis by (simp add: ioport__init_def ioport__setup_arch_def)
qed

interpretation dummy_in_handler: io_handler dummy_io_in "UNIV"
  by unfold_locales (auto simp: dummy_io_in_def)

interpretation ps2_handler: io_handler ps2_control_a_io_in "{n. 0 < n}"
  by unfold_locales (auto simp: ps2_control_a_io_in_def)

subsection \<open>Claims\<close>



end
