(* ===== verification/Serial.thy ===== *)
theory Serial
  imports Io_Bus
begin

section \<open>The 8250 serial port (hw/serial.c) and its terminal (src/term.c)\<close>

text \<open>
  A \<^verbatim>\<open>struct serial8250_device\<close> is a record; the FIFOs are lists of 64 bytes that are updated by
  index, as in C. The host side is the record \<open>serial_host\<close>: the bytes waiting on each terminal,
  the bytes written to it, and the calls of \<^verbatim>\<open>kvm__irq_line\<close> in order.
\<close>

definition FIFO_LEN :: nat where "FIFO_LEN = 64"
definition UART_IIR_TYPE_BITS :: u8 where "UART_IIR_TYPE_BITS = 0xc0"
definition UART_LCR_DLAB :: u8 where "UART_LCR_DLAB = 0x80"
definition UART_IER_RDI :: u8 where "UART_IER_RDI = 0x01"
definition UART_IER_THRI :: u8 where "UART_IER_THRI = 0x02"
definition UART_IIR_NO_INT :: u8 where "UART_IIR_NO_INT = 0x01"
definition UART_IIR_THRI :: u8 where "UART_IIR_THRI = 0x02"
definition UART_IIR_RDI :: u8 where "UART_IIR_RDI = 0x04"
definition UART_FCR_CLEAR_RCVR :: u8 where "UART_FCR_CLEAR_RCVR = 0x02"
definition UART_FCR_CLEAR_XMIT :: u8 where "UART_FCR_CLEAR_XMIT = 0x04"
definition UART_LSR_DR :: u8 where "UART_LSR_DR = 0x01"
definition UART_LSR_BI :: u8 where "UART_LSR_BI = 0x10"
definition UART_LSR_THRE :: u8 where "UART_LSR_THRE = 0x20"
definition UART_LSR_TEMT :: u8 where "UART_LSR_TEMT = 0x40"
definition UART_MCR_OUT2 :: u8 where "UART_MCR_OUT2 = 0x08"
definition UART_MCR_LOOP :: u8 where "UART_MCR_LOOP = 0x10"
definition UART_MSR_DCD :: u8 where "UART_MSR_DCD = 0x80"
definition UART_MSR_DSR :: u8 where "UART_MSR_DSR = 0x20"
definition UART_MSR_CTS :: u8 where "UART_MSR_CTS = 0x10"

lemmas uart_defs =
  FIFO_LEN_def UART_IIR_TYPE_BITS_def UART_LCR_DLAB_def UART_IER_RDI_def UART_IER_THRI_def
  UART_IIR_NO_INT_def UART_IIR_THRI_def UART_IIR_RDI_def UART_FCR_CLEAR_RCVR_def
  UART_FCR_CLEAR_XMIT_def UART_LSR_DR_def UART_LSR_BI_def UART_LSR_THRE_def UART_LSR_TEMT_def
  UART_MCR_OUT2_def UART_MCR_LOOP_def UART_MSR_DCD_def UART_MSR_DSR_def UART_MSR_CTS_def

record serial8250_device =
  dev_id :: nat
  iobase :: u16
  irq :: u8
  irq_state :: u8
  txcnt :: nat
  rxcnt :: nat
  rxdone :: nat
  txbuf :: "u8 list"
  rxbuf :: "u8 list"
  dll :: u8
  dlm :: u8
  iir :: u8
  ier :: u8
  fcr :: u8
  lcr :: u8
  mcr :: u8
  lsr :: u8
  msr :: u8
  scr :: u8

record serial_host =
  term_in :: "nat \<Rightarrow> u8 list"
  term_out :: "nat \<Rightarrow> u8 list"
  term_got_escape :: bool
  reboots :: nat
  irq_line_calls :: "(u8 \<times> bool) list"

record serial_state =
  serial_devs :: "ptr \<Rightarrow> serial8250_device"
  host :: serial_host
  sysrq_pending :: u8

definition serial_device :: "nat \<Rightarrow> u16 \<Rightarrow> u8 \<Rightarrow> serial8250_device" where
  "serial_device i base line =
     \<lparr> dev_id = i, iobase = base, irq = line, irq_state = 0, txcnt = 0, rxcnt = 0, rxdone = 0,
       txbuf = replicate FIFO_LEN 0, rxbuf = replicate FIFO_LEN 0, dll = 0, dlm = 0,
       iir = UART_IIR_NO_INT, ier = 0, fcr = 0, lcr = 0, mcr = UART_MCR_OUT2,
       lsr = UART_LSR_TEMT OR UART_LSR_THRE, msr = UART_MSR_DCD OR UART_MSR_DSR OR UART_MSR_CTS,
       scr = 0 \<rparr>"

definition serial_devices :: "serial8250_device list" where
  "serial_devices =
     [serial_device 0 0x3f8 4, serial_device 1 0x2f8 3, serial_device 2 0x3e8 4, serial_device 3 0x2e8 3]"

definition term_escape_char :: u8 where "term_escape_char = 0x01"

definition kvm__irq_line :: "u8 \<Rightarrow> bool \<Rightarrow> serial_host \<Rightarrow> serial_host" where
  "kvm__irq_line line level h = h\<lparr> irq_line_calls := irq_line_calls h @ [(line, level)] \<rparr>"

definition term_readable :: "serial_host \<Rightarrow> nat \<Rightarrow> bool" where
  "term_readable h term \<longleftrightarrow> term_in h term \<noteq> []"

definition term_getc :: "serial_host \<Rightarrow> nat \<Rightarrow> int \<times> serial_host" where
  "term_getc h term =
     (case term_in h term of
        [] \<Rightarrow> (- 1, h)
      | c # cs \<Rightarrow>
          let h = h\<lparr> term_in := (term_in h)(term := cs) \<rparr>;
              escaped = term_got_escape h;
              h = (if escaped then h\<lparr> term_got_escape := False \<rparr> else h);
              h = (if escaped \<and> c = 120 then h\<lparr> reboots := reboots h + 1 \<rparr> else h) in
          if escaped \<and> c = term_escape_char then (uint c, h)
          else if c = term_escape_char then (- 1, h\<lparr> term_got_escape := True \<rparr>)
          else (uint c, h))"

definition term_putc :: "u8 list \<Rightarrow> nat \<Rightarrow> serial_host \<Rightarrow> serial_host" where
  "term_putc bytes term h = h\<lparr> term_out := (term_out h)(term := term_out h term @ bytes) \<rparr>"

definition serial8250_flush_tx ::
    "serial8250_device \<Rightarrow> serial_host \<Rightarrow> serial8250_device \<times> serial_host" where
  "serial8250_flush_tx dev h =
     (let dev = dev\<lparr> lsr := lsr dev OR (UART_LSR_TEMT OR UART_LSR_THRE) \<rparr> in
      if txcnt dev \<noteq> 0
      then (dev\<lparr> txcnt := 0 \<rparr>, term_putc (take (txcnt dev) (txbuf dev)) (dev_id dev) h)
      else (dev, h))"

text \<open>The two clear steps of \<^verbatim>\<open>serial8250_update_irq\<close>; both look at \<open>lcr\<close>.\<close>

definition handle_clear_rx :: "serial8250_device \<Rightarrow> serial8250_device" where
  "handle_clear_rx dev =
     (if lcr dev AND UART_FCR_CLEAR_RCVR \<noteq> 0
      then dev\<lparr> lcr := lcr dev AND NOT UART_FCR_CLEAR_RCVR, rxcnt := 0, rxdone := 0,
                lsr := lsr dev AND NOT UART_LSR_DR \<rparr>
      else dev)"

definition handle_clear_tx :: "serial8250_device \<Rightarrow> serial8250_device" where
  "handle_clear_tx dev =
     (if lcr dev AND UART_FCR_CLEAR_XMIT \<noteq> 0
      then dev\<lparr> lcr := lcr dev AND NOT UART_FCR_CLEAR_XMIT, txcnt := 0,
                lsr := lsr dev OR (UART_LSR_TEMT OR UART_LSR_THRE) \<rparr>
      else dev)"

definition pending_iir :: "serial8250_device \<Rightarrow> u8" where
  "pending_iir dev =
     (if ier dev AND UART_IER_RDI \<noteq> 0 \<and> lsr dev AND UART_LSR_DR \<noteq> 0 then UART_IIR_RDI else 0)
     OR (if ier dev AND UART_IER_THRI \<noteq> 0 \<and> lsr dev AND UART_LSR_TEMT \<noteq> 0 then UART_IIR_THRI else 0)"

definition serial8250_update_irq ::
    "serial8250_device \<Rightarrow> serial_host \<Rightarrow> serial8250_device \<times> serial_host" where
  "serial8250_update_irq dev h =
     (let dev = handle_clear_tx (handle_clear_rx dev);
          i = pending_iir dev;
          (dev, h) =
            (if i = 0
             then (dev\<lparr> iir := UART_IIR_NO_INT \<rparr>,
                   if irq_state dev \<noteq> 0 then kvm__irq_line (irq dev) False h else h)
             else (dev\<lparr> iir := i \<rparr>,
                   if irq_state dev = 0 then kvm__irq_line (irq dev) True h else h));
          dev = dev\<lparr> irq_state := i \<rparr> in
      if ier dev AND UART_IER_THRI = 0 then serial8250_flush_tx dev h else (dev, h))"

definition rx_push :: "u8 \<Rightarrow> serial8250_device \<Rightarrow> serial8250_device" where
  "rx_push c dev = dev\<lparr> rxbuf := (rxbuf dev)[rxcnt dev := c], rxcnt := rxcnt dev + 1 \<rparr>"

definition serial8250__sysrq :: "serial8250_device \<Rightarrow> u8 \<Rightarrow> serial8250_device \<times> u8" where
  "serial8250__sysrq dev pending =
     (rx_push pending (dev\<lparr> lsr := lsr dev OR (UART_LSR_DR OR UART_LSR_BI) \<rparr>), 0)"

function receive_loop :: "serial8250_device \<Rightarrow> serial_host \<Rightarrow> serial8250_device \<times> serial_host" where
  "receive_loop dev h =
     (if term_readable h (dev_id dev) \<and> rxcnt dev < FIFO_LEN
      then
        (case term_getc h (dev_id dev) of (c, h) \<Rightarrow>
           if c < 0 then (dev, h)
           else
             let dev = rx_push (word_of_int c) dev in
             receive_loop (dev\<lparr> lsr := lsr dev OR UART_LSR_DR \<rparr>) h)
      else (dev, h))"
  by auto

termination receive_loop
  by (relation "measure (\<lambda>(dev, h). FIFO_LEN - rxcnt dev)") (auto simp: rx_push_def)

declare receive_loop.simps [simp del]

text \<open>\<open>console_8250\<close> is \<^verbatim>\<open>kvm->cfg.active_console == CONSOLE_8250\<close>.\<close>

definition serial8250__receive ::
    "bool \<Rightarrow> serial8250_device \<Rightarrow> serial_host \<Rightarrow> u8 \<Rightarrow> bool \<Rightarrow> serial8250_device \<times> serial_host \<times> u8" where
  "serial8250__receive console_8250 dev h pending handle_sysrq =
     (if mcr dev AND UART_MCR_LOOP \<noteq> 0 then (dev, h, pending)
      else if lsr dev AND UART_LSR_DR \<noteq> 0 \<or> rxcnt dev \<noteq> 0 then (dev, h, pending)
      else if handle_sysrq \<and> pending \<noteq> 0 then
        (case serial8250__sysrq dev pending of (dev, pending) \<Rightarrow> (dev, h, pending))
      else if \<not> console_8250 then (dev, h, pending)
      else (case receive_loop dev h of (dev, h) \<Rightarrow> (dev, h, pending)))"

definition update_console :: "bool \<Rightarrow> nat \<Rightarrow> serial_state \<Rightarrow> serial_state" where
  "update_console console_8250 i s =
     (case serial8250__receive console_8250 (serial_devs s i) (host s) (sysrq_pending s) (i = 0) of
        (dev, h, pending) \<Rightarrow>
          (case serial8250_update_irq dev h of (dev, h) \<Rightarrow>
             s\<lparr> serial_devs := (serial_devs s)(i := dev), host := h, sysrq_pending := pending \<rparr>))"

definition serial8250__update_consoles :: "bool \<Rightarrow> serial_state \<Rightarrow> serial_state" where
  "serial8250__update_consoles console_8250 s = fold (update_console console_8250) [0..<4] s"

definition serial8250__inject_sysrq :: "serial_state \<Rightarrow> u8 \<Rightarrow> serial_state" where
  "serial8250__inject_sysrq s sysrq = s\<lparr> sysrq_pending := sysrq \<rparr>"

definition uart_tx_write ::
    "serial8250_device \<Rightarrow> serial_host \<Rightarrow> u8 \<Rightarrow> serial8250_device \<times> serial_host" where
  "uart_tx_write dev h c =
     (if lcr dev AND UART_LCR_DLAB \<noteq> 0 then (dev\<lparr> dll := c \<rparr>, h)
      else if mcr dev AND UART_MCR_LOOP \<noteq> 0 then
        (if rxcnt dev < FIFO_LEN
         then (let dev = rx_push c dev in dev\<lparr> lsr := lsr dev OR UART_LSR_DR \<rparr>, h)
         else (dev, h))
      else if txcnt dev < FIFO_LEN then
        let dev = dev\<lparr> txbuf := (txbuf dev)[txcnt dev := c], txcnt := txcnt dev + 1 \<rparr>;
            dev = dev\<lparr> lsr := lsr dev AND NOT UART_LSR_TEMT \<rparr>;
            dev = (if txcnt dev = FIFO_LEN div 2
                   then dev\<lparr> lsr := lsr dev AND NOT UART_LSR_THRE \<rparr> else dev) in
        serial8250_flush_tx dev h
      else (dev\<lparr> lsr := lsr dev AND NOT (UART_LSR_TEMT OR UART_LSR_THRE) \<rparr>, h))"

definition uart_write ::
    "u16 \<Rightarrow> u8 \<Rightarrow> serial8250_device \<Rightarrow> serial_host \<Rightarrow> bool \<times> serial8250_device \<times> serial_host" where
  "uart_write offset c dev h =
     (if offset = 0 then (True, uart_tx_write dev h c)
      else if offset = 1 then
        (True, (if lcr dev AND UART_LCR_DLAB = 0 then dev\<lparr> ier := c AND 0x0f \<rparr> else dev\<lparr> dlm := c \<rparr>), h)
      else if offset = 2 then (True, dev\<lparr> fcr := c \<rparr>, h)
      else if offset = 3 then (True, dev\<lparr> lcr := c \<rparr>, h)
      else if offset = 4 then (True, dev\<lparr> mcr := c \<rparr>, h)
      else if offset = 5 \<or> offset = 6 then (True, dev, h)
      else if offset = 7 then (True, dev\<lparr> scr := c \<rparr>, h)
      else (False, dev, h))"

definition serial8250_out :: "serial_state io_fn" where
  "serial8250_out pr s port b p sz =
     (let dev = serial_devs s pr in
      case uart_write (port - iobase dev) (b p) dev (host s) of (ret, dev, h) \<Rightarrow>
      case serial8250_update_irq dev h of (dev, h) \<Rightarrow>
        (ret, s\<lparr> serial_devs := (serial_devs s)(pr := dev), host := h \<rparr>, b))"

definition serial8250_rx :: "serial8250_device \<Rightarrow> buf \<Rightarrow> nat \<Rightarrow> serial8250_device \<times> buf" where
  "serial8250_rx dev b p =
     (if rxdone dev = rxcnt dev then (dev, b)
      else if lsr dev AND UART_LSR_BI \<noteq> 0
      then (dev\<lparr> lsr := lsr dev AND NOT UART_LSR_BI \<rparr>, b(p := 0))
      else
        let b = b(p := rxbuf dev ! rxdone dev);
            dev = dev\<lparr> rxdone := rxdone dev + 1 \<rparr> in
        if rxcnt dev = rxdone dev
        then (dev\<lparr> lsr := lsr dev AND NOT UART_LSR_DR, rxcnt := 0, rxdone := 0 \<rparr>, b)
        else (dev, b))"

definition uart_read :: "u16 \<Rightarrow> serial8250_device \<Rightarrow> buf \<Rightarrow> nat \<Rightarrow> bool \<times> serial8250_device \<times> buf" where
  "uart_read offset dev b p =
     (if offset = 0 then
        (True, if lcr dev AND UART_LCR_DLAB \<noteq> 0 then (dev, b(p := dll dev)) else serial8250_rx dev b p)
      else if offset = 1 then
        (True, dev, b(p := (if lcr dev AND UART_LCR_DLAB \<noteq> 0 then dlm dev else ier dev)))
      else if offset = 2 then (True, dev, b(p := iir dev OR UART_IIR_TYPE_BITS))
      else if offset = 3 then (True, dev, b(p := lcr dev))
      else if offset = 4 then (True, dev, b(p := mcr dev))
      else if offset = 5 then (True, dev, b(p := lsr dev))
      else if offset = 6 then (True, dev, b(p := msr dev))
      else if offset = 7 then (True, dev, b(p := scr dev))
      else (False, dev, b))"

definition serial8250_in :: "serial_state io_fn" where
  "serial8250_in pr s port b p sz =
     (let dev = serial_devs s pr in
      case uart_read (port - iobase dev) dev b p of (ret, dev, b) \<Rightarrow>
      case serial8250_update_irq dev (host s) of (dev, h) \<Rightarrow>
        (ret, s\<lparr> serial_devs := (serial_devs s)(pr := dev), host := h \<rparr>, b))"

definition serial8250_ops :: "serial_state ioport_operations" where
  "serial8250_ops = \<lparr> io_in = Some serial8250_in, io_out = Some serial8250_out \<rparr>"


text \<open>
  Registration of the four ports. \<open>malloc i\<close> is what the allocation for port \<open>i\<close> returns; the
  device pointer is its index, \<^verbatim>\<open>ioport__map_irq\<close> does nothing on x86.
\<close>

definition serial8250__device_init ::
    "ptr option \<Rightarrow> serial_state ioport_state \<Rightarrow> nat \<Rightarrow> (int \<times> serial_state ioport_state) option" where
  "serial8250__device_init malloc s i =
     ioport__register malloc s (iobase (serial_devices ! i)) serial8250_ops 8 i"

fun unregister_ports :: "nat list \<Rightarrow> serial_state ioport_state \<Rightarrow> serial_state ioport_state option" where
  "unregister_ports [] s = Some s"
| "unregister_ports (j # js) s =
     (case ioport__unregister s (iobase (serial_devices ! j)) of
        None \<Rightarrow> None
      | Some (_, s) \<Rightarrow> unregister_ports js s)"

fun serial_init_loop ::
    "(nat \<Rightarrow> ptr option) \<Rightarrow> nat list \<Rightarrow> int \<Rightarrow> serial_state ioport_state \<Rightarrow> (int \<times> serial_state ioport_state) option" where
  "serial_init_loop malloc [] r s = Some (r, s)"
| "serial_init_loop malloc (i # is) r s =
     (case serial8250__device_init (malloc i) s i of
        None \<Rightarrow> None
      | Some (r, s) \<Rightarrow>
          if r < 0 then map_option (Pair r) (unregister_ports [0..<i + 1] s)
          else serial_init_loop malloc is r s)"

definition serial8250__init ::
    "(nat \<Rightarrow> ptr option) \<Rightarrow> serial_state ioport_state \<Rightarrow> (int \<times> serial_state ioport_state) option" where
  "serial8250__init malloc s = serial_init_loop malloc [0..<4] 0 s"

fun serial_exit_loop :: "nat list \<Rightarrow> serial_state ioport_state \<Rightarrow> (int \<times> serial_state ioport_state) option" where
  "serial_exit_loop [] s = Some (0, s)"
| "serial_exit_loop (i # is) s =
     (case ioport__unregister s (iobase (serial_devices ! i)) of
        None \<Rightarrow> None
      | Some (r, s) \<Rightarrow> if r < 0 then Some (r, s) else serial_exit_loop is s)"

definition serial8250__exit :: "serial_state ioport_state \<Rightarrow> (int \<times> serial_state ioport_state) option" where
  "serial8250__exit s = serial_exit_loop [0..<4] s"

subsection \<open>The invariant of a port\<close>

text \<open>The indices stay inside the FIFOs, so no access of the handlers is out of bounds.\<close>

definition fifo_inv :: "serial8250_device \<Rightarrow> bool" where
  "fifo_inv dev \<longleftrightarrow> length (txbuf dev) = FIFO_LEN \<and> length (rxbuf dev) = FIFO_LEN \<and>
     txcnt dev \<le> FIFO_LEN \<and> rxdone dev \<le> rxcnt dev \<and> rxcnt dev \<le> FIFO_LEN"

definition rx_queue :: "serial8250_device \<Rightarrow> u8 list" where
  "rx_queue dev = drop (rxdone dev) (take (rxcnt dev) (rxbuf dev))"

lemma fifo_inv_initial: "i < 4 \<Longrightarrow> fifo_inv (serial_devices ! i)"
  by (auto simp: fifo_inv_def serial_devices_def serial_device_def nth_Cons split: nat.splits)

lemma fifo_inv_flush: "fifo_inv dev \<Longrightarrow> fifo_inv (fst (serial8250_flush_tx dev h))"
  by (simp add: fifo_inv_def serial8250_flush_tx_def Let_def)

lemma fifo_inv_clear: "fifo_inv dev \<Longrightarrow> fifo_inv (handle_clear_tx (handle_clear_rx dev))"
  by (simp add: fifo_inv_def handle_clear_tx_def handle_clear_rx_def)

lemma fifo_inv_update_irq:
  assumes "fifo_inv dev"
  shows "fifo_inv (fst (serial8250_update_irq dev h))"
proof -
  have upd: "fifo_inv (d\<lparr> iir := x, irq_state := y \<rparr>) = fifo_inv d" for d x y
    by (simp add: fifo_inv_def)
  show ?thesis
    using fifo_inv_clear [OF assms] fifo_inv_flush
    by (auto simp: serial8250_update_irq_def Let_def upd)
qed

lemma fifo_inv_push: "fifo_inv dev \<Longrightarrow> rxcnt dev < FIFO_LEN \<Longrightarrow> fifo_inv (rx_push c dev)"
  by (simp add: fifo_inv_def rx_push_def)

lemma fifo_inv_lsr [simp]: "fifo_inv (dev\<lparr> lsr := x \<rparr>) = fifo_inv dev"
  by (simp add: fifo_inv_def)

lemma fifo_inv_receive_loop: "fifo_inv dev \<Longrightarrow> fifo_inv (fst (receive_loop dev h))"
proof (induction dev h rule: receive_loop.induct)
  case (1 dev h)
  show ?case
    using 1 fifo_inv_push [OF 1(2)]
    by (subst receive_loop.simps) (auto split: prod.splits simp: Let_def)
qed

lemma fifo_inv_receive:
  "fifo_inv dev \<Longrightarrow> fifo_inv (fst (serial8250__receive con dev h pend sysrq))"
  using fifo_inv_receive_loop [of dev h] fifo_inv_push [of "dev\<lparr> lsr := x \<rparr>" for x]
  by (auto simp: serial8250__receive_def serial8250__sysrq_def FIFO_LEN_def split: prod.splits)

lemma fifo_inv_tx_write: "fifo_inv dev \<Longrightarrow> fifo_inv (fst (uart_tx_write dev h c))"
  using fifo_inv_push [of dev c]
  by (auto simp: uart_tx_write_def Let_def serial8250_flush_tx_def fifo_inv_def)

lemma fifo_inv_write: "fifo_inv dev \<Longrightarrow> fifo_inv (fst (snd (uart_write off c dev h)))"
  using fifo_inv_tx_write [of dev h c]
  by (auto simp: uart_write_def) (auto simp: fifo_inv_def)

lemma fifo_inv_read: "fifo_inv dev \<Longrightarrow> fifo_inv (fst (snd (uart_read off dev b p)))"
  by (auto simp: uart_read_def serial8250_rx_def Let_def) (auto simp: fifo_inv_def)

definition serial_inv :: "serial_state \<Rightarrow> bool" where
  "serial_inv s \<longleftrightarrow> (\<forall>i. fifo_inv (serial_devs s i))"

text \<open>The same facts as destruction rules on results.\<close>

lemma fifo_inv_results:
  "serial8250_update_irq dev h = (dev', h') \<Longrightarrow> fifo_inv dev \<Longrightarrow> fifo_inv dev'"
  "uart_write off c dev h = (r, dev', h') \<Longrightarrow> fifo_inv dev \<Longrightarrow> fifo_inv dev'"
  "uart_read off dev b p = (r, dev', b') \<Longrightarrow> fifo_inv dev \<Longrightarrow> fifo_inv dev'"
  "serial8250__receive con dev h pend sysrq = (dev', h', pend') \<Longrightarrow> fifo_inv dev \<Longrightarrow> fifo_inv dev'"
  using fifo_inv_update_irq [of dev h] fifo_inv_write [of dev off c h] fifo_inv_read [of dev off b p]
    fifo_inv_receive [of dev con h pend sysrq] by simp_all

lemma serial_inv_out: "serial8250_out pr s port b p sz = (r, s', b') \<Longrightarrow> serial_inv s \<Longrightarrow> serial_inv s'"
  by (auto simp: serial8250_out_def serial_inv_def Let_def split: prod.splits dest!: fifo_inv_results)

lemma serial_inv_in: "serial8250_in pr s port b p sz = (r, s', b') \<Longrightarrow> serial_inv s \<Longrightarrow> serial_inv s'"
  by (auto simp: serial8250_in_def serial_inv_def Let_def split: prod.splits dest!: fifo_inv_results)

lemma serial_inv_update_console: "serial_inv s \<Longrightarrow> serial_inv (update_console con i s)"
  by (auto simp: update_console_def serial_inv_def split: prod.splits dest!: fifo_inv_results)

lemma serial_inv_update_consoles: "serial_inv s \<Longrightarrow> serial_inv (serial8250__update_consoles con s)"
  by (simp add: serial8250__update_consoles_def upt_rec serial_inv_update_console)


subsection \<open>What the guest and the host observe\<close>

lemma flush_idle: "txcnt dev = 0 \<Longrightarrow> snd (serial8250_flush_tx dev h) = h"
  by (simp add: serial8250_flush_tx_def Let_def)

lemma flush_tx_sel [simp]:
  "rxbuf (fst (serial8250_flush_tx dev h)) = rxbuf dev"
  "rxcnt (fst (serial8250_flush_tx dev h)) = rxcnt dev"
  "rxdone (fst (serial8250_flush_tx dev h)) = rxdone dev"
  "lcr (fst (serial8250_flush_tx dev h)) = lcr dev"
  "mcr (fst (serial8250_flush_tx dev h)) = mcr dev"
  "txcnt (fst (serial8250_flush_tx dev h)) = 0"
  "irq_state (fst (serial8250_flush_tx dev h)) = irq_state dev"
  "iir (fst (serial8250_flush_tx dev h)) = iir dev"
  by (simp_all add: serial8250_flush_tx_def Let_def)

lemma update_irq_sel:
  "lcr (fst (serial8250_update_irq dev h)) = lcr (handle_clear_tx (handle_clear_rx dev))"
  "rxbuf (fst (serial8250_update_irq dev h)) = rxbuf dev"
  "rxcnt (fst (serial8250_update_irq dev h)) = rxcnt (handle_clear_rx dev)"
  "rxdone (fst (serial8250_update_irq dev h)) = rxdone (handle_clear_rx dev)"
  "mcr (fst (serial8250_update_irq dev h)) = mcr dev"
  "irq_state (fst (serial8250_update_irq dev h)) = pending_iir (handle_clear_tx (handle_clear_rx dev))"
  by (simp_all add: serial8250_update_irq_def Let_def handle_clear_tx_def handle_clear_rx_def)

lemma update_irq_txcnt: "txcnt dev = 0 \<Longrightarrow> txcnt (fst (serial8250_update_irq dev h)) = 0"
  by (simp add: serial8250_update_irq_def Let_def handle_clear_tx_def handle_clear_rx_def)

lemma kvm_irq_line_term [simp]:
  "term_out (kvm__irq_line l v h) = term_out h" "term_in (kvm__irq_line l v h) = term_in h"
  by (simp_all add: kvm__irq_line_def)

lemma update_irq_term_out:
  "txcnt dev = 0 \<Longrightarrow> term_out (snd (serial8250_update_irq dev h)) = term_out h"
  by (simp add: serial8250_update_irq_def Let_def handle_clear_tx_def handle_clear_rx_def flush_idle)

lemma tx_write_txcnt: "txcnt dev = 0 \<Longrightarrow> txcnt (fst (uart_tx_write dev h c)) = 0"
  by (simp add: uart_tx_write_def Let_def rx_push_def FIFO_LEN_def)

lemma tx_write_out:
  assumes "fifo_inv dev" "txcnt dev = 0" "lcr dev AND UART_LCR_DLAB = 0" "mcr dev AND UART_MCR_LOOP = 0"
  shows "snd (uart_tx_write dev h c) = term_putc [c] (dev_id dev) h"
proof -
  have "take (Suc 0) ((txbuf dev)[0 := c]) = [c]"
    using assms(1) by (cases "txbuf dev") (auto simp: fifo_inv_def FIFO_LEN_def)
  with assms show ?thesis
    by (simp add: uart_tx_write_def Let_def serial8250_flush_tx_def FIFO_LEN_def)
qed

text \<open>
  A byte written to the transmit register of an idle port reaches its terminal, in order, and no
  other terminal; the port is idle again.
\<close>

lemma serial_transmit:
  assumes "fifo_inv dev" "txcnt dev = 0" "lcr dev AND UART_LCR_DLAB = 0" "mcr dev AND UART_MCR_LOOP = 0"
    and "dev = serial_devs s pr" "port = iobase dev"
  shows "\<exists>s'. serial8250_out pr s port b p sz = (True, s', b) \<and>
     term_out (host s') = (term_out (host s))(dev_id dev := term_out (host s) (dev_id dev) @ [b p]) \<and>
     txcnt (serial_devs s' pr) = 0"
proof -
  obtain d1 h1 where w: "uart_tx_write dev (host s) (b p) = (d1, h1)" by fastforce
  have h1: "h1 = term_putc [b p] (dev_id dev) (host s)"
    using tx_write_out [OF assms(1-4), of "host s" "b p"] w by simp
  have d1: "txcnt d1 = 0" using tx_write_txcnt [OF assms(2), of "host s" "b p"] w by simp
  obtain d2 h2 where u: "serial8250_update_irq d1 h1 = (d2, h2)" by fastforce
  have "term_out h2 = term_out h1" "txcnt d2 = 0"
    using update_irq_term_out [OF d1, of h1] update_irq_txcnt [OF d1, of h1] u by auto
  then show ?thesis
    using w u h1 assms(5,6) by (simp add: serial8250_out_def uart_write_def Let_def term_putc_def)
qed

lemma rx_push_queue:
  assumes "fifo_inv dev" "rxcnt dev < FIFO_LEN"
  shows "rx_queue (rx_push c dev) = rx_queue dev @ [c]"
  using assms by (auto simp: rx_queue_def rx_push_def fifo_inv_def take_Suc_conv_app_nth)

lemma rx_queue_update_irq:
  assumes "lcr dev AND UART_FCR_CLEAR_RCVR = 0"
  shows "rx_queue (fst (serial8250_update_irq dev h)) = rx_queue dev"
  using assms by (simp add: rx_queue_def update_irq_sel handle_clear_rx_def)

lemma rx_queue_lsr [simp]: "rx_queue (dev\<lparr> lsr := x \<rparr>) = rx_queue dev"
  by (simp add: rx_queue_def)

text \<open>Loopback: a byte written to the transmit register joins the end of the receive queue.\<close>

lemma serial_loopback:
  assumes "fifo_inv dev" "rxcnt dev < FIFO_LEN" "lcr dev AND UART_LCR_DLAB = 0"
    and "lcr dev AND UART_FCR_CLEAR_RCVR = 0" "mcr dev AND UART_MCR_LOOP \<noteq> 0"
    and "dev = serial_devs s pr" "port = iobase dev"
  shows "\<exists>s'. serial8250_out pr s port b p sz = (True, s', b) \<and>
     rx_queue (serial_devs s' pr) = rx_queue dev @ [b p]"
proof -
  let ?d = "(rx_push (b p) dev)\<lparr> lsr := lsr (rx_push (b p) dev) OR UART_LSR_DR \<rparr>"
  obtain d2 h2 where u: "serial8250_update_irq ?d (host s) = (d2, h2)" by fastforce
  have "lcr ?d AND UART_FCR_CLEAR_RCVR = 0" using assms(4) by (simp add: rx_push_def)
  from rx_queue_update_irq [OF this, of "host s"] u rx_push_queue [OF assms(1,2)]
  have "rx_queue d2 = rx_queue dev @ [b p]" by simp
  with u assms show ?thesis
    by (simp add: serial8250_out_def uart_write_def uart_tx_write_def Let_def)
qed

text \<open>Reading the receive register takes the byte at the front of the queue.\<close>

lemma rx_read_queue:
  assumes "fifo_inv dev" "rx_queue dev = c # cs" "lsr dev AND UART_LSR_BI = 0"
  shows "\<exists>dev'. serial8250_rx dev b p = (dev', b(p := c)) \<and> rx_queue dev' = cs \<and> lcr dev' = lcr dev"
proof -
  have lt: "rxdone dev < rxcnt dev" "rxcnt dev \<le> length (rxbuf dev)"
    using assms(1,2) by (cases "rxdone dev = rxcnt dev"; auto simp: fifo_inv_def rx_queue_def)+
  have "rx_queue dev = rxbuf dev ! rxdone dev # drop (Suc (rxdone dev)) (take (rxcnt dev) (rxbuf dev))"
    unfolding rx_queue_def using lt by (subst Cons_nth_drop_Suc [symmetric]) auto
  then have c: "c = rxbuf dev ! rxdone dev" "cs = drop (Suc (rxdone dev)) (take (rxcnt dev) (rxbuf dev))"
    using assms(2) by auto
  show ?thesis using lt assms(3) c by (simp add: serial8250_rx_def Let_def rx_queue_def)
qed

lemma serial_read_front:
  assumes "fifo_inv dev" "rx_queue dev = c # cs" "lsr dev AND UART_LSR_BI = 0"
    and "lcr dev AND UART_LCR_DLAB = 0" "lcr dev AND UART_FCR_CLEAR_RCVR = 0"
    and "dev = serial_devs s pr" "port = iobase dev"
  shows "\<exists>s'. serial8250_in pr s port b p sz = (True, s', b(p := c)) \<and>
     rx_queue (serial_devs s' pr) = cs"
proof -
  obtain d1 where d1: "serial8250_rx dev b p = (d1, b(p := c))" "rx_queue d1 = cs" "lcr d1 = lcr dev"
    using rx_read_queue [OF assms(1-3)] by blast
  obtain d2 h2 where u: "serial8250_update_irq d1 (host s) = (d2, h2)" by fastforce
  have "rx_queue d2 = cs" using rx_queue_update_irq [of d1 "host s"] assms(5) d1 u by simp
  with d1 u assms(4,6,7) show ?thesis
    by (simp add: serial8250_in_def uart_read_def Let_def)
qed


text \<open>
  The interrupt line is driven on edges only: a call is made exactly when the pending state
  changes, with the new level, and the identification register shows what is pending.
\<close>

lemma update_irq_edges:
  assumes "dev' = fst (serial8250_update_irq dev h)" "h' = snd (serial8250_update_irq dev h)"
  shows "irq_line_calls h' =
      irq_line_calls h @
        (if (irq_state dev \<noteq> 0) \<noteq> (irq_state dev' \<noteq> 0) then [(irq dev, irq_state dev' \<noteq> 0)] else []) \<and>
    iir dev' = (if irq_state dev' = 0 then UART_IIR_NO_INT else irq_state dev')"
proof -
  let ?d = "handle_clear_tx (handle_clear_rx dev)"
  have sel: "irq_state ?d = irq_state dev" "irq ?d = irq dev"
    by (simp_all add: handle_clear_tx_def handle_clear_rx_def)
  have flush: "irq_line_calls (snd (serial8250_flush_tx d g)) = irq_line_calls g" for d g
    by (simp add: serial8250_flush_tx_def term_putc_def Let_def)
  show ?thesis
    unfolding assms
    by (simp add: serial8250_update_irq_def Let_def sel flush kvm__irq_line_def)
qed

text \<open>
  The line control register is also where the FIFO-clear bits are looked for: a write of \<open>c\<close> to it
  keeps only \<open>c AND NOT 6\<close>, and bit 1, the low bit of the word length, discards the received bytes.
\<close>

lemma serial_lcr_write:
  assumes "dev = serial_devs s pr" "port = iobase dev + 3"
  shows "\<exists>s'. serial8250_out pr s port b p sz = (True, s', b) \<and>
     lcr (serial_devs s' pr) = b p AND NOT 6 \<and>
     rx_queue (serial_devs s' pr) = (if bit (b p) 1 then [] else rx_queue dev)"
proof -
  let ?d = "dev\<lparr> lcr := b p \<rparr>"
  obtain d2 h2 where u: "serial8250_update_irq ?d (host s) = (d2, h2)" by fastforce
  have b1: "(b p AND UART_FCR_CLEAR_RCVR \<noteq> 0) = bit (b p) 1"
    using and_exp_eq_0_iff_not_bit [of "b p" 1] by (simp add: UART_FCR_CLEAR_RCVR_def)
  have rx: "lcr (handle_clear_rx d) = lcr d AND NOT UART_FCR_CLEAR_RCVR" for d
    by (simp add: handle_clear_rx_def and_not_absorb)
  have tx: "lcr (handle_clear_tx d) = lcr d AND NOT UART_FCR_CLEAR_XMIT" for d
    by (simp add: handle_clear_tx_def and_not_absorb)
  have "lcr (handle_clear_tx (handle_clear_rx ?d)) = b p AND NOT 6"
    unfolding rx tx by (simp add: UART_FCR_CLEAR_RCVR_def UART_FCR_CLEAR_XMIT_def and.assoc)
  then have "lcr d2 = b p AND NOT 6" using u update_irq_sel(1) [of ?d "host s"] by simp
  moreover have "rx_queue d2 = (if bit (b p) 1 then [] else rx_queue dev)"
    using u update_irq_sel(2-4) [of ?d "host s"] b1
    by (auto simp: rx_queue_def handle_clear_rx_def)
  ultimately show ?thesis
    using u assms by (simp add: serial8250_out_def uart_write_def Let_def)
qed

text \<open>The FIFO control register stores its value; its clear bits have no effect on the FIFOs.\<close>

lemma serial_fcr_write:
  assumes "dev = serial_devs s pr" "port = iobase dev + 2" "lcr dev AND UART_FCR_CLEAR_RCVR = 0"
  shows "\<exists>s'. serial8250_out pr s port b p sz = (True, s', b) \<and>
     rx_queue (serial_devs s' pr) = rx_queue dev"
proof -
  let ?d = "dev\<lparr> fcr := b p \<rparr>"
  obtain d2 h2 where u: "serial8250_update_irq ?d (host s) = (d2, h2)" by fastforce
  have "rx_queue d2 = rx_queue dev"
    using rx_queue_update_irq [of ?d "host s"] u assms(3) by (simp add: rx_queue_def)
  then show ?thesis using u assms by (simp add: serial8250_out_def uart_write_def Let_def)
qed

text \<open>Host input: without escape characters the port takes as many bytes as fit, in order.\<close>

lemma receive_loop_queue:
  assumes "fifo_inv dev" "\<not> term_got_escape h" "term_escape_char \<notin> set (term_in h (dev_id dev))"
  shows "rx_queue (fst (receive_loop dev h)) =
           rx_queue dev @ take (FIFO_LEN - rxcnt dev) (term_in h (dev_id dev)) \<and>
         term_in (snd (receive_loop dev h)) (dev_id dev) =
           drop (FIFO_LEN - rxcnt dev) (term_in h (dev_id dev))"
  using assms
proof (induction dev h rule: receive_loop.induct)
  case (1 dev h)
  show ?case
  proof (cases "term_in h (dev_id dev) = [] \<or> FIFO_LEN \<le> rxcnt dev")
    case True
    then show ?thesis by (subst (1 2) receive_loop.simps) (auto simp: term_readable_def)
  next
    case False
    then obtain c cs where inp: "term_in h (dev_id dev) = c # cs" and lt: "rxcnt dev < FIFO_LEN"
      by (cases "term_in h (dev_id dev)") auto
    let ?h = "h\<lparr> term_in := (term_in h)(dev_id dev := cs) \<rparr>"
    let ?d = "(rx_push c dev)\<lparr> lsr := lsr (rx_push c dev) OR UART_LSR_DR \<rparr>"
    have get: "term_getc h (dev_id dev) = (uint c, ?h)"
      using 1(3,4) inp by (auto simp: term_getc_def Let_def)
    have step: "receive_loop dev h = receive_loop ?d ?h"
      using inp lt get by (subst receive_loop.simps) (simp add: term_readable_def Let_def)
    have sel: "dev_id ?d = dev_id dev" "rxcnt ?d = Suc (rxcnt dev)" by (simp_all add: rx_push_def)
    have "rx_queue (fst (receive_loop ?d ?h)) =
        rx_queue ?d @ take (FIFO_LEN - rxcnt ?d) (term_in ?h (dev_id ?d)) \<and>
      term_in (snd (receive_loop ?d ?h)) (dev_id ?d) = drop (FIFO_LEN - rxcnt ?d) (term_in ?h (dev_id ?d))"
      using 1(1) [of "uint c" ?h "rx_push c dev"] 1(2-4) inp lt get
        fifo_inv_push [OF 1(2) lt] sel
      by (simp add: term_readable_def)
    then show ?thesis
      using step sel rx_push_queue [OF 1(2) lt, of c] inp lt
      by (simp add: Suc_diff_Suc [symmetric])
  qed
qed

subsection \<open>The handlers stay within their buffer\<close>

interpretation serial_out_handler: io_handler serial8250_out "UNIV"
  by unfold_locales (auto simp: serial8250_out_def Let_def split: prod.splits)

lemma uart_read_frame: "uart_read off dev b p = (r, dev', b') \<Longrightarrow> i \<noteq> p \<Longrightarrow> b' i = b i"
  by (auto simp: uart_read_def serial8250_rx_def Let_def split: if_splits)

interpretation serial_in_handler: io_handler serial8250_in "{n. 0 < n}"
proof
  fix pr s port b p sz r s' b' i
  assume h: "serial8250_in pr s port b p sz = (r, s', b')" and "sz \<in> {n. 0 < n}" "i < p \<or> p + sz \<le> i"
  then have "i \<noteq> p" by auto
  then show "b' i = b i"
    using h uart_read_frame by (auto simp: serial8250_in_def Let_def split: prod.splits)
qed

subsection \<open>Reachable states\<close>

text \<open>
  What holds of a port between any two operations: the FIFO invariant, an idle transmitter (every
  byte is flushed in the write that queues it) and a data-ready bit that tells the truth.
\<close>

definition uart_ok :: "serial8250_device \<Rightarrow> bool" where
  "uart_ok dev \<longleftrightarrow> fifo_inv dev \<and> txcnt dev = 0 \<and> bit (lsr dev) 5 \<and> bit (lsr dev) 6 \<and>
     (bit (lsr dev) 0 \<longleftrightarrow> rxdone dev < rxcnt dev) \<and> (rxdone dev = rxcnt dev \<longrightarrow> rxcnt dev = 0)"

lemma uart_ok_initial: "i < 4 \<Longrightarrow> uart_ok (serial_devices ! i)"
  by (auto simp: uart_ok_def fifo_inv_def serial_devices_def serial_device_def nth_Cons uart_defs
      bit_simps split: nat.splits)

lemma bit_lsr_consts [simp]:
  "bit (UART_LSR_TEMT) k \<longleftrightarrow> k = 6" "bit (UART_LSR_THRE) k \<longleftrightarrow> k = 5"
  "bit (UART_LSR_DR) k \<longleftrightarrow> k = 0" "bit (UART_LSR_BI) k \<longleftrightarrow> k = 4"
proof -
  have e: "UART_LSR_TEMT = 2 ^ 6" "UART_LSR_THRE = 2 ^ 5" "UART_LSR_DR = 2 ^ 0"
    "UART_LSR_BI = 2 ^ 4" by (simp_all add: uart_defs)
  show "bit (UART_LSR_TEMT) k \<longleftrightarrow> k = 6" "bit (UART_LSR_THRE) k \<longleftrightarrow> k = 5"
    "bit (UART_LSR_DR) k \<longleftrightarrow> k = 0" "bit (UART_LSR_BI) k \<longleftrightarrow> k = 4"
    unfolding e bit_exp_iff by auto
qed

lemma uart_ok_flush: "uart_ok dev \<Longrightarrow> serial8250_flush_tx dev h = (dev', h') \<Longrightarrow> uart_ok dev'"
  by (auto simp: uart_ok_def serial8250_flush_tx_def Let_def bit_simps)

lemma uart_ok_clear: "uart_ok dev \<Longrightarrow> uart_ok (handle_clear_tx (handle_clear_rx dev))"
  by (auto simp: uart_ok_def handle_clear_tx_def handle_clear_rx_def bit_simps fifo_inv_def)

lemma uart_ok_update_irq: "uart_ok dev \<Longrightarrow> uart_ok (fst (serial8250_update_irq dev h))"
proof -
  assume ok: "uart_ok dev"
  let ?d = "handle_clear_tx (handle_clear_rx dev)"
  have "uart_ok (?d\<lparr> iir := x, irq_state := y \<rparr>)" for x y
    using uart_ok_clear [OF ok] by (simp add: uart_ok_def fifo_inv_def)
  then show ?thesis
    by (auto simp: serial8250_update_irq_def Let_def dest!: uart_ok_flush
        split: if_splits) (metis prod.collapse uart_ok_flush)+
qed

lemma uart_ok_push:
  assumes "uart_ok dev" "rxcnt dev < FIFO_LEN"
  shows "uart_ok ((rx_push c dev)\<lparr> lsr := lsr dev OR UART_LSR_DR \<rparr>)"
    and "uart_ok (rx_push c (dev\<lparr> lsr := lsr dev OR (UART_LSR_DR OR UART_LSR_BI) \<rparr>))"
  using assms by (auto simp: uart_ok_def rx_push_def fifo_inv_def bit_simps)

lemma lsr_rx_push [simp]: "lsr (rx_push c dev) = lsr dev"
  by (simp add: rx_push_def)

lemma uart_ok_receive_loop: "uart_ok dev \<Longrightarrow> uart_ok (fst (receive_loop dev h))"
proof (induction dev h rule: receive_loop.induct)
  case (1 dev h)
  show ?case
    using 1 uart_ok_push(1) [OF 1(2)]
    by (subst receive_loop.simps) (auto split: prod.splits simp: Let_def)
qed

lemma uart_ok_receive: "uart_ok dev \<Longrightarrow> uart_ok (fst (serial8250__receive con dev h pend sysrq))"
  using uart_ok_receive_loop [of dev h] uart_ok_push(2) [of dev pend]
  by (auto simp: serial8250__receive_def serial8250__sysrq_def FIFO_LEN_def split: prod.splits)

lemma uart_ok_tx_write: "uart_ok dev \<Longrightarrow> uart_ok (fst (uart_tx_write dev h c))"
proof -
  assume ok: "uart_ok dev"
  then have tx: "txcnt dev = 0" "fifo_inv dev" by (simp_all add: uart_ok_def)
  have upd: "uart_ok (dev\<lparr> dll := x \<rparr>)" for x using ok by (simp add: uart_ok_def fifo_inv_def)
  show ?thesis
    using ok tx upd uart_ok_push(1) [OF ok, of c]
    by (auto simp: uart_tx_write_def Let_def serial8250_flush_tx_def FIFO_LEN_def)
      (auto simp: uart_ok_def fifo_inv_def bit_simps FIFO_LEN_def)
qed

lemma uart_ok_write: "uart_ok dev \<Longrightarrow> uart_ok (fst (snd (uart_write off c dev h)))"
  using uart_ok_tx_write [of dev h c]
  by (auto simp: uart_write_def) (auto simp: uart_ok_def fifo_inv_def)

lemma uart_ok_read: "uart_ok dev \<Longrightarrow> uart_ok (fst (snd (uart_read off dev b p)))"
  by (auto simp: uart_read_def serial8250_rx_def Let_def)
    (auto simp: uart_ok_def fifo_inv_def bit_simps)

lemma uart_ok_results:
  "serial8250_update_irq dev h = (dev', h') \<Longrightarrow> uart_ok dev \<Longrightarrow> uart_ok dev'"
  "uart_write off c dev h = (r, dev', h') \<Longrightarrow> uart_ok dev \<Longrightarrow> uart_ok dev'"
  "uart_read off dev b p = (r, dev', b') \<Longrightarrow> uart_ok dev \<Longrightarrow> uart_ok dev'"
  "serial8250__receive con dev h pend sysrq = (dev', h', pend') \<Longrightarrow> uart_ok dev \<Longrightarrow> uart_ok dev'"
  using uart_ok_update_irq [of dev h] uart_ok_write [of dev off c h] uart_ok_read [of dev off b p]
    uart_ok_receive [of dev con h pend sysrq] by simp_all

text \<open>
  The operations on the serial state: guest accesses to a port, the console poll, a pending system
  request, and a host that adds input at any time.
\<close>

inductive serial_step :: "serial_state \<Rightarrow> serial_state \<Rightarrow> bool" where
  guest_out: "serial8250_out pr s port b p sz = (r, s', b') \<Longrightarrow> serial_step s s'"
| guest_in: "serial8250_in pr s port b p sz = (r, s', b') \<Longrightarrow> serial_step s s'"
| consoles: "serial_step s (serial8250__update_consoles con s)"
| sysrq: "serial_step s (serial8250__inject_sysrq s c)"
| host_input: "serial_step s (s\<lparr> host := (host s)\<lparr> term_in := input \<rparr> \<rparr>)"

inductive serial_reachable :: "serial_state \<Rightarrow> bool" where
  start: "(\<And>i. serial_devs s i = serial_devices ! (i mod 4)) \<Longrightarrow> serial_reachable s"
| step: "serial_reachable s \<Longrightarrow> serial_step s s' \<Longrightarrow> serial_reachable s'"

lemma uart_ok_update_console:
  "\<forall>i. uart_ok (serial_devs s i) \<Longrightarrow> \<forall>i. uart_ok (serial_devs (update_console con j s) i)"
  by (auto simp: update_console_def split: prod.splits dest!: uart_ok_results)

lemma uart_ok_step:
  "serial_step s s' \<Longrightarrow> \<forall>i. uart_ok (serial_devs s i) \<Longrightarrow> \<forall>i. uart_ok (serial_devs s' i)"
proof (induction rule: serial_step.induct)
  case (guest_out pr s port b p sz r s' b')
  then show ?case
    by (auto simp: serial8250_out_def Let_def split: prod.splits dest!: uart_ok_results)
next
  case (guest_in pr s port b p sz r s' b')
  then show ?case
    by (auto simp: serial8250_in_def Let_def split: prod.splits dest!: uart_ok_results)
next
  case (consoles s con)
  then show ?case by (simp add: serial8250__update_consoles_def upt_rec uart_ok_update_console)
qed (simp_all add: serial8250__inject_sysrq_def)

subsection \<open>Claims\<close>

text \<open>
  C2: in every reachable state of the four ports, whatever the guest and the host did, the FIFO indices are
  in bounds, no byte is left in the transmit FIFO, the transmitter reads as empty, and the data-ready
  bit is set exactly when there is a byte to read.
\<close>

theorem serial_reachable_ok:
  assumes "serial_reachable s"
  shows "rxdone (serial_devs s i) \<le> rxcnt (serial_devs s i) \<and> rxcnt (serial_devs s i) \<le> length (rxbuf (serial_devs s i)) \<and>
     txcnt (serial_devs s i) = 0 \<and> lsr (serial_devs s i) AND 0x60 = 0x60 \<and>
     (bit (lsr (serial_devs s i)) 0 \<longleftrightarrow> rx_queue (serial_devs s i) \<noteq> [])"
proof -
  have "\<forall>i. uart_ok (serial_devs s i)"
    using assms
  proof (induction rule: serial_reachable.induct)
    case (start s)
    then show ?case using uart_ok_initial by simp
  next
    case (step s s')
    then show ?case using uart_ok_step by blast
  qed
  then have ok: "uart_ok (serial_devs s i)" by simp
  have "lsr (serial_devs s i) AND 0x60 = 0x60"
  proof (rule bit_eqI)
    fix k
    have e: "(0x60 :: u8) = UART_LSR_TEMT OR UART_LSR_THRE" by (simp add: uart_defs)
    show "bit (lsr (serial_devs s i) AND 0x60) k = bit (0x60 :: u8) k"
      unfolding e using ok by (auto simp: uart_ok_def bit_simps)
  qed
  then show ?thesis using ok by (auto simp: uart_ok_def fifo_inv_def rx_queue_def)
qed

definition serial_start :: serial_state where
  "serial_start = \<lparr> serial_devs = (\<lambda>i. serial_devices ! (i mod 4)),
     host = \<lparr> term_in = (\<lambda>_. []), term_out = (\<lambda>_. []), term_got_escape = False, reboots = 0, irq_line_calls = [] \<rparr>,
     sysrq_pending = 0 \<rparr>"

theorem serial_reachable_ok_witness:
  "rxcnt (serial_devs (serial8250__inject_sysrq serial_start 99) 2) \<le> 64 \<and>
   lsr (serial_devs (serial8250__inject_sysrq serial_start 99) 2) AND 0x60 = 0x60"
proof -
  have "serial_reachable serial_start" by (rule serial_reachable.start) (simp add: serial_start_def)
  then have "serial_reachable (serial8250__inject_sysrq serial_start 99)"
    by (rule serial_reachable.step) (rule serial_step.sysrq)
  from serial_reachable_ok [OF this, of 2] show ?thesis
    by (simp add: serial8250__inject_sysrq_def serial_start_def serial_devices_def serial_device_def)
qed

text \<open>
  C34: the interrupt line is driven on changes only: one call with the new level when the pending
  state changes between none and some, no call otherwise, and the IIR shows the pending cause.
\<close>

theorem serial_irq_edges:
  assumes "serial8250_update_irq dev h = (dev', h')"
  shows "irq_line_calls h' =
      irq_line_calls h @
        (if (irq_state dev \<noteq> 0) \<noteq> (irq_state dev' \<noteq> 0) then [(irq dev, irq_state dev' \<noteq> 0)] else []) \<and>
    iir dev' = (if irq_state dev' = 0 then UART_IIR_NO_INT else irq_state dev')"
  by (rule update_irq_edges) (simp_all add: assms)

theorem serial_irq_edges_witness:
  "irq_line_calls (snd (serial8250_update_irq ((serial_devices ! 0)\<lparr> ier := 2 \<rparr>) (host serial_start))) = [(4, True)]"
  using serial_irq_edges [of "(serial_devices ! 0)\<lparr> ier := 2 \<rparr>" "host serial_start", OF prod.collapse [symmetric]]
  by (simp add: serial_devices_def serial_device_def serial_start_def serial8250_update_irq_def Let_def
      handle_clear_rx_def handle_clear_tx_def pending_iir_def uart_defs kvm__irq_line_def)

text \<open>
  C35: host input without escape characters is taken in order, as many bytes as the FIFO has room for,
  and the rest stays on the terminal.
\<close>

theorem serial_receive_order:
  assumes "fifo_inv dev" "\<not> term_got_escape h" "term_escape_char \<notin> set (term_in h (dev_id dev))"
    and "receive_loop dev h = (dev', h')"
  shows "rx_queue dev' = rx_queue dev @ take (FIFO_LEN - rxcnt dev) (term_in h (dev_id dev)) \<and>
         term_in h' (dev_id dev) = drop (FIFO_LEN - rxcnt dev) (term_in h (dev_id dev))"
  using receive_loop_queue [OF assms(1-3)] assms(4) by simp

theorem serial_receive_order_witness:
  "rx_queue (fst (receive_loop (serial_devices ! 0) ((host serial_start)\<lparr> term_in := (\<lambda>_. [104, 105]) \<rparr>))) = [104, 105]"
  using serial_receive_order [OF fifo_inv_initial [of 0] _ _ prod.collapse [symmetric],
      of "(host serial_start)\<lparr> term_in := (\<lambda>_. [104, 105]) \<rparr>"]
  by (simp add: serial_start_def serial_devices_def serial_device_def term_escape_char_def rx_queue_def FIFO_LEN_def)

lemma serial_loop_inv:
  assumes "emulate_io_loop e port KVM_EXIT_IO_IN sz n r0 st b p = (r, st', b')"
    and "io_in (ops e) = Some serial8250_in" "serial_inv st"
  shows "serial_inv st'"
  using assms(1,3)
proof (induction n arbitrary: r0 st b p)
  case (Suc n)
  obtain r1 st1 b1 where h: "serial8250_in (priv e) st port b p sz = (r1, st1, b1)"
    by (cases "serial8250_in (priv e) st port b p sz") auto
  have "emulate_io_loop e port KVM_EXIT_IO_IN sz n r1 st1 b1 (p + sz) = (r, st', b')"
    using Suc.prems(1) h assms(2) by (auto simp: KVM_EXIT_IO_IN_def)
  then show ?case using Suc.IH serial_inv_in [OF h Suc.prems(2)] by blast
qed simp

text \<open>
  C27: a guest's string input from a serial port, through the port dispatcher, changes the buffer only
  within the bytes of the transfer and keeps every port's FIFO invariant.
\<close>

theorem serial_string_input:
  assumes "rb_int_inv t" "e \<in> set (inorder t)" "in_int e (ucast port)" "ops (entry e) = serial8250_ops"
    and "0 < sz" "serial_inv st"
    and "kvm__emulate_io dbg t st port b KVM_EXIT_IO_IN sz count = (r, st', b')"
  shows "serial_inv st' \<and> (\<forall>i. unat count * sz \<le> i \<longrightarrow> b' i = b i)"
proof -
  obtain ret where loop: "emulate_io_loop (entry e) port KVM_EXIT_IO_IN sz (unat count) False st b 0 = (ret, st', b')"
    using assms(7) unfolding emulate_io_claimed [OF assms(1-3)] by (auto split: prod.splits)
  have h: "io_in (ops (entry e)) = Some serial8250_in" using assms(4) by (simp add: serial8250_ops_def)
  then show ?thesis
    using serial_in_handler.loop_frame [OF loop] serial_loop_inv [OF loop _ assms(6)] assms(5) by auto
qed

definition serial_tree :: "serial_state ioport rb_int_node rbt" where
  "serial_tree = Node RB_BLACK Leaf (ioport_entry 0x3f8 serial8250_ops 8 0 9) Leaf"

theorem serial_string_input_witness:
  "snd (snd (kvm__emulate_io False serial_tree serial_start 0x3fd (\<lambda>_. 7) KVM_EXIT_IO_IN 1 3)) 3 = 7"
proof -
  let ?e = "ioport_entry 0x3f8 serial8250_ops 8 0 9"
  have "rb_int_inv serial_tree" "?e \<in> set (inorder serial_tree)" "in_int ?e (ucast (0x3fd :: u16))"
    by (simp_all add: serial_tree_def rb_int_inv_def rb_inv_def int_ok_def in_int_def ioport_entry_def)
  moreover have "serial_inv serial_start"
    using fifo_inv_initial by (simp add: serial_inv_def serial_start_def)
  moreover obtain r st' b' where
    r: "kvm__emulate_io False serial_tree serial_start 0x3fd (\<lambda>_. 7) KVM_EXIT_IO_IN 1 3 = (r, st', b')"
    by (cases "kvm__emulate_io False serial_tree serial_start 0x3fd (\<lambda>_. 7) KVM_EXIT_IO_IN 1 3") auto
  moreover have "ops (entry ?e) = serial8250_ops" by (simp add: ioport_entry_def)
  ultimately show ?thesis using serial_string_input [OF _ _ _ _ _ _ r] by simp
qed

end
