(* ===== verification/Ring_Queue.thy ===== *)
theory Ring_Queue
  imports Kvmc_Prelude
begin

section \<open>Bounded queues\<close>

text \<open>
  The contract of a bounded first-in first-out queue inside a larger state: the pushes that find
  room appear in order, a push on a full queue changes nothing, and a pop takes the front. Below it,
  the list that a ring buffer with free-running read and write counters stands for.
\<close>

locale bounded_fifo =
  fixes inv :: "'s \<Rightarrow> bool"
    and contents :: "'s \<Rightarrow> 'a list"
    and push :: "'a \<Rightarrow> 's \<Rightarrow> 's"
    and pop :: "'s \<Rightarrow> 'a \<times> 's"
    and capacity :: nat
  assumes push_room: "inv s \<Longrightarrow> length (contents s) < capacity \<Longrightarrow>
      inv (push c s) \<and> contents (push c s) = contents s @ [c]"
    and push_full: "inv s \<Longrightarrow> length (contents s) = capacity \<Longrightarrow> push c s = s"
    and bounded: "inv s \<Longrightarrow> length (contents s) \<le> capacity"
    and pop_front: "inv s \<Longrightarrow> contents s = c # cs \<Longrightarrow>
      fst (pop s) = c \<and> inv (snd (pop s)) \<and> contents (snd (pop s)) = cs"
begin

lemma push_inv: "inv s \<Longrightarrow> inv (push c s)"
  using push_room [of s c] push_full [of s c] bounded [of s] by (cases "length (contents s) = capacity") auto

lemma push_contents:
  "inv s \<Longrightarrow> contents (push c s) = take capacity (contents s @ [c])"
  using push_room [of s c] push_full [of s c] bounded [of s] by (cases "length (contents s) = capacity") auto

lemma pushes_contents:
  "inv s \<Longrightarrow> inv (fold push cs s) \<and> contents (fold push cs s) = take capacity (contents s @ cs)"
proof (induction cs arbitrary: s)
  case Nil
  then show ?case using bounded by simp
next
  case (Cons c cs)
  have "take capacity (take capacity (contents s @ [c]) @ cs) = take capacity (contents s @ c # cs)"
    using bounded [OF Cons.prems] by (cases "length (contents s) = capacity") auto
  with Cons.IH [OF push_inv [OF Cons.prems]] push_contents [OF Cons.prems] show ?case by simp
qed

fun pops :: "nat \<Rightarrow> 's \<Rightarrow> 'a list \<times> 's" where
  "pops 0 s = ([], s)"
| "pops (Suc n) s = (case pop s of (c, s) \<Rightarrow> case pops n s of (cs, s) \<Rightarrow> (c # cs, s))"

lemma pops_contents:
  "inv s \<Longrightarrow> n \<le> length (contents s) \<Longrightarrow>
     fst (pops n s) = take n (contents s) \<and> inv (snd (pops n s)) \<and>
     contents (snd (pops n s)) = drop n (contents s)"
proof (induction n arbitrary: s)
  case 0
  then show ?case by simp
next
  case (Suc n)
  then obtain c cs where cs: "contents s = c # cs" by (cases "contents s") auto
  obtain s' where p: "pop s = (c, s')" "inv s'" "contents s' = cs"
    using pop_front [OF Suc.prems(1) cs] by (cases "pop s") auto
  with Suc.IH [OF p(2)] Suc.prems(2) cs show ?case by (auto split: prod.splits)
qed

text \<open>What is pushed on an empty queue is popped in the same order.\<close>

lemma fifo_order:
  assumes "inv s" "contents s = []" "length cs \<le> capacity"
  shows "fst (pops (length cs) (fold push cs s)) = cs"
  using pushes_contents [OF assms(1), of cs] pops_contents [of "fold push cs s" "length cs"] assms
  by simp

end


subsection \<open>Ring buffers\<close>

definition ring_list :: "nat \<Rightarrow> 'a list \<Rightarrow> nat \<Rightarrow> nat \<Rightarrow> 'a list" where
  "ring_list N q rd n = map (\<lambda>i. q ! ((rd + i) mod N)) [0..<n]"

lemma length_ring_list [simp]: "length (ring_list N q rd n) = n"
  by (simp add: ring_list_def)

lemma ring_list_pop: "ring_list N q rd (Suc n) = q ! (rd mod N) # ring_list N q (Suc rd) n"
  by (simp add: ring_list_def upt_conv_Cons map_Suc_upt [symmetric] del: upt_Suc)

lemma ring_slot_distinct:
  fixes rd n i N :: nat
  assumes "n < N" "i < n"
  shows "(rd + i) mod N \<noteq> (rd + n) mod N"
proof
  assume "(rd + i) mod N = (rd + n) mod N"
  then have "N dvd (rd + n) - (rd + i)"
    using assms mod_eq_dvd_iff_nat [of "rd + i" "rd + n" N] by simp
  then have "N dvd n - i" by simp
  with assms show False by (auto dest: dvd_imp_le)
qed

lemma ring_list_push:
  assumes "length q = N" "n < N"
  shows "ring_list N (q[(rd + n) mod N := c]) rd (Suc n) = ring_list N q rd n @ [c]"
  using assms ring_slot_distinct [OF assms(2), of _ rd, symmetric]
  by (auto simp: ring_list_def nth_list_update intro!: map_cong)

end
