(* ===== verification/I8042.thy ===== *)
theory I8042
  imports Io_Bus Ring_Queue
begin

section \<open>The i8042 keyboard and mouse controller (hw/i8042.c)\<close>

text \<open>
  The file-scope \<^verbatim>\<open>struct kbd_state\<close> is a record; \<open>irq_calls\<close> collects the calls of
  \<^verbatim>\<open>kvm__irq_line\<close> and \<open>reboots\<close> those of \<^verbatim>\<open>kvm__reboot\<close>. The counters \<open>kread\<close>, \<open>kwrite\<close>, \<open>mread\<close>,
  \<open>mwrite\<close> run freely and index the queues modulo their size. \<open>beyond i\<close> is the byte that C finds at
  index \<open>i\<close> past the end of the keyboard queue.
\<close>

definition QUEUE_SIZE :: nat where "QUEUE_SIZE = 128"
definition KBD_IRQ :: u8 where "KBD_IRQ = 1"
definition AUX_IRQ :: u8 where "AUX_IRQ = 12"
definition I8042_DATA_REG :: u16 where "I8042_DATA_REG = 0x60"
definition I8042_PORT_B_REG :: u16 where "I8042_PORT_B_REG = 0x61"
definition I8042_COMMAND_REG :: u16 where "I8042_COMMAND_REG = 0x64"
definition I8042_CMD_CTL_RCTR :: u8 where "I8042_CMD_CTL_RCTR = 0x20"
definition I8042_CMD_CTL_WCTR :: u8 where "I8042_CMD_CTL_WCTR = 0x60"
definition I8042_CMD_AUX_LOOP :: u8 where "I8042_CMD_AUX_LOOP = 0xD3"
definition I8042_CMD_AUX_SEND :: u8 where "I8042_CMD_AUX_SEND = 0xD4"
definition I8042_CMD_AUX_TEST :: u8 where "I8042_CMD_AUX_TEST = 0xA9"
definition I8042_CMD_AUX_DISABLE :: u8 where "I8042_CMD_AUX_DISABLE = 0xA7"
definition I8042_CMD_AUX_ENABLE :: u8 where "I8042_CMD_AUX_ENABLE = 0xA8"
definition I8042_CMD_SYSTEM_RESET :: u8 where "I8042_CMD_SYSTEM_RESET = 0xFE"
definition RESPONSE_ACK :: u8 where "RESPONSE_ACK = 0xFA"
definition MODE_DISABLE_AUX :: u8 where "MODE_DISABLE_AUX = 0x20"
definition AUX_ENABLE_REPORTING :: u8 where "AUX_ENABLE_REPORTING = 0x20"
definition AUX_SCALING_FLAG :: u8 where "AUX_SCALING_FLAG = 0x10"
definition AUX_DEFAULT_RESOLUTION :: u8 where "AUX_DEFAULT_RESOLUTION = 0x2"
definition AUX_DEFAULT_SAMPLE :: u8 where "AUX_DEFAULT_SAMPLE = 100"
definition I8042_STR_AUXDATA :: u8 where "I8042_STR_AUXDATA = 0x20"
definition I8042_STR_OBF :: u8 where "I8042_STR_OBF = 0x01"

lemmas i8042_cmd_defs =
  I8042_CMD_CTL_RCTR_def I8042_CMD_CTL_WCTR_def I8042_CMD_AUX_LOOP_def I8042_CMD_AUX_SEND_def
  I8042_CMD_AUX_TEST_def I8042_CMD_AUX_DISABLE_def I8042_CMD_AUX_ENABLE_def
  I8042_CMD_SYSTEM_RESET_def

record kbd_state =
  kq :: "u8 list"
  kread :: nat
  kwrite :: nat
  kcount :: nat
  mq :: "u8 list"
  mread :: nat
  mwrite :: nat
  mcount :: nat
  mstatus :: u8
  mres :: u8
  msample :: u8
  mode :: u8
  status :: u8
  write_cmd :: u32
  irq_calls :: "(u8 \<times> bool) list"
  kbd_reboots :: nat

definition kbd_irq_line :: "u8 \<Rightarrow> bool \<Rightarrow> kbd_state \<Rightarrow> kbd_state" where
  "kbd_irq_line line level s = s\<lparr> irq_calls := irq_calls s @ [(line, level)] \<rparr>"

definition kbd_update_irq :: "kbd_state \<Rightarrow> kbd_state" where
  "kbd_update_irq s =
     (let s = s\<lparr> status := status s AND NOT (I8042_STR_OBF OR I8042_STR_AUXDATA) \<rparr>;
          klevel = kcount s > 0;
          s = (if klevel then s\<lparr> status := status s OR I8042_STR_OBF \<rparr> else s);
          mlevel = (\<not> klevel \<and> mcount s \<noteq> 0);
          s = (if mlevel then s\<lparr> status := status s OR (I8042_STR_OBF OR I8042_STR_AUXDATA) \<rparr> else s)
      in kbd_irq_line AUX_IRQ mlevel (kbd_irq_line KBD_IRQ klevel s))"

definition mouse_queue :: "u8 \<Rightarrow> kbd_state \<Rightarrow> kbd_state" where
  "mouse_queue c s =
     (if mcount s \<ge> QUEUE_SIZE then s
      else kbd_update_irq (s\<lparr> mq := (mq s)[mwrite s mod QUEUE_SIZE := c], mwrite := mwrite s + 1,
                              mcount := mcount s + 1 \<rparr>))"

definition kbd_queue :: "u8 \<Rightarrow> kbd_state \<Rightarrow> kbd_state" where
  "kbd_queue c s =
     (if kcount s \<ge> QUEUE_SIZE then s
      else kbd_update_irq (s\<lparr> kq := (kq s)[kwrite s mod QUEUE_SIZE := c], kwrite := kwrite s + 1,
                              kcount := kcount s + 1 \<rparr>))"

definition kbd_write_command :: "u8 \<Rightarrow> kbd_state \<Rightarrow> kbd_state" where
  "kbd_write_command val s =
     (if val = I8042_CMD_CTL_RCTR then kbd_queue (mode s) s
      else if val = I8042_CMD_CTL_WCTR \<or> val = I8042_CMD_AUX_SEND \<or> val = I8042_CMD_AUX_LOOP
        then s\<lparr> write_cmd := ucast val \<rparr>
      else if val = I8042_CMD_AUX_TEST then mouse_queue 0 s
      else if val = I8042_CMD_AUX_DISABLE then s\<lparr> mode := mode s OR MODE_DISABLE_AUX \<rparr>
      else if val = I8042_CMD_AUX_ENABLE then s\<lparr> mode := mode s AND NOT MODE_DISABLE_AUX \<rparr>
      else if val = I8042_CMD_SYSTEM_RESET then s\<lparr> kbd_reboots := kbd_reboots s + 1 \<rparr>
      else s)"

definition kq_at :: "(nat \<Rightarrow> u8) \<Rightarrow> kbd_state \<Rightarrow> nat \<Rightarrow> u8" where
  "kq_at beyond s i = (if i < QUEUE_SIZE then kq s ! i else beyond i)"

definition kbd_read_data :: "(nat \<Rightarrow> u8) \<Rightarrow> kbd_state \<Rightarrow> u32 \<times> kbd_state" where
  "kbd_read_data beyond s =
     (if kcount s \<noteq> 0 then
        let ret = kq s ! (kread s mod QUEUE_SIZE);
            s = s\<lparr> kread := kread s + 1, kcount := kcount s - 1 \<rparr> in
        (scast ret, kbd_update_irq (kbd_irq_line KBD_IRQ False s))
      else if mcount s > 0 then
        let ret = mq s ! (mread s mod QUEUE_SIZE);
            s = s\<lparr> mread := mread s + 1, mcount := mcount s - 1 \<rparr> in
        (scast ret, kbd_update_irq (kbd_irq_line AUX_IRQ False s))
      else
        let i = (if kread s = 0 then QUEUE_SIZE else kread s - 1) in
        (scast (kq_at beyond s i), s))"

definition kbd_read_status :: "kbd_state \<Rightarrow> u32" where
  "kbd_read_status s = ucast (status s)"

text \<open>The inner switch: a command for the mouse.\<close>

definition aux_send :: "u32 \<Rightarrow> kbd_state \<Rightarrow> kbd_state" where
  "aux_send val s =
     (if val = 0xe6 then s\<lparr> mstatus := mstatus s AND NOT AUX_SCALING_FLAG \<rparr>
      else if val = 0xe8 then s\<lparr> mres := ucast val \<rparr>
      else if val = 0xe9 then mouse_queue (msample s) (mouse_queue (mres s) (mouse_queue (mstatus s) s))
      else if val = 0xf2 then mouse_queue 0 s
      else if val = 0xf3 then s\<lparr> msample := ucast val \<rparr>
      else if val = 0xf4 then s\<lparr> mstatus := mstatus s OR AUX_ENABLE_REPORTING \<rparr>
      else if val = 0xf5 then s\<lparr> mstatus := mstatus s AND NOT AUX_ENABLE_REPORTING \<rparr>
      else if val = 0xf6 \<or> val = 0xff
        then s\<lparr> mstatus := 0, mres := AUX_DEFAULT_RESOLUTION, msample := AUX_DEFAULT_SAMPLE \<rparr>
      else s)"

definition kbd_write_data :: "u32 \<Rightarrow> kbd_state \<Rightarrow> kbd_state" where
  "kbd_write_data val s =
     (let s =
        (if write_cmd s = ucast I8042_CMD_CTL_WCTR then kbd_update_irq (s\<lparr> mode := ucast val \<rparr>)
         else if write_cmd s = ucast I8042_CMD_AUX_LOOP
           then mouse_queue RESPONSE_ACK (mouse_queue (ucast val) s)
         else if write_cmd s = ucast I8042_CMD_AUX_SEND
           then aux_send val (mouse_queue RESPONSE_ACK s)
         else if write_cmd s = 0
           then kbd_update_irq (kbd_queue 0x41 (kbd_queue 0xab (kbd_queue RESPONSE_ACK s)))
         else s)
      in s\<lparr> write_cmd := 0 \<rparr>)"

definition kbd_reset :: kbd_state where
  "kbd_reset =
     \<lparr> kq = replicate QUEUE_SIZE 0, kread = 0, kwrite = 0, kcount = 0,
       mq = replicate QUEUE_SIZE 0, mread = 0, mwrite = 0, mcount = 0,
       mstatus = 0, mres = AUX_DEFAULT_RESOLUTION, msample = AUX_DEFAULT_SAMPLE,
       mode = 0x01 OR 0x02, status = 0x04 OR 0x08 OR 0x10, write_cmd = 0,
       irq_calls = [], kbd_reboots = 0 \<rparr>"

definition kbd_in :: "(nat \<Rightarrow> u8) \<Rightarrow> kbd_state io_fn" where
  "kbd_in beyond pr s port b p sz =
     (if port = I8042_COMMAND_REG then (True, s, b(p := ucast (kbd_read_status s)))
      else if port = I8042_DATA_REG then
        (case kbd_read_data beyond s of (value, s) \<Rightarrow> (True, s, buf_put b p (le_bytes 4 value)))
      else if port = I8042_PORT_B_REG then (True, s, b(p := 0x20))
      else (False, s, b))"

definition kbd_out :: "kbd_state io_fn" where
  "kbd_out pr s port b p sz =
     (if port = I8042_COMMAND_REG then (True, kbd_write_command (b p) s, b)
      else if port = I8042_DATA_REG
        then (True, kbd_write_data (le_word (buf_read (buf_at b p) 4)) s, b)
      else if port = I8042_PORT_B_REG then (True, s, b)
      else (False, s, b))"

definition kbd_ops :: "(nat \<Rightarrow> u8) \<Rightarrow> kbd_state ioport_operations" where
  "kbd_ops beyond = \<lparr> io_in = Some (kbd_in beyond), io_out = Some kbd_out \<rparr>"

definition kbd__init ::
    "(nat \<Rightarrow> u8) \<Rightarrow> ptr option \<Rightarrow> ptr option \<Rightarrow> kbd_state ioport_state \<Rightarrow> (int \<times> kbd_state \<times> kbd_state ioport_state) option" where
  "kbd__init beyond m1 m2 s =
     (case ioport__register m1 s I8042_DATA_REG (kbd_ops beyond) 2 0 of
        None \<Rightarrow> None
      | Some (_, s) \<Rightarrow>
         (case ioport__register m2 s I8042_COMMAND_REG (kbd_ops beyond) 2 0 of
            None \<Rightarrow> None
          | Some (_, s) \<Rightarrow> Some (0, kbd_reset, s)))"

subsection \<open>The two queues\<close>

definition kbd_inv :: "kbd_state \<Rightarrow> bool" where
  "kbd_inv s \<longleftrightarrow>
     length (kq s) = QUEUE_SIZE \<and> kcount s \<le> QUEUE_SIZE \<and> kwrite s = kread s + kcount s \<and>
     length (mq s) = QUEUE_SIZE \<and> mcount s \<le> QUEUE_SIZE \<and> mwrite s = mread s + mcount s"

definition kbd_contents :: "kbd_state \<Rightarrow> u8 list" where
  "kbd_contents s = ring_list QUEUE_SIZE (kq s) (kread s) (kcount s)"

definition mouse_contents :: "kbd_state \<Rightarrow> u8 list" where
  "mouse_contents s = ring_list QUEUE_SIZE (mq s) (mread s) (mcount s)"

definition kbd_pop :: "kbd_state \<Rightarrow> u8 \<times> kbd_state" where
  "kbd_pop s = (case kbd_read_data (\<lambda>_. 0) s of (v, s) \<Rightarrow> (ucast v, s))"

lemma kbd_update_irq_sel [simp]:
  "kq (kbd_update_irq s) = kq s" "kread (kbd_update_irq s) = kread s" "kwrite (kbd_update_irq s) = kwrite s"
  "kcount (kbd_update_irq s) = kcount s" "mq (kbd_update_irq s) = mq s" "mread (kbd_update_irq s) = mread s"
  "mwrite (kbd_update_irq s) = mwrite s" "mcount (kbd_update_irq s) = mcount s"
  "mode (kbd_update_irq s) = mode s" "write_cmd (kbd_update_irq s) = write_cmd s"
  "mstatus (kbd_update_irq s) = mstatus s" "mres (kbd_update_irq s) = mres s"
  "msample (kbd_update_irq s) = msample s"
  by (simp_all add: kbd_update_irq_def kbd_irq_line_def Let_def)

lemma irq_line_sel [simp]:
  "kq (kbd_irq_line l v s) = kq s" "kread (kbd_irq_line l v s) = kread s"
  "kwrite (kbd_irq_line l v s) = kwrite s" "kcount (kbd_irq_line l v s) = kcount s"
  "mq (kbd_irq_line l v s) = mq s" "mread (kbd_irq_line l v s) = mread s"
  "mwrite (kbd_irq_line l v s) = mwrite s" "mcount (kbd_irq_line l v s) = mcount s"
  by (simp_all add: kbd_irq_line_def)

lemma scast_byte [simp]: "ucast (scast (c :: u8) :: u32) = c"
  by (rule bit_word_eqI) (auto simp: bit_simps)

lemma kbd_queue_room:
  assumes "kbd_inv s" "kcount s < QUEUE_SIZE"
  shows "kbd_inv (kbd_queue c s) \<and> kbd_contents (kbd_queue c s) = kbd_contents s @ [c] \<and>
         mouse_contents (kbd_queue c s) = mouse_contents s"
  using assms ring_list_push [of "kq s" QUEUE_SIZE "kcount s" "kread s" c]
  by (auto simp: kbd_queue_def kbd_inv_def kbd_contents_def mouse_contents_def)

lemma mouse_queue_room:
  assumes "kbd_inv s" "mcount s < QUEUE_SIZE"
  shows "kbd_inv (mouse_queue c s) \<and> mouse_contents (mouse_queue c s) = mouse_contents s @ [c] \<and>
         kbd_contents (mouse_queue c s) = kbd_contents s"
  using assms ring_list_push [of "mq s" QUEUE_SIZE "mcount s" "mread s" c]
  by (auto simp: mouse_queue_def kbd_inv_def kbd_contents_def mouse_contents_def)

lemma length_contents [simp]:
  "length (kbd_contents s) = kcount s" "length (mouse_contents s) = mcount s"
  by (simp_all add: kbd_contents_def mouse_contents_def)

lemma read_keyboard:
  assumes "kbd_inv s" "kbd_contents s = c # cs" "kbd_read_data beyond s = (v, s')"
  shows "v = scast c \<and> kbd_inv s' \<and> kbd_contents s' = cs \<and> mouse_contents s' = mouse_contents s"
proof -
  obtain n where n: "kcount s = Suc n" using assms(2) by (cases "kcount s") (auto simp: kbd_contents_def ring_list_def)
  then have "c = kq s ! (kread s mod QUEUE_SIZE)" "cs = ring_list QUEUE_SIZE (kq s) (Suc (kread s)) n"
    using assms(2) by (simp_all add: kbd_contents_def ring_list_pop)
  with n assms(1,3) show ?thesis
    by (auto simp: kbd_read_data_def Let_def kbd_inv_def kbd_contents_def mouse_contents_def)
qed

lemma read_mouse:
  assumes "kbd_inv s" "kbd_contents s = []" "mouse_contents s = c # cs" "kbd_read_data beyond s = (v, s')"
  shows "v = scast c \<and> kbd_inv s' \<and> kbd_contents s' = [] \<and> mouse_contents s' = cs"
proof -
  obtain n where n: "mcount s = Suc n" using assms(3) by (cases "mcount s") (auto simp: mouse_contents_def ring_list_def)
  have k: "kcount s = 0" using arg_cong [OF assms(2), of length] by simp
  have "c = mq s ! (mread s mod QUEUE_SIZE)" "cs = ring_list QUEUE_SIZE (mq s) (Suc (mread s)) n"
    using assms(3) n by (simp_all add: mouse_contents_def ring_list_pop)
  with n k assms(1,4) show ?thesis
    by (auto simp: kbd_read_data_def Let_def kbd_inv_def kbd_contents_def mouse_contents_def ring_list_def)
qed

interpretation keyboard: bounded_fifo kbd_inv kbd_contents kbd_queue kbd_pop QUEUE_SIZE
proof
  fix s c cs
  show "kbd_inv s \<Longrightarrow> length (kbd_contents s) < QUEUE_SIZE \<Longrightarrow>
      kbd_inv (kbd_queue c s) \<and> kbd_contents (kbd_queue c s) = kbd_contents s @ [c]"
    using kbd_queue_room [of s c] by simp
  show "kbd_inv s \<Longrightarrow> length (kbd_contents s) = QUEUE_SIZE \<Longrightarrow> kbd_queue c s = s"
    by (simp add: kbd_queue_def)
  show "kbd_inv s \<Longrightarrow> length (kbd_contents s) \<le> QUEUE_SIZE" by (simp add: kbd_inv_def)
  show "kbd_inv s \<Longrightarrow> kbd_contents s = c # cs \<Longrightarrow>
      fst (kbd_pop s) = c \<and> kbd_inv (snd (kbd_pop s)) \<and> kbd_contents (snd (kbd_pop s)) = cs"
    using read_keyboard [of s c cs "\<lambda>_. 0"] by (auto simp: kbd_pop_def split: prod.splits)
qed

text \<open>The mouse queue is read through the same port when the keyboard queue is empty.\<close>

interpretation mouse: bounded_fifo "\<lambda>s. kbd_inv s \<and> kbd_contents s = []" mouse_contents mouse_queue kbd_pop QUEUE_SIZE
proof
  fix s c cs
  show "kbd_inv s \<and> kbd_contents s = [] \<Longrightarrow> length (mouse_contents s) < QUEUE_SIZE \<Longrightarrow>
      (kbd_inv (mouse_queue c s) \<and> kbd_contents (mouse_queue c s) = []) \<and>
      mouse_contents (mouse_queue c s) = mouse_contents s @ [c]"
    using mouse_queue_room [of s c] by simp
  show "kbd_inv s \<and> kbd_contents s = [] \<Longrightarrow> length (mouse_contents s) = QUEUE_SIZE \<Longrightarrow> mouse_queue c s = s"
    by (simp add: mouse_queue_def)
  show "kbd_inv s \<and> kbd_contents s = [] \<Longrightarrow> length (mouse_contents s) \<le> QUEUE_SIZE" by (simp add: kbd_inv_def)
  show "kbd_inv s \<and> kbd_contents s = [] \<Longrightarrow> mouse_contents s = c # cs \<Longrightarrow>
      fst (kbd_pop s) = c \<and> (kbd_inv (snd (kbd_pop s)) \<and> kbd_contents (snd (kbd_pop s)) = []) \<and>
      mouse_contents (snd (kbd_pop s)) = cs"
    using read_mouse [of s c cs "\<lambda>_. 0"] by (auto simp: kbd_pop_def split: prod.splits)
qed


subsection \<open>The controller\<close>

lemma kbd_inv_upd [simp]:
  "kbd_inv (s\<lparr> write_cmd := a \<rparr>) = kbd_inv s" "kbd_inv (s\<lparr> mode := b \<rparr>) = kbd_inv s"
  "kbd_inv (s\<lparr> mstatus := b \<rparr>) = kbd_inv s" "kbd_inv (s\<lparr> mres := b \<rparr>) = kbd_inv s"
  "kbd_inv (s\<lparr> msample := b \<rparr>) = kbd_inv s" "kbd_inv (s\<lparr> kbd_reboots := n \<rparr>) = kbd_inv s"
  "kbd_inv (kbd_update_irq s) = kbd_inv s" "kbd_inv (kbd_irq_line l v s) = kbd_inv s"
  by (simp_all add: kbd_inv_def)

lemma kbd_inv_reset: "kbd_inv kbd_reset"
  by (simp add: kbd_inv_def kbd_reset_def)

lemma kbd_inv_mouse_queue [simp]: "kbd_inv s \<Longrightarrow> kbd_inv (mouse_queue c s)"
  using mouse_queue_room [of s c] by (cases "mcount s < QUEUE_SIZE") (auto simp: mouse_queue_def)

lemma kbd_inv_kbd_queue [simp]: "kbd_inv s \<Longrightarrow> kbd_inv (kbd_queue c s)"
  by (rule keyboard.push_inv)

lemma kbd_inv_write_command: "kbd_inv s \<Longrightarrow> kbd_inv (kbd_write_command val s)"
  by (simp add: kbd_write_command_def)

lemma kbd_inv_aux_send: "kbd_inv s \<Longrightarrow> kbd_inv (aux_send val s)"
  by (simp add: aux_send_def)

lemma kbd_inv_write_data: "kbd_inv s \<Longrightarrow> kbd_inv (kbd_write_data val s)"
  by (simp add: kbd_write_data_def Let_def kbd_inv_aux_send)

lemma kbd_inv_read_data: "kbd_inv s \<Longrightarrow> kbd_inv (snd (kbd_read_data beyond s))"
  by (auto simp: kbd_read_data_def Let_def kbd_inv_def)

lemma kbd_inv_handlers:
  "kbd_inv s \<Longrightarrow> kbd_in beyond pr s port b p sz = (r, s', b') \<Longrightarrow> kbd_inv s'"
  "kbd_inv s \<Longrightarrow> kbd_out pr s port b p sz = (r, s', b') \<Longrightarrow> kbd_inv s'"
  using kbd_inv_read_data [of s beyond] kbd_inv_write_command [of s "b p"]
    kbd_inv_write_data [of s "le_word (buf_read (buf_at b p) 4)"]
  by (auto simp: kbd_in_def kbd_out_def split: if_splits prod.splits)

text \<open>The status register after every change of the queues: output buffer full, and whose data it is.\<close>

definition status_ok :: "kbd_state \<Rightarrow> bool" where
  "status_ok s \<longleftrightarrow> (bit (status s) 0 \<longleftrightarrow> kcount s > 0 \<or> mcount s > 0) \<and>
     (bit (status s) 5 \<longleftrightarrow> kcount s = 0 \<and> mcount s > 0)"

lemma bits_STR:
  "bit (I8042_STR_OBF OR I8042_STR_AUXDATA) 0" "bit (I8042_STR_OBF OR I8042_STR_AUXDATA) 5"
  "bit I8042_STR_OBF 0" "\<not> bit I8042_STR_OBF 5" "bit I8042_STR_AUXDATA 5"
  by (simp_all add: I8042_STR_OBF_def I8042_STR_AUXDATA_def bit_numeral_rec)

lemma status_ok_update: "status_ok (kbd_update_irq s)"
  by (simp add: status_ok_def kbd_update_irq_def kbd_irq_line_def Let_def bits_STR bit_simps)

lemma kbd_update_irq_levels:
  "irq_calls (kbd_update_irq s) =
     irq_calls s @ [(KBD_IRQ, kcount s > 0), (AUX_IRQ, kcount s = 0 \<and> mcount s > 0)]"
  by (simp add: kbd_update_irq_def kbd_irq_line_def Let_def)

text \<open>
  Reading an empty controller repeats the last keyboard byte only while the read counter is within
  the array: with a fresh counter, or after more than 128 reads, the index is past its end.
\<close>

lemma read_empty:
  assumes "kcount s = 0" "mcount s = 0"
  shows "kbd_read_data beyond s =
    (scast (if 0 < kread s \<and> kread s \<le> QUEUE_SIZE then kq s ! (kread s - 1)
            else beyond (if kread s = 0 then QUEUE_SIZE else kread s - 1)), s)"
  using assms by (auto simp: kbd_read_data_def kq_at_def Let_def)

text \<open>
  A read of the data port stores four bytes whatever the access size: the sign-extended byte. The
  handler meets the contract of the dispatcher for accesses of at least four bytes only.
\<close>

lemma kbd_in_frame:
  assumes "kbd_in beyond pr s port b p sz = (r, s', b')" "i < p \<or> p + 4 \<le> i"
  shows "b' i = b i"
  using assms buf_put_outside [of i p "le_bytes 4 (fst (kbd_read_data beyond s))" b]
  by (auto simp: kbd_in_def split: if_splits prod.splits)

interpretation kbd_in_handler: io_handler "kbd_in beyond" "{n. 4 \<le> n}"
  by unfold_locales (auto intro: kbd_in_frame)

interpretation kbd_out_handler: io_handler kbd_out "UNIV"
  by unfold_locales (auto simp: kbd_out_def split: if_splits)

lemma kbd_in_overrun:
  assumes "kbd_inv s" "kbd_contents s = c # cs" "bit c 7"
  shows "\<exists>s'. kbd_in beyond pr s I8042_DATA_REG b p 1 =
     (True, s', b(p := c, p + 1 := 0xFF, p + 2 := 0xFF, p + 3 := 0xFF))"
proof -
  obtain v s' where r: "kbd_read_data beyond s = (v, s')" by fastforce
  have v: "v = scast c" using read_keyboard [OF assms(1,2) r] by simp
  have ff: "(0xFF :: u8) = mask 8" by (simp add: mask_eq_exp_minus_1)
  have byte: "ucast (drop_bit k (scast c :: u32)) = (0xFF :: u8)" if "8 \<le> k" "k \<le> 24" for k
    unfolding ff by (rule bit_word_eqI) (use that assms(3) in \<open>auto simp: bit_simps min_def\<close>)
  have "buf_put b p (le_bytes 4 v) = b(p := c, p + 1 := 0xFF, p + 2 := 0xFF, p + 3 := 0xFF)"
  proof
    fix i
    consider "i < p \<or> p + 4 \<le> i" | "i = p" | "i = p + 1" | "i = p + 2" | "i = p + 3" by linarith
    then show "buf_put b p (le_bytes 4 v) i = (b(p := c, p + 1 := 0xFF, p + 2 := 0xFF, p + 3 := 0xFF)) i"
      by cases (auto simp: buf_put_def v byte)
  qed
  then show ?thesis using r by (simp add: kbd_in_def I8042_DATA_REG_def I8042_COMMAND_REG_def)
qed

text \<open>An echo through the mouse loop: the byte comes back, followed by an acknowledgement.\<close>

lemma aux_loop_echo:
  assumes "kbd_inv s" "kbd_contents s = []" "mcount s + 2 \<le> QUEUE_SIZE"
    and s1_def: "s1 = kbd_write_data val (kbd_write_command I8042_CMD_AUX_LOOP s)"
  shows "mouse_contents s1 = mouse_contents s @ [ucast val, RESPONSE_ACK] \<and> write_cmd s1 = 0 \<and> kbd_inv s1"
proof -
  let ?s = "s\<lparr> write_cmd := ucast I8042_CMD_AUX_LOOP \<rparr>"
  have cmd: "kbd_write_command I8042_CMD_AUX_LOOP s = ?s"
    by (simp add: kbd_write_command_def i8042_cmd_defs)
  have upd: "mouse_contents (t\<lparr> write_cmd := x \<rparr>) = mouse_contents t" for t x
    by (simp add: mouse_contents_def)
  have s1: "s1 = (fold mouse_queue [ucast val, RESPONSE_ACK] ?s)\<lparr> write_cmd := 0 \<rparr>"
    unfolding s1_def cmd by (simp add: kbd_write_data_def i8042_cmd_defs)
  have "kbd_inv ?s \<and> kbd_contents ?s = []" using assms(1,2) by (simp add: kbd_contents_def)
  from mouse.pushes_contents [OF this, of "[ucast val, RESPONSE_ACK]"] assms(3)
  show ?thesis unfolding s1 by (simp add: upd del: fold.simps)
qed

subsection \<open>Claims\<close>

text \<open>Reading the data port \<open>n\<close> times with 4-byte accesses, keeping the low byte of each.\<close>

fun read_data_port :: "(nat \<Rightarrow> u8) \<Rightarrow> nat \<Rightarrow> kbd_state \<Rightarrow> u8 list" where
  "read_data_port beyond 0 s = []"
| "read_data_port beyond (Suc n) s =
     (case kbd_in beyond 0 s I8042_DATA_REG (\<lambda>_. 0) 0 4 of
        (_, s, b) \<Rightarrow> b 0 # read_data_port beyond n s)"

lemma read_data_port_step:
  assumes "kbd_inv s" "kbd_contents s = c # cs"
  shows "\<exists>s'. kbd_in beyond 0 s I8042_DATA_REG (\<lambda>_. 0) 0 4 = (True, s', buf_put (\<lambda>_. 0) 0 (le_bytes 4 (scast c :: u32))) \<and>
    kbd_inv s' \<and> kbd_contents s' = cs"
  using read_keyboard [OF assms, of beyond] by (cases "kbd_read_data beyond s")
    (auto simp: kbd_in_def I8042_DATA_REG_def I8042_COMMAND_REG_def)

lemma read_data_port_contents:
  "kbd_inv s \<Longrightarrow> n \<le> length (kbd_contents s) \<Longrightarrow> read_data_port beyond n s = take n (kbd_contents s)"
proof (induction n arbitrary: s)
  case (Suc n)
  then obtain c cs where cs: "kbd_contents s = c # cs" by (cases "kbd_contents s") auto
  from read_data_port_step [OF Suc.prems(1) cs, of beyond] obtain s' where
    s': "kbd_in beyond 0 s I8042_DATA_REG (\<lambda>_. 0) 0 4 = (True, s', buf_put (\<lambda>_. 0) 0 (le_bytes 4 (scast c :: u32)))"
    "kbd_inv s'" "kbd_contents s' = cs" by blast
  have "buf_put (\<lambda>_. 0) 0 (le_bytes 4 (scast c :: u32)) 0 = c"
    by (simp add: buf_put_def)
  with s' Suc.IH [OF s'(2)] Suc.prems(2) cs show ?case by simp
qed simp



text \<open>
  the loop-back command returns the written byte and an acknowledgement on the mouse queue, behind
  what was there, and no further command argument is expected.
\<close>

theorem aux_loop_back:
  assumes "kbd_inv s" "kbd_contents s = []" "mcount s + 2 \<le> QUEUE_SIZE"
    and "s1 = kbd_write_data val (kbd_write_command I8042_CMD_AUX_LOOP s)"
  shows "mouse_contents s1 = mouse_contents s @ [ucast val, RESPONSE_ACK] \<and> write_cmd s1 = 0 \<and> kbd_inv s1"
  by (rule aux_loop_echo [OF assms])

theorem aux_loop_back_witness:
  "mouse_contents (kbd_write_data 0x5a (kbd_write_command I8042_CMD_AUX_LOOP kbd_reset)) = [0x5a, 0xfa]"
  using aux_loop_back [OF kbd_inv_reset _ _ refl, of "0x5a"]
  by (simp add: kbd_contents_def mouse_contents_def kbd_reset_def ring_list_def QUEUE_SIZE_def RESPONSE_ACK_def)

end
