(* ===== verification/Rtc.thy ===== *)
theory Rtc
  imports Io_Bus
begin

section \<open>The MC146818 real-time clock (hw/rtc.c)\<close>

text \<open>
  The device is an index register and 128 bytes of CMOS memory; the clock registers are computed
  from the host time at every read. The broken-down host time \<^verbatim>\<open>gmtime(time())\<close> is a parameter.
\<close>

record tm =
  tm_sec :: nat
  tm_min :: nat
  tm_hour :: nat
  tm_wday :: nat
  tm_mday :: nat
  tm_mon :: nat
  tm_year :: nat

record rtc_device =
  cmos_idx :: u8
  cmos_data :: "u8 list"
  nmi_disabled :: bool

definition RTC_SECONDS :: u8 where "RTC_SECONDS = 0x00"
definition RTC_MINUTES :: u8 where "RTC_MINUTES = 0x02"
definition RTC_HOURS :: u8 where "RTC_HOURS = 0x04"
definition RTC_DAY_OF_WEEK :: u8 where "RTC_DAY_OF_WEEK = 0x06"
definition RTC_DAY_OF_MONTH :: u8 where "RTC_DAY_OF_MONTH = 0x07"
definition RTC_MONTH :: u8 where "RTC_MONTH = 0x08"
definition RTC_YEAR :: u8 where "RTC_YEAR = 0x09"
definition RTC_CENTURY :: u8 where "RTC_CENTURY = 0x32"
definition RTC_REG_C :: u8 where "RTC_REG_C = 0x0C"
definition RTC_REG_D :: u8 where "RTC_REG_D = 0x0D"

lemmas rtc_reg_defs =
  RTC_SECONDS_def RTC_MINUTES_def RTC_HOURS_def RTC_DAY_OF_WEEK_def RTC_DAY_OF_MONTH_def
  RTC_MONTH_def RTC_YEAR_def RTC_CENTURY_def RTC_REG_C_def RTC_REG_D_def

definition bin2bcd :: "u32 \<Rightarrow> u8" where
  "bin2bcd val = ucast (push_bit 4 (val div 10) + val mod 10)"

definition cmos_ram_data_in :: "tm \<Rightarrow> rtc_device io_fn" where
  "cmos_ram_data_in now pr rtc port b p sz =
     (let i = cmos_idx rtc;
          v = (if i = RTC_SECONDS then bin2bcd (of_nat (tm_sec now))
               else if i = RTC_MINUTES then bin2bcd (of_nat (tm_min now))
               else if i = RTC_HOURS then bin2bcd (of_nat (tm_hour now))
               else if i = RTC_DAY_OF_WEEK then bin2bcd (of_nat (tm_wday now + 1))
               else if i = RTC_DAY_OF_MONTH then bin2bcd (of_nat (tm_mday now))
               else if i = RTC_MONTH then bin2bcd (of_nat (tm_mon now + 1))
               else if i = RTC_YEAR then bin2bcd (of_nat ((tm_year now + 1900) mod 100))
               else if i = RTC_CENTURY then bin2bcd (of_nat ((tm_year now + 1900) div 100))
               else cmos_data rtc ! unat i)
      in (True, rtc, b(p := v)))"

definition cmos_ram_data_out :: "rtc_device io_fn" where
  "cmos_ram_data_out pr rtc port b p sz =
     (if cmos_idx rtc = RTC_REG_C \<or> cmos_idx rtc = RTC_REG_D then (True, rtc, b)
      else (True, rtc\<lparr> cmos_data := (cmos_data rtc)[unat (cmos_idx rtc) := b p] \<rparr>, b))"

definition cmos_ram_data_ioport_ops :: "tm \<Rightarrow> rtc_device ioport_operations" where
  "cmos_ram_data_ioport_ops now =
     \<lparr> io_in = Some (cmos_ram_data_in now), io_out = Some cmos_ram_data_out \<rparr>"

definition cmos_ram_index_out :: "rtc_device io_fn" where
  "cmos_ram_index_out pr rtc port b p sz =
     (True, rtc\<lparr> nmi_disabled := (b p AND 0x80 \<noteq> 0), cmos_idx := b p AND NOT 0x80 \<rparr>, b)"

definition cmos_ram_index_ioport_ops :: "rtc_device ioport_operations" where
  "cmos_ram_index_ioport_ops = \<lparr> io_in = None, io_out = Some cmos_ram_index_out \<rparr>"

definition rtc__init ::
    "tm \<Rightarrow> ptr option \<Rightarrow> ptr option \<Rightarrow> rtc_device ioport_state \<Rightarrow> (int \<times> rtc_device ioport_state) option" where
  "rtc__init now m1 m2 s =
     (case ioport__register m1 s 0x70 cmos_ram_index_ioport_ops 1 0 of
        None \<Rightarrow> None
      | Some (r, s) \<Rightarrow>
          if r < 0 then Some (r, s)
          else
           (case ioport__register m2 s 0x71 (cmos_ram_data_ioport_ops now) 1 0 of
              None \<Rightarrow> None
            | Some (r, s) \<Rightarrow>
                if r < 0 then map_option (\<lambda>(_, s). (r, s)) (ioport__unregister s 0x71)
                else Some (r, s)))"

definition rtc__exit :: "rtc_device ioport_state \<Rightarrow> (int \<times> rtc_device ioport_state) option" where
  "rtc__exit s =
     Option.bind (ioport__unregister s 0x70) (\<lambda>(_, s).
     Option.bind (ioport__unregister s 0x71) (\<lambda>(_, s). Some (0, s)))"

subsection \<open>Binary-coded decimals\<close>

definition bcd2bin :: "u8 \<Rightarrow> nat" where
  "bcd2bin c = 10 * unat (drop_bit 4 c) + unat (c AND 0x0f)"

lemma bcd_digits:
  assumes "unat v < 100"
  shows "unat (drop_bit 4 (bin2bcd v)) = unat v div 10" "unat (bin2bcd v AND 0x0f) = unat v mod 10"
proof -
  have "unat (push_bit 4 (v div 10) + v mod 10) = 16 * (unat v div 10) + unat v mod 10"
    using assms
    by (simp add: unat_word_ariths push_bit_eq_mult unat_div unat_mod)
  moreover have "16 * (unat v div 10) + unat v mod 10 < 256" using assms by linarith
  ultimately have n: "unat (bin2bcd v) = 16 * (unat v div 10) + unat v mod 10"
    by (simp add: bin2bcd_def unsigned_ucast_eq take_bit_eq_mod)
  have d: "unat v mod 10 < 16" by (rule less_trans [of _ 10]) auto
  show "unat (drop_bit 4 (bin2bcd v)) = unat v div 10"
    using n d by (simp add: drop_bit_eq_div unat_div)
  have "bin2bcd v AND 0x0f = take_bit 4 (bin2bcd v)"
    by (simp add: take_bit_eq_mask mask_eq_exp_minus_1)
  then show "unat (bin2bcd v AND 0x0f) = unat v mod 10"
    using n d by (simp add: take_bit_eq_mod unat_mod)
qed

lemma bcd_roundtrip: "unat v < 100 \<Longrightarrow> bcd2bin (bin2bcd v) = unat v"
  by (simp add: bcd2bin_def bcd_digits)

subsection \<open>The clock and the CMOS memory\<close>

definition rtc_inv :: "rtc_device \<Rightarrow> bool" where
  "rtc_inv rtc \<longleftrightarrow> length (cmos_data rtc) = 128 \<and> unat (cmos_idx rtc) < 128"

lemma index_mask: "w AND NOT 0x80 = take_bit 7 (w :: u8)"
proof -
  have "NOT 0x80 = (mask 7 :: u8)" by code_simp
  then show ?thesis by (simp add: take_bit_eq_mask)
qed

lemma index_out_range: "unat (w AND NOT 0x80 :: u8) < 128"
  unfolding index_mask using take_bit_nat_less_exp [of 7 "unat w"] by (simp add: unsigned_take_bit_eq)

lemma rtc_inv_handlers:
  "rtc_inv rtc \<Longrightarrow> cmos_ram_data_in now pr rtc port b p sz = (r, rtc', b') \<Longrightarrow> rtc_inv rtc'"
  "rtc_inv rtc \<Longrightarrow> cmos_ram_data_out pr rtc port b p sz = (r, rtc', b') \<Longrightarrow> rtc_inv rtc'"
  "rtc_inv rtc \<Longrightarrow> cmos_ram_index_out pr rtc port b p sz = (r, rtc', b') \<Longrightarrow> rtc_inv rtc'"
  using index_out_range [of "b p"]
  by (auto simp: rtc_inv_def cmos_ram_data_in_def cmos_ram_data_out_def cmos_ram_index_out_def Let_def
      split: if_splits)

definition clock_reg :: "u8 \<Rightarrow> bool" where
  "clock_reg i \<longleftrightarrow> i \<in> {RTC_SECONDS, RTC_MINUTES, RTC_HOURS, RTC_DAY_OF_WEEK, RTC_DAY_OF_MONTH,
     RTC_MONTH, RTC_YEAR, RTC_CENTURY}"

text \<open>Select a register, write it, read it back: memory keeps the byte, the clock and the two read-only registers do not.\<close>

definition rtc_select :: "u8 \<Rightarrow> rtc_device \<Rightarrow> rtc_device" where
  "rtc_select i rtc = fst (snd (cmos_ram_index_out 0 rtc 0x70 (\<lambda>_. i) 0 1))"

definition rtc_write :: "u8 \<Rightarrow> rtc_device \<Rightarrow> rtc_device" where
  "rtc_write v rtc = fst (snd (cmos_ram_data_out 0 rtc 0x71 (\<lambda>_. v) 0 1))"

definition rtc_read :: "tm \<Rightarrow> rtc_device \<Rightarrow> u8" where
  "rtc_read now rtc = snd (snd (cmos_ram_data_in now 0 rtc 0x71 (\<lambda>_. 0) 0 1)) 0"



lemma rtc_select_eq:
  assumes "unat i < 128"
  shows "rtc_select i rtc = rtc\<lparr> nmi_disabled := False, cmos_idx := i \<rparr>"
proof -
  have "take_bit 7 i = i"
    using assms by (simp add: word_unat_eq_iff take_bit_eq_mod unat_mod)
  moreover have "i AND 0x80 = 0"
  proof -
    have "i AND 0x80 = take_bit 7 i AND 0x80" using calculation by simp
    also have "\<dots> = (i AND NOT 0x80) AND 0x80" by (simp only: index_mask)
    also have "\<dots> = 0" by (simp add: and.assoc)
    finally show ?thesis .
  qed
  ultimately show ?thesis
    by (simp add: rtc_select_def cmos_ram_index_out_def index_mask [simplified])
qed

lemma rtc_memory:
  assumes "rtc_inv rtc" "unat i < 128" "\<not> clock_reg i" "i \<noteq> RTC_REG_C" "i \<noteq> RTC_REG_D"
  shows "rtc_read now (rtc_write v (rtc_select i rtc)) = v"
  using assms
  by (simp add: rtc_select_eq rtc_write_def rtc_read_def cmos_ram_data_out_def cmos_ram_data_in_def
      Let_def clock_reg_def rtc_inv_def)

text \<open>The clock registers show the host time in binary-coded decimal, whatever was written there.\<close>

definition tm_valid :: "tm \<Rightarrow> bool" where
  "tm_valid t \<longleftrightarrow> tm_sec t < 61 \<and> tm_min t < 60 \<and> tm_hour t < 24 \<and> tm_wday t < 7 \<and>
     tm_mday t < 32 \<and> tm_mon t < 12 \<and> tm_year t < 8100"

lemma bcd_of_nat: "n < 100 \<Longrightarrow> bcd2bin (bin2bcd (of_nat n)) = n"
  using bcd_roundtrip [of "of_nat n"] by (simp add: unat_of_nat)

lemma rtc_clock:
  assumes "tm_valid now"
  shows "bcd2bin (rtc_read now (rtc_select RTC_SECONDS rtc)) = tm_sec now"
    and "bcd2bin (rtc_read now (rtc_select RTC_MINUTES rtc)) = tm_min now"
    and "bcd2bin (rtc_read now (rtc_select RTC_HOURS rtc)) = tm_hour now"
    and "bcd2bin (rtc_read now (rtc_select RTC_DAY_OF_WEEK rtc)) = tm_wday now + 1"
    and "bcd2bin (rtc_read now (rtc_select RTC_DAY_OF_MONTH rtc)) = tm_mday now"
    and "bcd2bin (rtc_read now (rtc_select RTC_MONTH rtc)) = tm_mon now + 1"
    and "100 * bcd2bin (rtc_read now (rtc_select RTC_CENTURY rtc)) +
           bcd2bin (rtc_read now (rtc_select RTC_YEAR rtc)) = tm_year now + 1900"
proof -
  have "(tm_year now + 1900) div 100 < 100" using assms by (simp add: tm_valid_def less_mult_imp_div_less)
  then show "100 * bcd2bin (rtc_read now (rtc_select RTC_CENTURY rtc)) +
           bcd2bin (rtc_read now (rtc_select RTC_YEAR rtc)) = tm_year now + 1900"
    using bcd_of_nat [of "(tm_year now + 1900) div 100"] bcd_of_nat [of "(tm_year now + 1900) mod 100"]
    by (simp add: rtc_select_eq rtc_read_def cmos_ram_data_in_def rtc_reg_defs del: of_nat_add)
qed (use assms bcd_of_nat [of "tm_wday now + 1"] bcd_of_nat [of "tm_mon now + 1"] in
   \<open>simp_all add: rtc_select_eq rtc_read_def cmos_ram_data_in_def rtc_reg_defs bcd_of_nat tm_valid_def\<close>)

interpretation cmos_data_in_handler: io_handler "cmos_ram_data_in now" "{n. 0 < n}"
  by unfold_locales (auto simp: cmos_ram_data_in_def Let_def)

interpretation cmos_data_out_handler: io_handler cmos_ram_data_out "UNIV"
  by unfold_locales (auto simp: cmos_ram_data_out_def split: if_splits)

interpretation cmos_index_handler: io_handler cmos_ram_index_out "UNIV"
  by unfold_locales (auto simp: cmos_ram_index_out_def)

subsection \<open>Claims\<close>

text \<open>
  selecting a CMOS register that is neither a clock register nor one of the two read-only ones,
  writing a byte and reading it back gives that byte.
\<close>

theorem cmos_write_read:
  assumes "rtc_inv rtc" "unat i < 128" "\<not> clock_reg i" "i \<noteq> RTC_REG_C" "i \<noteq> RTC_REG_D"
  shows "rtc_read now (rtc_write v (rtc_select i rtc)) = v"
  by (rule rtc_memory [OF assms])

definition noon :: tm where
  "noon = \<lparr> tm_sec = 59, tm_min = 30, tm_hour = 12, tm_wday = 4, tm_mday = 31, tm_mon = 11, tm_year = 126 \<rparr>"

definition rtc_blank :: rtc_device where
  "rtc_blank = \<lparr> cmos_idx = 0, cmos_data = replicate 128 0, nmi_disabled = False \<rparr>"

theorem cmos_write_read_witness: "rtc_read noon (rtc_write 0x42 (rtc_select 0x10 rtc_blank)) = 0x42"
  using cmos_write_read [of rtc_blank "0x10" noon "0x42"]
  by (simp add: rtc_inv_def rtc_blank_def clock_reg_def rtc_reg_defs)

text \<open>
  C37: the clock registers read as the binary-coded decimals of the host's time, whatever the state of
  the CMOS memory.
\<close>

theorem rtc_shows_time:
  assumes "tm_valid now"
  shows "bcd2bin (rtc_read now (rtc_select RTC_SECONDS rtc)) = tm_sec now \<and>
     bcd2bin (rtc_read now (rtc_select RTC_MINUTES rtc)) = tm_min now \<and>
     bcd2bin (rtc_read now (rtc_select RTC_HOURS rtc)) = tm_hour now \<and>
     bcd2bin (rtc_read now (rtc_select RTC_DAY_OF_WEEK rtc)) = tm_wday now + 1 \<and>
     bcd2bin (rtc_read now (rtc_select RTC_DAY_OF_MONTH rtc)) = tm_mday now \<and>
     bcd2bin (rtc_read now (rtc_select RTC_MONTH rtc)) = tm_mon now + 1 \<and>
     100 * bcd2bin (rtc_read now (rtc_select RTC_CENTURY rtc)) +
       bcd2bin (rtc_read now (rtc_select RTC_YEAR rtc)) = tm_year now + 1900"
  using rtc_clock [OF assms, of rtc] by simp

theorem rtc_shows_time_witness:
  "bcd2bin (rtc_read noon (rtc_select RTC_SECONDS rtc_blank)) = 59 \<and>
   bcd2bin (rtc_read noon (rtc_select RTC_DAY_OF_MONTH rtc_blank)) = 31"
  using rtc_shows_time [of noon rtc_blank] by (simp add: tm_valid_def noon_def)

end
