(* ===== verification/Pci.thy ===== *)
theory Pci
  imports Io_Bus
begin

section \<open>The PCI host bridge and configuration space (hw/pci.c, include/kvm/pci.h)\<close>

text \<open>
  \<open>config_address_mem\<close> is the memory from \<^verbatim>\<open>pci_config_address_bits\<close> on: the four bytes of the
  variable, then whatever follows it. A configuration access works on the bytes of the device's
  header (\<open>pci_mem\<close>), so an access that runs over the end of configuration space reaches the
  \<open>bar_size\<close> array. The \<^verbatim>\<open>cfg_ops\<close> callbacks of a header are looked up by its address: the
  virtual devices leave them empty, VFIO fills them in.
\<close>

definition PCI_CONFIG_ADDRESS :: u16 where "PCI_CONFIG_ADDRESS = 0xcf8"
definition PCI_CONFIG_DATA :: u16 where "PCI_CONFIG_DATA = 0xcfc"
definition PCI_CFG_SIZE :: u64 where "PCI_CFG_SIZE = 0x1000000"
definition PCI_DEV_CFG_SIZE :: nat where "PCI_DEV_CFG_SIZE = 256"
definition PCI_BAR_OFFSET :: nat where "PCI_BAR_OFFSET = 16"
definition PCI_CAPABILITIES :: nat where "PCI_CAPABILITIES = 52"
definition KVM_PCI_CFG_AREA :: u64 where "KVM_PCI_CFG_AREA = 0xd1000000"
definition KVM_PCI_MMIO_AREA :: u32 where "KVM_PCI_MMIO_AREA = 0xd2000000"

record pci_cfg_ops =
  cfg_write :: "(buf \<Rightarrow> u8 \<Rightarrow> buf \<Rightarrow> nat \<Rightarrow> nat \<Rightarrow> buf \<times> buf) option"
  cfg_read :: "(buf \<Rightarrow> u8 \<Rightarrow> buf \<Rightarrow> nat \<Rightarrow> nat \<Rightarrow> buf \<times> buf) option"

definition no_cfg_ops :: pci_cfg_ops where
  "no_cfg_ops = \<lparr> cfg_write = None, cfg_read = None \<rparr>"

record pci_state =
  config_address_mem :: buf
  io_space_blocks :: u32
  pci_devs :: dev_state
  cfg_ops :: "ptr \<Rightarrow> pci_cfg_ops"

text \<open>The fields of \<^verbatim>\<open>union pci_config_address\<close>.\<close>

definition reg_offset :: "u32 \<Rightarrow> u32" where "reg_offset w = w AND 3"
definition function_number :: "u32 \<Rightarrow> u8" where "function_number w = ucast (drop_bit 8 w AND 7)"
definition device_number :: "u32 \<Rightarrow> u8" where "device_number w = ucast (drop_bit 11 w AND 31)"
definition bus_number :: "u32 \<Rightarrow> u8" where "bus_number w = ucast (drop_bit 16 w AND 255)"
definition set_reg_offset :: "u32 \<Rightarrow> u32 \<Rightarrow> u32" where "set_reg_offset v w = (w AND NOT 3) OR (v AND 3)"
definition set_enable_bit :: "u32 \<Rightarrow> u32" where "set_enable_bit w = w OR 0x80000000"

definition read32 :: "buf \<Rightarrow> nat \<Rightarrow> u32" where
  "read32 b p = le_word (buf_read (buf_at b p) 4)"

definition memcpy :: "buf \<Rightarrow> nat \<Rightarrow> buf \<Rightarrow> nat \<Rightarrow> nat \<Rightarrow> buf" where
  "memcpy dst d src s n = buf_put dst d (buf_read (buf_at src s) n)"

definition align32 :: "u32 \<Rightarrow> u32 \<Rightarrow> u32" where
  "align32 x a = (x + (a - 1)) AND NOT (a - 1)"

definition pci_get_io_space_block :: "pci_state \<Rightarrow> u32 \<Rightarrow> u32 \<times> pci_state" where
  "pci_get_io_space_block s sz =
     (let block = align32 (io_space_blocks s) sz in (block, s\<lparr> io_space_blocks := block + sz \<rparr>))"

text \<open>
  The walk along the capability list. The list links positions \<open>pos AND NOT 3\<close> below 256, so a walk
  of more than 64 rounds never ends; \<open>None\<close> is that case.
\<close>

fun find_cap_loop :: "nat \<Rightarrow> buf \<Rightarrow> u8 \<Rightarrow> u8 \<Rightarrow> u8 option option" where
  "find_cap_loop n hdr pos cap_type =
     (if pos = 0 then Some None
      else case n of
             0 \<Rightarrow> None
           | Suc m \<Rightarrow>
               if hdr (unat pos) = cap_type then Some (Some pos)
               else find_cap_loop m hdr (hdr (unat pos + 1) AND NOT 3) cap_type)"

declare find_cap_loop.simps [simp del]

definition pci_find_cap :: "buf \<Rightarrow> u8 \<Rightarrow> u8 option option" where
  "pci_find_cap hdr cap_type = find_cap_loop 64 hdr (hdr PCI_CAPABILITIES AND NOT 3) cap_type"

definition pci_config_address_out :: "pci_state io_fn" where
  "pci_config_address_out pr s port b p sz =
     (True, s\<lparr> config_address_mem :=
        memcpy (config_address_mem s) (unat (port - PCI_CONFIG_ADDRESS)) b p sz \<rparr>, b)"

definition pci_config_address_in :: "pci_state io_fn" where
  "pci_config_address_in pr s port b p sz =
     (True, s, memcpy b p (config_address_mem s) (unat (port - PCI_CONFIG_ADDRESS)) sz)"

definition pci_config_address_ops :: "pci_state ioport_operations" where
  "pci_config_address_ops = \<lparr> io_in = Some pci_config_address_in, io_out = Some pci_config_address_out \<rparr>"

definition pci_device_exists :: "pci_state \<Rightarrow> u8 \<Rightarrow> u8 \<Rightarrow> u8 \<Rightarrow> bool" where
  "pci_device_exists s bus dev fn =
     (let w = read32 (config_address_mem s) 0 in
      if bus_number w \<noteq> bus then False
      else if function_number w \<noteq> fn then False
      else case device__find_dev (pci_devs s) DEVICE_BUS_PCI dev of Found _ \<Rightarrow> True | _ \<Rightarrow> False)"

definition pci__find_dev :: "pci_state \<Rightarrow> u8 \<Rightarrow> ptr option" where
  "pci__find_dev s dev =
     (case device__find_dev (pci_devs s) DEVICE_BUS_PCI dev of Found h \<Rightarrow> Some (data h) | _ \<Rightarrow> None)"

definition bar_size :: "buf \<Rightarrow> nat \<Rightarrow> u32" where
  "bar_size hdr bar = read32 hdr (PCI_DEV_CFG_SIZE + 4 * bar)"

definition put_hdr :: "ptr \<Rightarrow> buf \<Rightarrow> pci_state \<Rightarrow> pci_state" where
  "put_hdr h mem s =
     s\<lparr> pci_devs := (pci_devs s)\<lparr> pci_hdrs :=
         (pci_hdrs (pci_devs s))(h := (pci_hdrs (pci_devs s) h)\<lparr> pci_mem := mem \<rparr>) \<rparr> \<rparr>"

text \<open>The write proper, once the header is known.\<close>

definition config_store :: "buf \<Rightarrow> u8 \<Rightarrow> buf \<Rightarrow> nat \<Rightarrow> nat \<Rightarrow> buf" where
  "config_store hdr offset b p sz =
     (if read32 hdr (unat offset) = 0 then hdr
      else
        let bar = ucast ((ucast offset - of_nat PCI_BAR_OFFSET :: u64) div 4) :: u8 in
        if bar < 6 \<and> read32 b p = 0xFFFFFFFF
        then buf_put hdr (unat offset) (le_bytes 4 (bar_size hdr (unat bar)))
        else memcpy hdr (unat offset) b p sz)"

definition pci__config_wr :: "pci_state \<Rightarrow> u32 \<Rightarrow> buf \<Rightarrow> nat \<Rightarrow> nat \<Rightarrow> pci_state \<times> buf" where
  "pci__config_wr s addr b p sz =
     (let dev_num = device_number addr in
      if \<not> pci_device_exists s (bus_number addr) dev_num 0 then (s, b)
      else
        case pci__find_dev s dev_num of
          None \<Rightarrow> (s, b)
        | Some h \<Rightarrow>
            let offset = ucast (addr AND 0xff) :: u8;
                hdr = pci_mem (pci_hdrs (pci_devs s) h);
                (hdr, b) = (case cfg_write (cfg_ops s h) of
                              None \<Rightarrow> (hdr, b) | Some f \<Rightarrow> f hdr offset b p sz)
            in (put_hdr h (config_store hdr offset b p sz) s, b))"

definition pci__config_rd :: "pci_state \<Rightarrow> u32 \<Rightarrow> buf \<Rightarrow> nat \<Rightarrow> nat \<Rightarrow> pci_state \<times> buf" where
  "pci__config_rd s addr b p sz =
     (let dev_num = device_number addr in
      if pci_device_exists s (bus_number addr) dev_num 0 then
        case pci__find_dev s dev_num of
          None \<Rightarrow> (s, b)
        | Some h \<Rightarrow>
            let offset = ucast (addr AND 0xff) :: u8;
                hdr = pci_mem (pci_hdrs (pci_devs s) h);
                (hdr, b) = (case cfg_read (cfg_ops s h) of
                              None \<Rightarrow> (hdr, b) | Some f \<Rightarrow> f hdr offset b p sz)
            in (put_hdr h hdr s, memcpy b p hdr (unat offset) sz)
      else (s, buf_put b p (replicate sz 0xff)))"

definition config_data_address :: "pci_state \<Rightarrow> u16 \<Rightarrow> u32" where
  "config_data_address s port =
     set_reg_offset (ucast (port - PCI_CONFIG_DATA)) (read32 (config_address_mem s) 0)"

definition pci_config_data_out :: "pci_state io_fn" where
  "pci_config_data_out pr s port b p sz =
     (case pci__config_wr s (config_data_address s port) b p sz of (s, b) \<Rightarrow> (True, s, b))"

definition pci_config_data_in :: "pci_state io_fn" where
  "pci_config_data_in pr s port b p sz =
     (case pci__config_rd s (config_data_address s port) b p sz of (s, b) \<Rightarrow> (True, s, b))"

definition pci_config_data_ops :: "pci_state ioport_operations" where
  "pci_config_data_ops = \<lparr> io_in = Some pci_config_data_in, io_out = Some pci_config_data_out \<rparr>"

definition pci_config_mmio_access :: "pci_state mmio_fn" where
  "pci_config_mmio_access s addr b len is_write pr =
     (let cfg_addr = set_enable_bit (ucast (addr - KVM_PCI_CFG_AREA)) in
      if is_write \<noteq> 0 then pci__config_wr s cfg_addr b 0 (unat len)
      else pci__config_rd s cfg_addr b 0 (unat len))"

text \<open>
  Start-up: two port ranges and the memory-mapped window, with the error paths in reverse order.
  \<open>m1\<close>, \<open>m2\<close>, \<open>m3\<close> are the results of the allocations.
\<close>

type_synonym pci_bus = "pci_state ioport_state \<times> pci_state mmio_mapping rb_int_node rbt"

definition pci__init :: "ptr option \<Rightarrow> ptr option \<Rightarrow> bool \<Rightarrow> pci_bus \<Rightarrow> (int \<times> pci_bus) option" where
  "pci__init m1 m2 m3 bus =
     (case bus of (s, t) \<Rightarrow>
      case ioport__register m1 s PCI_CONFIG_DATA pci_config_data_ops 4 0 of
        None \<Rightarrow> None
      | Some (r, s) \<Rightarrow>
          if r < 0 then Some (r, s, t)
          else
            case ioport__register m2 s PCI_CONFIG_ADDRESS pci_config_address_ops 4 0 of
              None \<Rightarrow> None
            | Some (r, s) \<Rightarrow>
                if r < 0 then map_option (\<lambda>(_, s). (r, s, t)) (ioport__unregister s PCI_CONFIG_DATA)
                else
                  case kvm__register_mmio m3 (\<lambda>_ _. 0) 0 t KVM_PCI_CFG_AREA PCI_CFG_SIZE False
                         pci_config_mmio_access 0 of
                    None \<Rightarrow> None
                  | Some (r, t) \<Rightarrow>
                      if r < 0
                      then Option.bind (ioport__unregister s PCI_CONFIG_ADDRESS) (\<lambda>(_, s).
                           map_option (\<lambda>(_, s). (r, s, t)) (ioport__unregister s PCI_CONFIG_DATA))
                      else Some (0, s, t))"

definition pci__exit :: "pci_state ioport_state \<Rightarrow> (int \<times> pci_state ioport_state) option" where
  "pci__exit s =
     Option.bind (ioport__unregister s PCI_CONFIG_DATA) (\<lambda>(_, s).
     map_option (\<lambda>(_, s). (0, s)) (ioport__unregister s PCI_CONFIG_ADDRESS))"


subsection \<open>Memory and address arithmetic\<close>

lemma read32_put [simp]: "read32 (buf_put b off (le_bytes 4 w)) off = w"
  using buf_read_put [of b off "le_bytes 4 w"] le_word_le_bytes [of 4 w] by (simp add: read32_def)

lemma buf_read_memcpy: "buf_read (buf_at (memcpy dst d src s n) d) n = buf_read (buf_at src s) n"
  using buf_read_put [of dst d "buf_read (buf_at src s) n"] by (simp add: memcpy_def)

lemma memcpy_outside: "i < d \<or> d + n \<le> i \<Longrightarrow> memcpy dst d src s n i = dst i"
  using buf_put_outside [of i d "buf_read (buf_at src s) n" dst] by (simp add: memcpy_def)

lemma memcpy_memcpy: "memcpy b q (memcpy dst d src s n) d n = memcpy b q src s n"
  using buf_read_memcpy [of dst d src s n] by (simp add: memcpy_def)

lemma low_byte: "unat (ucast (w AND 0xff :: u32) :: u8) = unat w mod 256"
proof -
  have "w AND 0xff = take_bit 8 w" by (simp add: take_bit_eq_mask mask_eq_exp_minus_1)
  then show ?thesis by (simp add: unsigned_ucast_eq take_bit_eq_mod unat_mod)
qed

subsection \<open>Device lookup\<close>

definition pci_dev_at :: "pci_state \<Rightarrow> u32 \<Rightarrow> ptr \<Rightarrow> bool" where
  "pci_dev_at s addr h \<longleftrightarrow>
     pci_device_exists s (bus_number addr) (device_number addr) 0 \<and>
     pci__find_dev s (device_number addr) = Some h"

lemma exists_dev_at:
  assumes "pci_device_exists s (bus_number addr) (device_number addr) 0"
  shows "\<exists>h. pci_dev_at s addr h"
  using assms
  by (auto simp: pci_dev_at_def pci_device_exists_def pci__find_dev_def Let_def split: if_splits find_result.splits)

lemma find_dev_put_hdr [simp]: "device__find_dev (pci_devs (put_hdr h m s)) b d = device__find_dev (pci_devs s) b d"
  by (simp add: put_hdr_def device__find_dev_def device__find_loc_def)

lemma put_hdr_sel [simp]:
  "config_address_mem (put_hdr h m s) = config_address_mem s"
  "cfg_ops (put_hdr h m s) = cfg_ops s"
  "pci_mem (pci_hdrs (pci_devs (put_hdr h m s)) h) = m"
  "h' \<noteq> h \<Longrightarrow> pci_hdrs (pci_devs (put_hdr h m s)) h' = pci_hdrs (pci_devs s) h'"
  "device_trees (pci_devs (put_hdr h m s)) = device_trees (pci_devs s)"
  by (simp_all add: put_hdr_def)

lemma dev_at_put_hdr [simp]: "pci_dev_at (put_hdr h m s) addr g = pci_dev_at s addr g"
  by (simp add: pci_dev_at_def pci_device_exists_def pci__find_dev_def)

subsection \<open>Configuration accesses\<close>

lemma config_wr_eq:
  assumes "pci_dev_at s addr h" "cfg_write (cfg_ops s h) = None"
  shows "pci__config_wr s addr b p sz =
    (put_hdr h (config_store (pci_mem (pci_hdrs (pci_devs s) h)) (ucast (addr AND 0xff)) b p sz) s, b)"
  using assms by (simp add: pci__config_wr_def pci_dev_at_def Let_def)

lemma config_rd_eq:
  assumes "pci_dev_at s addr h" "cfg_read (cfg_ops s h) = None"
  shows "snd (pci__config_rd s addr b p sz) =
    memcpy b p (pci_mem (pci_hdrs (pci_devs s) h)) (unat (ucast (addr AND 0xff) :: u8)) sz"
  using assms by (simp add: pci__config_rd_def pci_dev_at_def Let_def)

lemma config_rd_absent:
  assumes "\<not> pci_device_exists s (bus_number addr) (device_number addr) 0"
  shows "pci__config_rd s addr b p sz = (s, buf_put b p (replicate sz 0xff))"
  using assms by (simp add: pci__config_rd_def Let_def)

definition bar_of :: "u8 \<Rightarrow> u8" where
  "bar_of offset = ucast ((ucast offset - of_nat PCI_BAR_OFFSET :: u64) div 4)"

lemma config_store_plain:
  assumes "read32 hdr (unat off) \<noteq> 0" "\<not> (bar_of off < 6 \<and> read32 b p = 0xFFFFFFFF)"
  shows "config_store hdr off b p sz = memcpy hdr (unat off) b p sz"
  using assms by (auto simp: config_store_def Let_def bar_of_def)

lemma config_store_sizing:
  assumes "read32 hdr (unat off) \<noteq> 0" "bar_of off < 6" "read32 b p = 0xFFFFFFFF"
  shows "config_store hdr off b p sz = buf_put hdr (unat off) (le_bytes 4 (bar_size hdr (unat (bar_of off))))"
  using assms by (auto simp: config_store_def Let_def bar_of_def)

lemma config_store_frame:
  assumes "i < unat off \<or> unat off + max 4 sz \<le> i"
  shows "config_store hdr off b p sz i = hdr i"
  using assms buf_put_outside [of i "unat off" "le_bytes 4 w" hdr for w] memcpy_outside [of i "unat off" sz hdr b p]
  by (auto simp: config_store_def Let_def)

lemma bar_of_values:
  "bar_of 0x10 = 0" "bar_of 0x14 = 1" "bar_of 0x18 = 2" "bar_of 0x1c = 3" "bar_of 0x20 = 4"
  "bar_of 0x24 = 5" "bar_of 0x28 = 6" "bar_of 0x0c = 0xff"
  by (simp_all add: bar_of_def PCI_BAR_OFFSET_def)

text \<open>What a plain write stored is what a read of the same address returns.\<close>

lemma config_write_read:
  assumes "pci_dev_at s addr h" "cfg_ops s h = no_cfg_ops"
    and "off = ucast (addr AND 0xff)" "hdr = pci_mem (pci_hdrs (pci_devs s) h)"
    and "read32 hdr (unat off) \<noteq> 0" "\<not> (bar_of off < 6 \<and> read32 b p = 0xFFFFFFFF)"
    and "pci__config_wr s addr b p sz = (s', b')"
  shows "snd (pci__config_rd s' addr c q sz) = memcpy c q b p sz"
proof -
  have s': "s' = put_hdr h (memcpy hdr (unat off) b p sz) s"
    using config_wr_eq [OF assms(1), of b p sz] config_store_plain [OF assms(5,6), of sz] assms
    by (simp add: no_cfg_ops_def)
  have "snd (pci__config_rd s' addr c q sz) = memcpy c q (memcpy hdr (unat off) b p sz) (unat off) sz"
    using config_rd_eq [of s' addr h c q sz] assms(1-3) by (simp add: s' no_cfg_ops_def)
  then show ?thesis by (simp add: memcpy_memcpy)
qed

text \<open>
  The sizing protocol of a base address register: all ones are answered with the size of the region,
  and an address written afterwards is kept.
\<close>

lemma bar_sizing:
  assumes "pci_dev_at s addr h" "cfg_ops s h = no_cfg_ops"
    and "off = ucast (addr AND 0xff)" "hdr = pci_mem (pci_hdrs (pci_devs s) h)"
    and "read32 hdr (unat off) \<noteq> 0" "bar_of off < 6" "read32 b p = 0xFFFFFFFF"
    and "pci__config_wr s addr b p sz = (s', b')"
  shows "read32 (snd (pci__config_rd s' addr c q 4)) q = bar_size hdr (unat (bar_of off))"
proof -
  let ?w = "bar_size hdr (unat (bar_of off))"
  have s': "s' = put_hdr h (buf_put hdr (unat off) (le_bytes 4 ?w)) s"
    using config_wr_eq [OF assms(1), of b p sz] config_store_sizing [OF assms(5-7), of sz] assms
    by (simp add: no_cfg_ops_def)
  have "snd (pci__config_rd s' addr c q 4) = memcpy c q (buf_put hdr (unat off) (le_bytes 4 ?w)) (unat off) 4"
    using config_rd_eq [of s' addr h c q 4] assms(1-3) by (simp add: s' no_cfg_ops_def)
  then show ?thesis
    using buf_read_memcpy [of c q "buf_put hdr (unat off) (le_bytes 4 ?w)" "unat off" 4]
      read32_put [of hdr "unat off" ?w]
    by (simp add: read32_def)
qed

text \<open>A write touches the header of the addressed device only, and there at most four or \<open>sz\<close> bytes.\<close>

lemma config_wr_frame:
  assumes "pci__config_wr s addr b p sz = (s', b')" "\<And>h. cfg_ops s h = no_cfg_ops"
  shows "b' = b" "device_trees (pci_devs s') = device_trees (pci_devs s)"
    and "\<not> (pci_dev_at s addr h \<and> unat addr mod 256 \<le> i \<and> i < unat addr mod 256 + max 4 sz) \<Longrightarrow>
          pci_mem (pci_hdrs (pci_devs s') h) i = pci_mem (pci_hdrs (pci_devs s) h) i"
proof -
  consider "\<not> pci_device_exists s (bus_number addr) (device_number addr) 0"
    | g where "pci_dev_at s addr g" using exists_dev_at by blast
  then have "(s', b') = (s, b) \<or> (\<exists>g. pci_dev_at s addr g \<and> b' = b \<and>
      s' = put_hdr g (config_store (pci_mem (pci_hdrs (pci_devs s) g)) (ucast (addr AND 0xff)) b p sz) s)"
  proof cases
    case 1
    then show ?thesis using assms(1) by (simp add: pci__config_wr_def)
  next
    case (2 g)
    then show ?thesis using assms config_wr_eq [OF 2, of b p sz] by (auto simp: no_cfg_ops_def)
  qed
  note r = this
  show "b' = b" "device_trees (pci_devs s') = device_trees (pci_devs s)" using r by auto
  assume out: "\<not> (pci_dev_at s addr h \<and> unat addr mod 256 \<le> i \<and> i < unat addr mod 256 + max 4 sz)"
  from r show "pci_mem (pci_hdrs (pci_devs s') h) i = pci_mem (pci_hdrs (pci_devs s) h) i"
  proof (elim disjE exE conjE)
    fix g assume g: "pci_dev_at s addr g"
      "s' = put_hdr g (config_store (pci_mem (pci_hdrs (pci_devs s) g)) (ucast (addr AND 0xff)) b p sz) s"
    show ?thesis
    proof (cases "h = g")
      case True
      with out g(1) have "i < unat (ucast (addr AND 0xff) :: u8) \<or>
          unat (ucast (addr AND 0xff) :: u8) + max 4 sz \<le> i" by (auto simp: low_byte)
      with config_store_frame [OF this] True g(2) show ?thesis by simp
    next
      case False
      then show ?thesis using g(2) by simp
    qed
  qed simp
qed


subsection \<open>The capability list\<close>

fun caps_chain :: "buf \<Rightarrow> u8 \<Rightarrow> u8 list \<Rightarrow> bool" where
  "caps_chain hdr pos [] \<longleftrightarrow> pos = 0"
| "caps_chain hdr pos (q # qs) \<longleftrightarrow> pos = q \<and> q \<noteq> 0 \<and> caps_chain hdr (hdr (unat q + 1) AND NOT 3) qs"

lemma find_cap_loop_chain:
  "caps_chain hdr pos qs \<Longrightarrow> length qs \<le> n \<Longrightarrow>
     find_cap_loop n hdr pos ty = Some (find (\<lambda>q. hdr (unat q) = ty) qs)"
proof (induction qs arbitrary: pos n)
  case Nil
  then show ?case by (simp add: find_cap_loop.simps)
next
  case (Cons q qs)
  then obtain m where n: "n = Suc m" by (cases n) auto
  with Cons show ?case by (simp add: find_cap_loop.simps [of "Suc m"])
qed

text \<open>A list that comes back to a position without a match is walked for ever.\<close>

lemma find_cap_loop_cycle:
  assumes "pos \<noteq> 0" "hdr (unat pos) \<noteq> ty" "hdr (unat pos + 1) AND NOT 3 = pos"
  shows "find_cap_loop n hdr pos ty = None"
  using assms by (induction n) (simp_all add: find_cap_loop.simps [of _ hdr pos])

subsection \<open>Bus address blocks\<close>

lemma align32_nat:
  assumes "n < 32" "unat x + 2 ^ n \<le> 2 ^ 32"
  shows "unat (align32 x (2 ^ n)) = (unat x + 2 ^ n - 1) div 2 ^ n * 2 ^ n"
proof -
  have e: "unat (2 ^ n :: u32) = 2 ^ n" using assms(1) by (simp add: unat_exp)
  have sum: "unat (x + (2 ^ n - 1)) = unat x + 2 ^ n - 1"
  proof -
    have "(1 :: u32) \<le> 2 ^ n" using e by (simp add: word_le_nat_alt)
    then have m: "unat (2 ^ n - 1 :: u32) = 2 ^ n - 1" using e by (simp add: unat_sub)
    have "unat x + (2 ^ n - 1) < 2 ^ 32" using assms(2) zero_less_power [of "2 :: nat" n] by linarith
    then show ?thesis using m by (simp add: unat_word_ariths)
  qed
  have "align32 x (2 ^ n) = push_bit n (drop_bit n (x + (2 ^ n - 1)))"
    by (rule bit_word_eqI) (auto simp: align32_def bit_simps mask_eq_exp_minus_1 [symmetric])
  then have a: "align32 x (2 ^ n) = (x + (2 ^ n - 1)) div 2 ^ n * 2 ^ n"
    by (simp add: push_bit_eq_mult drop_bit_eq_div)
  have "(unat x + 2 ^ n - 1) div 2 ^ n * 2 ^ n \<le> unat x + 2 ^ n - 1" by (rule div_times_less_eq_dividend)
  also have "\<dots> < 2 ^ 32" using assms(2) zero_less_power [of "2 :: nat" n] by linarith
  finally have "(unat x + 2 ^ n - 1) div 2 ^ n * 2 ^ n mod 2 ^ 32 = (unat x + 2 ^ n - 1) div 2 ^ n * 2 ^ n"
    by simp
  then show ?thesis unfolding a unat_word_ariths(2) unat_div sum e by simp
qed

lemma io_space_block:
  assumes "n < 32" "unat (io_space_blocks s) + 2 * 2 ^ n \<le> 2 ^ 32"
    and "pci_get_io_space_block s (2 ^ n) = (block, s')"
  shows "2 ^ n dvd unat block \<and> unat (io_space_blocks s) \<le> unat block \<and>
         unat block < unat (io_space_blocks s) + 2 ^ n \<and>
         io_space_blocks s' = block + 2 ^ n \<and> (2 ^ 32 - 2 ^ n \<ge> unat block)"
proof -
  let ?x = "unat (io_space_blocks s)" and ?m = "2 ^ n :: nat"
  have b: "unat block = (?x + ?m - 1) div ?m * ?m"
    using align32_nat [OF assms(1), of "io_space_blocks s"] assms(2,3)
    by (simp add: pci_get_io_space_block_def Let_def)
  have "?x + ?m - 1 = (?x + ?m - 1) div ?m * ?m + (?x + ?m - 1) mod ?m"
    by (rule div_mult_mod_eq [symmetric])
  moreover have "(?x + ?m - 1) mod ?m < ?m" by simp
  ultimately have "?x \<le> unat block" "unat block < ?x + ?m" unfolding b by linarith+
  then show ?thesis
    using b assms(2,3) by (auto simp: pci_get_io_space_block_def Let_def)
qed


subsection \<open>The ports of the bridge\<close>

lemma config_address_roundtrip:
  assumes "pci_config_address_out pr s port b p sz = (r, s', b')"
  shows "pci_config_address_in pr s' port c q sz = (True, s', memcpy c q b p sz)"
  using assms by (auto simp: pci_config_address_out_def pci_config_address_in_def memcpy_memcpy)

interpretation config_address_in_handler: io_handler pci_config_address_in "UNIV"
  by unfold_locales (auto simp: pci_config_address_in_def memcpy_outside)

interpretation config_address_out_handler: io_handler pci_config_address_out "UNIV"
  by unfold_locales (auto simp: pci_config_address_out_def)

lemma config_rd_frame:
  assumes "pci__config_rd s addr b p sz = (s', b')" "\<And>h. cfg_ops s h = no_cfg_ops" "i < p \<or> p + sz \<le> i"
  shows "b' i = b i"
  using assms memcpy_outside [of i p sz b] buf_put_outside [of i p "replicate sz 0xff" b]
  by (auto simp: pci__config_rd_def Let_def no_cfg_ops_def split: if_splits option.splits)

text \<open>
  Memory-mapped configuration accesses go through the same existence check, which looks at the
  bus and function last written to the address port: with another function selected there, every
  memory-mapped read of a present device returns ones.
\<close>

lemma mmio_config_depends_on_port:
  assumes "function_number (read32 (config_address_mem s) 0) \<noteq> 0"
  shows "pci_config_mmio_access s addr b len 0 pr = (s, buf_put b 0 (replicate (unat len) 0xff))"
proof -
  have "\<not> pci_device_exists s x y 0" for x y
    using assms by (simp add: pci_device_exists_def Let_def)
  then show ?thesis by (simp add: pci_config_mmio_access_def pci__config_rd_def Let_def)
qed

lemma pci_ports_apart:
  "int_disjoint (ioport_entry PCI_CONFIG_ADDRESS o1 4 x a) (ioport_entry PCI_CONFIG_DATA o2 4 y b)"
  "\<not> in_int (ioport_entry PCI_CONFIG_DATA o2 4 y b) (ucast PCI_CONFIG_ADDRESS)"
  by (simp_all add: int_disjoint_def in_int_def PCI_CONFIG_ADDRESS_def PCI_CONFIG_DATA_def)

text \<open>On an empty bus, initialisation succeeds and claims the two ports and the window.\<close>

lemma pci_init_ok:
  assumes "ioport_inv s" "ports s = {}"
  shows "\<exists>s' t'. pci__init (Some a1) (Some a2) True (s, Leaf) = Some (0, s', t') \<and> ioport_inv s' \<and>
     rb_int_inv t' \<and>
     ports s' = {ioport_entry PCI_CONFIG_DATA pci_config_data_ops 4 0 a1,
                 ioport_entry PCI_CONFIG_ADDRESS pci_config_address_ops 4 0 a2} \<and>
     set (inorder t') = {\<lparr> low = KVM_PCI_CFG_AREA, high = KVM_PCI_CFG_AREA + PCI_CFG_SIZE,
                          entry = \<lparr> mmio_fn = pci_config_mmio_access, mmio_ptr = 0 \<rparr> \<rparr>}"
proof -
  let ?e1 = "ioport_entry PCI_CONFIG_DATA pci_config_data_ops 4 0 a1"
  let ?e2 = "ioport_entry PCI_CONFIG_ADDRESS pci_config_address_ops 4 0 a2"
  have rp: "reg_port u PCI_CONFIG_DATA = PCI_CONFIG_DATA" "reg_port u PCI_CONFIG_ADDRESS = PCI_CONFIG_ADDRESS"
    for u :: "pci_state ioport_state"
    by (simp_all add: reg_port_def PCI_CONFIG_DATA_def PCI_CONFIG_ADDRESS_def IOPORT_EMPTY_def)
  obtain s1 where s1: "ioport__register (Some a1) s PCI_CONFIG_DATA pci_config_data_ops 4 0 = Some (uint PCI_CONFIG_DATA, s1)"
    "ioport_inv s1" "ports s1 = {?e1}"
    using ioport_register_ok [OF assms(1), of 4 PCI_CONFIG_DATA PCI_CONFIG_DATA ?e1 pci_config_data_ops 0 a1]
      assms(2) rp by auto
  have keep: "{x \<in> ports s1. \<not> in_int x (ucast PCI_CONFIG_ADDRESS)} = {?e1}"
    unfolding s1(3) by (auto simp: pci_ports_apart)
  have "\<forall>x \<in> ports s1. in_int x (ucast PCI_CONFIG_ADDRESS) \<or> int_disjoint ?e2 x"
    unfolding s1(3) by (simp add: pci_ports_apart)
  from ioport_register_ok [OF s1(2) _ _ rp(2) [symmetric] refl this]
  obtain s2 where s2: "ioport__register (Some a2) s1 PCI_CONFIG_ADDRESS pci_config_address_ops 4 0
      = Some (uint PCI_CONFIG_ADDRESS, s2)" "ioport_inv s2" "ports s2 = {?e1, ?e2}"
    unfolding keep by (auto simp: insert_commute)
  have leaf: "rb_int_inv (Leaf :: pci_state mmio_mapping rb_int_node rbt)"
    by (simp add: rb_int_inv_def rb_inv_def)
  have "KVM_PCI_CFG_AREA < KVM_PCI_CFG_AREA + PCI_CFG_SIZE"
    by (simp add: KVM_PCI_CFG_AREA_def PCI_CFG_SIZE_def)
  from register_mmio_ok [OF leaf this, of False "\<lambda>_ _. 0" 0 pci_config_mmio_access 0]
  obtain t' where "kvm__register_mmio True (\<lambda>_ _. 0) 0 Leaf KVM_PCI_CFG_AREA PCI_CFG_SIZE False
      pci_config_mmio_access 0 = Some (0, t')" "rb_int_inv t'"
    "set (inorder t') = {\<lparr> low = KVM_PCI_CFG_AREA, high = KVM_PCI_CFG_AREA + PCI_CFG_SIZE,
                          entry = \<lparr> mmio_fn = pci_config_mmio_access, mmio_ptr = 0 \<rparr> \<rparr>}"
    by auto
  then show ?thesis using s1 s2 by (simp add: pci__init_def)
qed

subsection \<open>Claims\<close>

text \<open>A machine with one device on the bus: its first BAR is set, the others are empty.\<close>

definition pci_example :: pci_state where
  "pci_example =
     \<lparr> config_address_mem = (\<lambda>_. 0), io_space_blocks = KVM_PCI_MMIO_AREA,
       pci_devs = initial_devices\<lparr>
         device_trees := (\<lambda>_. \<lparr> root = Node RB_BLACK Leaf \<lparr> bus_type = DEVICE_BUS_PCI, data = 7, dev_num = 0, owner = 0 \<rparr> Leaf,
                                bus_dev_num = 1 \<rparr>),
         pci_hdrs := (\<lambda>_. \<lparr> pci_mem = (\<lambda>i. if i = 16 then 1 else if i = 257 then 4 else 0), irq_type = 0 \<rparr>) \<rparr>,
       cfg_ops = (\<lambda>_. no_cfg_ops) \<rparr>"

lemma pci_example_dev: "pci_dev_at pci_example 0x80000010 7"
proof -
  have n: "bus_number 0x80000010 = 0" "device_number 0x80000010 = 0" by code_simp+
  have w: "read32 (config_address_mem pci_example) 0 = 0" "bus_number 0 = 0" "function_number 0 = 0"
    by (simp_all add: pci_example_def read32_def buf_read_def buf_at_def upt_rec bus_number_def function_number_def)
  have d: "device__find_dev (pci_devs pci_example) DEVICE_BUS_PCI 0 =
      Found \<lparr> bus_type = DEVICE_BUS_PCI, data = 7, dev_num = 0, owner = 0 \<rparr>"
    by (simp add: pci_example_def device__find_dev_def device__find_loc_def rb_find_by_def dev_dir_def)
  show ?thesis by (simp add: pci_dev_at_def pci_device_exists_def pci__find_dev_def n w d Let_def)
qed

lemma pci_example_facts:
  "cfg_ops pci_example 7 = no_cfg_ops" "ucast ((0x80000010 :: u32) AND 0xff) = (16 :: u8)" "bar_of 16 = 0"
  "read32 (pci_mem (pci_hdrs (pci_devs pci_example) 7)) 16 = 1" "bar_size (pci_mem (pci_hdrs (pci_devs pci_example) 7)) 0 = 0x400"
  by (simp_all add: pci_example_def bar_of_def PCI_BAR_OFFSET_def read32_def bar_size_def PCI_DEV_CFG_SIZE_def
      buf_read_def buf_at_def upt_rec)

text \<open>
  C20: what the guest writes to a configuration register that is in use is what it reads there
  afterwards, byte for byte, unless it is the all-ones probe of a BAR.
\<close>

theorem pci_config_roundtrip:
  assumes "pci_dev_at s addr h" "cfg_ops s h = no_cfg_ops" "off = ucast (addr AND 0xff)"
    and "read32 (pci_mem (pci_hdrs (pci_devs s) h)) (unat off) \<noteq> 0" "\<not> (bar_of off < 6 \<and> read32 b p = 0xFFFFFFFF)"
    and "pci__config_wr s addr b p sz = (s', b')"
  shows "snd (pci__config_rd s' addr c q sz) = memcpy c q b p sz"
  by (rule config_write_read [OF assms(1-3) refl assms(4-6)])

theorem pci_config_roundtrip_witness:
  "snd (pci__config_rd (fst (pci__config_wr pci_example 0x80000010 (\<lambda>_. 0x5a) 0 4)) 0x80000010 (\<lambda>_. 0) 0 4) 3 = 0x5a"
proof -
  have "read32 (\<lambda>_. 0x5a) 0 \<noteq> 0xFFFFFFFF" by (simp add: read32_def buf_read_def buf_at_def upt_rec)
  then show ?thesis
    using pci_config_roundtrip [OF pci_example_dev _ _ _ _ prod.collapse [symmetric], of 16 "\<lambda>_. 0x5a" 0 4 "\<lambda>_. 0" 0]
    by (simp add: pci_example_facts memcpy_def buf_put_def buf_read_def buf_at_def)
qed

text \<open>
  C21: after the guest writes all ones to a BAR in use, the BAR reads as the size of its region.
\<close>

theorem pci_bar_probe:
  assumes "pci_dev_at s addr h" "cfg_ops s h = no_cfg_ops" "off = ucast (addr AND 0xff)"
    and "read32 (pci_mem (pci_hdrs (pci_devs s) h)) (unat off) \<noteq> 0" "bar_of off < 6" "read32 b p = 0xFFFFFFFF"
    and "pci__config_wr s addr b p sz = (s', b')"
  shows "read32 (snd (pci__config_rd s' addr c q 4)) q = bar_size (pci_mem (pci_hdrs (pci_devs s) h)) (unat (bar_of off))"
  by (rule bar_sizing [OF assms(1-3) refl assms(4-7)])

theorem pci_bar_probe_witness:
  "read32 (snd (pci__config_rd (fst (pci__config_wr pci_example 0x80000010 (\<lambda>_. 0xff) 0 4)) 0x80000010 (\<lambda>_. 0) 0 4)) 0 = 0x400"
proof -
  have "read32 (\<lambda>_. 0xff) 0 = 0xFFFFFFFF" by (simp add: read32_def buf_read_def buf_at_def upt_rec)
  then show ?thesis
    using pci_bar_probe [OF pci_example_dev _ _ _ _ _ prod.collapse [symmetric], of 16 "\<lambda>_. 0xff" 0 4 "\<lambda>_. 0" 0]
    by (simp add: pci_example_facts)
qed

text \<open>
  A block of PCI memory space of a power-of-two size is aligned to its size, starts at or after
  the space handed out before and does not wrap around.
\<close>

theorem pci_block_aligned:
  assumes "n < 32" "unat (io_space_blocks s) + 2 * 2 ^ n \<le> 2 ^ 32" "pci_get_io_space_block s (2 ^ n) = (block, s')"
  shows "2 ^ n dvd unat block \<and> unat (io_space_blocks s) \<le> unat block \<and>
         unat block < unat (io_space_blocks s) + 2 ^ n \<and>
         io_space_blocks s' = block + 2 ^ n \<and> unat block \<le> 2 ^ 32 - 2 ^ n"
  using io_space_block [OF assms] by simp

theorem pci_block_aligned_witness:
  "2 ^ 12 dvd unat (fst (pci_get_io_space_block (pci_example\<lparr> io_space_blocks := 0xd2000400 \<rparr>) (2 ^ 12)))"
  using pci_block_aligned [of 12 "pci_example\<lparr> io_space_blocks := 0xd2000400 \<rparr>", OF _ _ prod.collapse [symmetric]]
  by simp

text \<open>
  start-up registers the two configuration port ranges and the configuration window, and nothing
  else.
\<close>

theorem pci_init_registers:
  assumes "ioport_inv s" "ports s = {}"
  shows "\<exists>s' t'. pci__init (Some a1) (Some a2) True (s, Leaf) = Some (0, s', t') \<and> ioport_inv s' \<and>
     rb_int_inv t' \<and>
     ports s' = {ioport_entry PCI_CONFIG_DATA pci_config_data_ops 4 0 a1,
                 ioport_entry PCI_CONFIG_ADDRESS pci_config_address_ops 4 0 a2} \<and>
     set (inorder t') = {\<lparr> low = KVM_PCI_CFG_AREA, high = KVM_PCI_CFG_AREA + PCI_CFG_SIZE,
                          entry = \<lparr> mmio_fn = pci_config_mmio_access, mmio_ptr = 0 \<rparr> \<rparr>}"
  by (rule pci_init_ok [OF assms])

theorem pci_init_registers_witness:
  "\<exists>s' t'. pci__init (Some 1) (Some 2) True (empty_io initial_devices, Leaf) = Some (0, s', t') \<and> ioport_inv s' \<and> rb_int_inv t'"
  using pci_init_registers [OF empty_io_ok [OF dev_inv_initial], of 1 2] by blast

end
