(* ===== verification/Guest_Memory.thy ===== *)
theory Guest_Memory
  imports Kvmc_Prelude
begin

section \<open>Guest memory banks (src/kvm.c, include/kvm/kvm.h)\<close>

text \<open>
  The list \<open>kvm->mem_banks\<close>, the registration of a region with its merge of reserved regions, and
  the translations between guest physical and host addresses. \<open>malloc\<close> and the result of
  \<^verbatim>\<open>KVM_SET_USER_MEMORY_REGION\<close> are arguments; host addresses are 64-bit words and \<open>0\<close> is NULL.
\<close>

datatype kvm_mem_type = KVM_MEM_TYPE_RAM | KVM_MEM_TYPE_DEVICE | KVM_MEM_TYPE_RESERVED

record kvm_mem_bank =
  guest_phys_addr :: u64
  host_addr :: u64
  bank_size :: u64
  mem_type :: kvm_mem_type

record kvm_mem =
  mem_banks :: "kvm_mem_bank list"
  mem_slots :: u32

text \<open>
  One pass over the list. The banks already visited are kept with a mark on the result of the last
  merge, which a later merge removes from the list.
\<close>

datatype scan_result =
    Overlap "kvm_mem_bank list"
  | Scanned "(kvm_mem_bank \<times> bool) list" u64 u64

definition bank_last :: "kvm_mem_bank \<Rightarrow> u64" where
  "bank_last bank = guest_phys_addr bank + bank_size bank - 1"

fun scan_banks ::
    "kvm_mem_type \<Rightarrow> (kvm_mem_bank \<times> bool) list \<Rightarrow> kvm_mem_bank list \<Rightarrow> u64 \<Rightarrow> u64 \<Rightarrow> scan_result" where
  "scan_banks type seen [] guest_phys sz = Scanned seen guest_phys sz"
| "scan_banks type seen (bank # banks) guest_phys sz =
     (let bank_end = bank_last bank;
          end' = guest_phys + sz - 1 in
      if guest_phys > bank_end \<or> end' < guest_phys_addr bank
      then scan_banks type (seen @ [(bank, False)]) banks guest_phys sz
      else if mem_type bank = KVM_MEM_TYPE_RESERVED \<and> type = KVM_MEM_TYPE_RESERVED
      then
        let start = min (guest_phys_addr bank) guest_phys;
            merged = bank\<lparr> guest_phys_addr := start, bank_size := max bank_end end' - start + 1 \<rparr> in
        scan_banks type (filter (\<lambda>(_, m). \<not> m) seen @ [(merged, True)]) banks
          (guest_phys_addr merged) (bank_size merged)
      else Overlap (map fst seen @ bank # banks))"

definition kvm__register_mem ::
    "bool \<Rightarrow> (u32 \<Rightarrow> u64 \<Rightarrow> u64 \<Rightarrow> u64 \<Rightarrow> int) \<Rightarrow> int \<Rightarrow> kvm_mem \<Rightarrow> u64 \<Rightarrow> u64 \<Rightarrow> u64 \<Rightarrow> kvm_mem_type \<Rightarrow> int \<times> kvm_mem" where
  "kvm__register_mem malloc set_region errno kvm guest_phys sz userspace_addr type =
     (case scan_banks type [] (mem_banks kvm) guest_phys sz of
        Overlap banks \<Rightarrow> (- EINVAL, kvm\<lparr> mem_banks := banks \<rparr>)
      | Scanned seen guest_phys sz \<Rightarrow>
          let kvm = kvm\<lparr> mem_banks := map fst seen \<rparr> in
          if (\<exists>x \<in> set seen. snd x) then (0, kvm)
          else if \<not> malloc then (- ENOMEM, kvm)
          else
            let bank = \<lparr> guest_phys_addr = guest_phys, host_addr = userspace_addr, bank_size = sz,
                         mem_type = type \<rparr>;
                slot = mem_slots kvm;
                ret = (if type \<noteq> KVM_MEM_TYPE_RESERVED then set_region slot guest_phys sz userspace_addr else 0);
                kvm = (if type \<noteq> KVM_MEM_TYPE_RESERVED then kvm\<lparr> mem_slots := slot + 1 \<rparr> else kvm) in
            if ret < 0 then (- errno, kvm)
            else (0, kvm\<lparr> mem_banks := bank # mem_banks kvm \<rparr>))"

definition kvm__register_ram ::
    "bool \<Rightarrow> (u32 \<Rightarrow> u64 \<Rightarrow> u64 \<Rightarrow> u64 \<Rightarrow> int) \<Rightarrow> int \<Rightarrow> kvm_mem \<Rightarrow> u64 \<Rightarrow> u64 \<Rightarrow> u64 \<Rightarrow> int \<times> kvm_mem" where
  "kvm__register_ram malloc set_region errno kvm guest_phys sz userspace_addr =
     kvm__register_mem malloc set_region errno kvm guest_phys sz userspace_addr KVM_MEM_TYPE_RAM"

definition kvm__register_dev_mem ::
    "bool \<Rightarrow> (u32 \<Rightarrow> u64 \<Rightarrow> u64 \<Rightarrow> u64 \<Rightarrow> int) \<Rightarrow> int \<Rightarrow> kvm_mem \<Rightarrow> u64 \<Rightarrow> u64 \<Rightarrow> u64 \<Rightarrow> int \<times> kvm_mem" where
  "kvm__register_dev_mem malloc set_region errno kvm guest_phys sz userspace_addr =
     kvm__register_mem malloc set_region errno kvm guest_phys sz userspace_addr KVM_MEM_TYPE_DEVICE"

definition kvm__reserve_mem ::
    "bool \<Rightarrow> (u32 \<Rightarrow> u64 \<Rightarrow> u64 \<Rightarrow> u64 \<Rightarrow> int) \<Rightarrow> int \<Rightarrow> kvm_mem \<Rightarrow> u64 \<Rightarrow> u64 \<Rightarrow> int \<times> kvm_mem" where
  "kvm__reserve_mem malloc set_region errno kvm guest_phys sz =
     kvm__register_mem malloc set_region errno kvm guest_phys sz 0 KVM_MEM_TYPE_RESERVED"

fun guest_flat_to_host :: "kvm_mem_bank list \<Rightarrow> u64 \<Rightarrow> u64" where
  "guest_flat_to_host [] offset = 0"
| "guest_flat_to_host (bank # banks) offset =
     (if offset \<ge> guest_phys_addr bank \<and> offset < guest_phys_addr bank + bank_size bank
      then host_addr bank + (offset - guest_phys_addr bank)
      else guest_flat_to_host banks offset)"

fun host_to_guest_flat :: "kvm_mem_bank list \<Rightarrow> u64 \<Rightarrow> u64" where
  "host_to_guest_flat [] p = 0"
| "host_to_guest_flat (bank # banks) p =
     (if p \<ge> host_addr bank \<and> p < host_addr bank + bank_size bank
      then guest_phys_addr bank + (p - host_addr bank)
      else host_to_guest_flat banks p)"

subsection \<open>Regions as intervals\<close>

definition region :: "u64 \<Rightarrow> u64 \<Rightarrow> nat set" where
  "region start sz = {unat start ..< unat start + unat sz}"

definition region_ok :: "u64 \<Rightarrow> u64 \<Rightarrow> bool" where
  "region_ok start sz \<longleftrightarrow> 0 < sz \<and> unat start + unat sz < 2 ^ 64"

definition bank_region :: "kvm_mem_bank \<Rightarrow> nat set" where
  "bank_region b = region (guest_phys_addr b) (bank_size b)"

definition disj :: "kvm_mem_bank \<Rightarrow> kvm_mem_bank \<Rightarrow> bool" where
  "disj a b \<longleftrightarrow> bank_region a \<inter> bank_region b = {}"

definition banks_ok :: "kvm_mem_bank list \<Rightarrow> bool" where
  "banks_ok bs \<longleftrightarrow> (\<forall>b \<in> set bs. region_ok (guest_phys_addr b) (bank_size b)) \<and>
     sorted_wrt disj bs"

lemma region_end:
  assumes "region_ok start sz"
  shows "unat (start + sz) = unat start + unat sz" "unat (start + sz - 1) = unat start + unat sz - 1"
proof -
  show s: "unat (start + sz) = unat start + unat sz"
    using assms by (simp add: region_ok_def unat_word_ariths)
  have "0 < unat sz" using assms by (simp add: region_ok_def word_less_nat_alt)
  with s have "(1 :: u64) \<le> start + sz" by (simp add: word_le_nat_alt)
  with s show "unat (start + sz - 1) = unat start + unat sz - 1" by (simp add: unat_sub)
qed

lemma interval_disjoint:
  fixes a m b n :: nat
  assumes "0 < m" "0 < n"
  shows "{a ..< a + m} \<inter> {b ..< b + n} = {} \<longleftrightarrow> a > b + n - 1 \<or> a + m - 1 < b"
proof
  assume "{a ..< a + m} \<inter> {b ..< b + n} = {}"
  moreover have "max a b \<in> {a ..< a + m} \<inter> {b ..< b + n}" if "\<not> (a > b + n - 1 \<or> a + m - 1 < b)"
    using that assms by auto
  ultimately show "a > b + n - 1 \<or> a + m - 1 < b" by blast
next
  assume "a > b + n - 1 \<or> a + m - 1 < b"
  then show "{a ..< a + m} \<inter> {b ..< b + n} = {}" using assms by auto
qed

text \<open>The overlap test of the code decides disjointness.\<close>

lemma overlap_test:
  assumes "region_ok gp sz" "region_ok (guest_phys_addr b) (bank_size b)"
  shows "(gp > bank_last b \<or> gp + sz - 1 < guest_phys_addr b) \<longleftrightarrow> region gp sz \<inter> bank_region b = {}"
proof -
  have pos: "0 < unat sz" "0 < unat (bank_size b)"
    using assms by (auto simp: region_ok_def word_less_nat_alt)
  show ?thesis
    using interval_disjoint [OF pos, of "unat gp" "unat (guest_phys_addr b)"]
      region_end(2) [OF assms(1)] region_end(2) [OF assms(2)]
    by (simp add: region_def bank_region_def bank_last_def word_less_nat_alt)
qed

lemma hull_union:
  fixes a m b n :: nat
  assumes "0 < m" "0 < n" "\<not> (a > b + n - 1 \<or> a + m - 1 < b)"
  shows "{min b a ..< max (b + n) (a + m)} = {b ..< b + n} \<union> {a ..< a + m}"
  using assms by (auto simp: min_def max_def)

lemma merged_region:
  assumes "region_ok gp sz" "region_ok (guest_phys_addr b) (bank_size b)"
    and "\<not> (gp > bank_last b \<or> gp + sz - 1 < guest_phys_addr b)"
  defines "start \<equiv> min (guest_phys_addr b) gp"
  defines "len \<equiv> max (bank_last b) (gp + sz - 1) - start + 1"
  shows "region_ok start len \<and> region start len = bank_region b \<union> region gp sz"
proof -
  let ?b = "unat (guest_phys_addr b)" and ?n = "unat (bank_size b)" and ?a = "unat gp" and ?m = "unat sz"
  have pos: "0 < ?m" "0 < ?n" using assms(1,2) by (auto simp: region_ok_def word_less_nat_alt)
  have bnd: "?b + ?n < 2 ^ 64" "?a + ?m < 2 ^ 64" using assms(1,2) by (auto simp: region_ok_def)
  have lasts: "unat (bank_last b) = ?b + ?n - 1" "unat (gp + sz - 1) = ?a + ?m - 1"
    using region_end(2) assms(1,2) by (simp_all add: bank_last_def)
  have st: "unat start = min ?b ?a" by (simp add: start_def min_def word_le_nat_alt)
  have mx: "unat (max (bank_last b) (gp + sz - 1)) = max (?b + ?n) (?a + ?m) - 1"
    using lasts pos by (auto simp: max_def word_le_nat_alt)
  have le: "start \<le> max (bank_last b) (gp + sz - 1)"
    unfolding word_le_nat_alt st mx using pos by auto
  have d: "unat (max (bank_last b) (gp + sz - 1) - start) = max (?b + ?n) (?a + ?m) - 1 - min ?b ?a"
    using unat_sub [OF le] st mx by simp
  have len: "unat len = max (?b + ?n) (?a + ?m) - min ?b ?a"
  proof -
    have "max (?b + ?n) (?a + ?m) - 1 - min ?b ?a + 1 < 2 ^ 64" using bnd pos by auto
    then have "unat len = max (?b + ?n) (?a + ?m) - 1 - min ?b ?a + 1"
      unfolding len_def using d by (simp add: unat_word_ariths)
    then show ?thesis using pos by auto
  qed
  have over: "\<not> (?a > ?b + ?n - 1 \<or> ?a + ?m - 1 < ?b)"
    using assms(3) lasts by (simp add: word_less_nat_alt)
  have "region start len = {min ?b ?a ..< max (?b + ?n) (?a + ?m)}"
    using pos by (auto simp: region_def st len)
  also have "\<dots> = bank_region b \<union> region gp sz"
    unfolding hull_union [OF pos over] by (simp add: bank_region_def region_def)
  finally show ?thesis
    using bnd pos st len by (auto simp: region_ok_def word_less_nat_alt)
qed


subsection \<open>Registration keeps the banks apart\<close>

definition scan_inv :: "(kvm_mem_bank \<times> bool) list \<Rightarrow> kvm_mem_bank list \<Rightarrow> u64 \<Rightarrow> u64 \<Rightarrow> bool" where
  "scan_inv seen banks gp sz \<longleftrightarrow>
     region_ok gp sz \<and>
     (\<forall>b \<in> fst ` set seen \<union> set banks. region_ok (guest_phys_addr b) (bank_size b)) \<and>
     sorted_wrt disj (map fst seen) \<and> sorted_wrt disj banks \<and>
     (\<forall>(x, m) \<in> set seen. \<not> m \<longrightarrow> (\<forall>b \<in> set banks. disj x b) \<and> bank_region x \<inter> region gp sz = {}) \<and>
     (\<forall>(x, m) \<in> set seen. m \<longrightarrow> bank_region x = region gp sz)"

definition scan_cover :: "(kvm_mem_bank \<times> bool) list \<Rightarrow> kvm_mem_bank list \<Rightarrow> u64 \<Rightarrow> u64 \<Rightarrow> nat set" where
  "scan_cover seen banks gp sz =
     (\<Union>b \<in> fst ` set seen \<union> set banks. bank_region b) \<union> region gp sz"

lemma sorted_wrt_map_filter: "sorted_wrt P (map f xs) \<Longrightarrow> sorted_wrt P (map f (filter Q xs))"
  by (induction xs) auto

lemma scan_inv_skip:
  assumes "scan_inv seen (bank # banks) gp sz" "region gp sz \<inter> bank_region bank = {}"
  shows "scan_inv (seen @ [(bank, False)]) banks gp sz"
proof -
  have "disj x bank" if "(x, m) \<in> set seen" for x m
    using assms that by (cases m) (fastforce simp: scan_inv_def disj_def)+
  then show ?thesis
    using assms by (auto simp: scan_inv_def sorted_wrt_append)
qed

lemma scan_inv_merge:
  assumes "scan_inv seen (bank # banks) gp sz"
    and "region_ok (guest_phys_addr m) (bank_size m)" "bank_region m = bank_region bank \<union> region gp sz"
  shows "scan_inv (filter (\<lambda>(_, m). \<not> m) seen @ [(m, True)]) banks (guest_phys_addr m) (bank_size m)"
proof -
  have reg: "region (guest_phys_addr m) (bank_size m) = bank_region bank \<union> region gp sz"
    using assms(3) by (simp add: bank_region_def)
  note inv = assms(1) [unfolded scan_inv_def]
  have old: "disj x bank \<and> (\<forall>b \<in> set banks. disj x b) \<and> bank_region x \<inter> region gp sz = {}"
    if "(x, False) \<in> set seen" for x
    using inv that by fastforce
  have away: "disj x m" if "(x, False) \<in> set seen" for x
    using old [OF that] by (auto simp: disj_def assms(3))
  have new: "(\<forall>b \<in> set banks. disj x b) \<and> bank_region x \<inter> region (guest_phys_addr m) (bank_size m) = {}"
    if "(x, False) \<in> set seen" for x
    using old [OF that] unfolding reg disj_def Int_Un_distrib by simp
  let ?seen = "filter (\<lambda>(_, m). \<not> m) seen @ [(m, True)]"
  show ?thesis
    unfolding scan_inv_def
  proof (intro conjI)
    show "region_ok (guest_phys_addr m) (bank_size m)" by (rule assms(2))
    show "\<forall>b \<in> fst ` set ?seen \<union> set banks. region_ok (guest_phys_addr b) (bank_size b)"
      using inv assms(2) by auto
    show "sorted_wrt disj (map fst ?seen)"
      using inv away by (auto simp: sorted_wrt_append sorted_wrt_map_filter)
    show "sorted_wrt disj banks" using inv by simp
    show "\<forall>(x, k) \<in> set ?seen. \<not> k \<longrightarrow>
        (\<forall>b \<in> set banks. disj x b) \<and> bank_region x \<inter> region (guest_phys_addr m) (bank_size m) = {}"
    proof
      fix y assume y: "y \<in> set ?seen"
      obtain x k where xk: "y = (x, k)" by fastforce
      show "case y of (x, k) \<Rightarrow> \<not> k \<longrightarrow> (\<forall>b \<in> set banks. disj x b) \<and>
          bank_region x \<inter> region (guest_phys_addr m) (bank_size m) = {}"
        using y new [of x] unfolding xk by (cases k) simp_all
    qed
    show "\<forall>(x, k) \<in> set ?seen. k \<longrightarrow> bank_region x = region (guest_phys_addr m) (bank_size m)"
      by (auto simp: bank_region_def)
  qed
qed

lemma Un_absorb_between: "A \<subseteq> K \<union> R \<Longrightarrow> K \<subseteq> A \<Longrightarrow> K \<union> R = A \<union> R"
  by blast

lemma scan_cover_merge:
  assumes "scan_inv seen (bank # banks) gp sz" "bank_region m = bank_region bank \<union> region gp sz"
  shows "scan_cover (filter (\<lambda>(_, m). \<not> m) seen @ [(m, True)]) banks (guest_phys_addr m) (bank_size m) =
         scan_cover seen (bank # banks) gp sz"
proof -
  have reg: "region (guest_phys_addr m) (bank_size m) = bank_region bank \<union> region gp sz"
    using assms(2) by (simp add: bank_region_def)
  have sub: "bank_region x \<subseteq> region gp sz" if "(x, True) \<in> set seen" for x
    using assms(1) that unfolding scan_inv_def by fastforce
  let ?kept = "fst ` set (filter (\<lambda>(_, m). \<not> m) seen)"
  have part: "bank_region (fst y) \<subseteq> (\<Union>b \<in> ?kept. bank_region b) \<union> region gp sz" if y: "y \<in> set seen" for y
  proof (cases "snd y")
    case True
    then have "(fst y, True) \<in> set seen" using y by (cases y) simp
    from sub [OF this] show ?thesis by (rule le_supI2)
  next
    case False
    then have "fst y \<in> ?kept" using y by (auto intro!: image_eqI [of _ _ y])
    then have "bank_region (fst y) \<subseteq> (\<Union>b \<in> ?kept. bank_region b)" by (rule UN_upper)
    then show ?thesis by (rule le_supI1)
  qed
  have 1: "(\<Union>b \<in> fst ` set seen. bank_region b) \<subseteq> (\<Union>b \<in> ?kept. bank_region b) \<union> region gp sz"
  proof (rule UN_least)
    fix b assume "b \<in> fst ` set seen"
    then obtain y where "y \<in> set seen" "b = fst y" by (rule imageE)
    with part show "bank_region b \<subseteq> (\<Union>b \<in> ?kept. bank_region b) \<union> region gp sz" by (simp only:)
  qed
  have 2: "(\<Union>b \<in> ?kept. bank_region b) \<subseteq> (\<Union>b \<in> fst ` set seen. bank_region b)"
    by (rule UN_mono) auto
  show ?thesis
    unfolding scan_cover_def reg
    using Un_absorb_between [OF 1 2] by (simp add: assms(2) Un_ac image_Un)
qed

lemma scan_banks_inv:
  assumes "scan_inv seen banks gp sz" "scan_banks ty seen banks gp sz = Scanned seen' gp' sz'"
  shows "scan_inv seen' [] gp' sz' \<and> scan_cover seen' [] gp' sz' = scan_cover seen banks gp sz"
  using assms
proof (induction banks arbitrary: seen gp sz)
  case Nil
  then show ?case by simp
next
  case (Cons bank banks)
  have ok: "region_ok gp sz" "region_ok (guest_phys_addr bank) (bank_size bank)"
    using Cons.prems(1) by (auto simp: scan_inv_def)
  consider (skip) "gp > bank_last bank \<or> gp + sz - 1 < guest_phys_addr bank"
    | (merge) "\<not> (gp > bank_last bank \<or> gp + sz - 1 < guest_phys_addr bank)"
        "mem_type bank = KVM_MEM_TYPE_RESERVED \<and> ty = KVM_MEM_TYPE_RESERVED"
    | (fail) "\<not> (gp > bank_last bank \<or> gp + sz - 1 < guest_phys_addr bank)"
        "\<not> (mem_type bank = KVM_MEM_TYPE_RESERVED \<and> ty = KVM_MEM_TYPE_RESERVED)"
    by blast
  then show ?case
  proof cases
    case skip
    then have "region gp sz \<inter> bank_region bank = {}" using overlap_test [OF ok] by simp
    from Cons.IH [OF scan_inv_skip [OF Cons.prems(1) this]] Cons.prems(2) skip show ?thesis
      by (auto simp: Let_def scan_cover_def)
  next
    case merge
    let ?st = "min (guest_phys_addr bank) gp"
    let ?m = "bank\<lparr> guest_phys_addr := ?st, bank_size := max (bank_last bank) (gp + sz - 1) - ?st + 1 \<rparr>"
    have m: "region_ok (guest_phys_addr ?m) (bank_size ?m)" "bank_region ?m = bank_region bank \<union> region gp sz"
      using merged_region [OF ok merge(1)] by (simp_all add: bank_region_def)
    have "scan_banks ty (filter (\<lambda>(_, m). \<not> m) seen @ [(?m, True)]) banks (guest_phys_addr ?m) (bank_size ?m)
        = Scanned seen' gp' sz'"
      using Cons.prems(2) merge by (simp add: Let_def)
    from Cons.IH [OF scan_inv_merge [OF Cons.prems(1) m] this] scan_cover_merge [OF Cons.prems(1) m(2)]
    show ?thesis by simp
  next
    case fail
    then show ?thesis using Cons.prems(2) by (auto simp: Let_def split: if_splits)
  qed
qed

lemma scan_inv_start:
  "banks_ok bs \<Longrightarrow> region_ok gp sz \<Longrightarrow> scan_inv [] bs gp sz"
  by (simp add: banks_ok_def scan_inv_def disj_def)

lemma register_mem_keeps:
  assumes "banks_ok (mem_banks kvm)" "region_ok gp sz"
    and "kvm__register_mem malloc set_region errno kvm gp sz ua ty = (r, kvm')" "r \<noteq> - EINVAL"
    and "0 < errno"
  shows "banks_ok (mem_banks kvm') \<and>
    (r = 0 \<longrightarrow> (\<Union>b \<in> set (mem_banks kvm'). bank_region b) =
               (\<Union>b \<in> set (mem_banks kvm). bank_region b) \<union> region gp sz)"
proof -
  have "\<exists>seen gp' sz'. scan_banks ty [] (mem_banks kvm) gp sz = Scanned seen gp' sz'"
    using assms(3,4) by (auto simp: kvm__register_mem_def split: scan_result.splits)
  then obtain seen gp' sz' where scan: "scan_banks ty [] (mem_banks kvm) gp sz = Scanned seen gp' sz'" by blast
  from scan_banks_inv [OF scan_inv_start [OF assms(1,2)] scan]
  have inv: "scan_inv seen [] gp' sz'" and cover: "scan_cover seen [] gp' sz' = scan_cover [] (mem_banks kvm) gp sz"
    by auto
  have ok: "banks_ok (map fst seen)" using inv by (auto simp: scan_inv_def banks_ok_def disj_def)
  show ?thesis
  proof (cases "\<exists>x \<in> set seen. snd x")
    case True
    then obtain x where x: "x \<in> set seen" "snd x" by blast
    then have "bank_region (fst x) = region gp' sz'"
      using inv unfolding scan_inv_def by (cases x) auto
    with x(1) have "region gp' sz' \<subseteq> (\<Union>b \<in> fst ` set seen. bank_region b)" by blast
    then have "(\<Union>b \<in> fst ` set seen. bank_region b) = scan_cover seen [] gp' sz'"
      by (simp add: scan_cover_def Un_absorb2)
    then have "(\<Union>b \<in> set (map fst seen). bank_region b) =
        (\<Union>b \<in> set (mem_banks kvm). bank_region b) \<union> region gp sz"
      unfolding cover by (simp add: scan_cover_def)
    moreover have "r = 0" "mem_banks kvm' = map fst seen"
      using True assms(3) scan by (auto simp: kvm__register_mem_def Let_def)
    ultimately show ?thesis using ok by (simp only: simp_thms)
  next
    case False
    let ?b = "\<lparr> guest_phys_addr = gp', host_addr = ua, bank_size = sz', mem_type = ty \<rparr>"
    have "bank_region x \<inter> region gp' sz' = {}" if "x \<in> fst ` set seen" for x
      using inv False that by (fastforce simp: scan_inv_def)
    then have ok': "banks_ok (?b # map fst seen)"
      using inv by (auto simp: scan_inv_def banks_ok_def disj_def bank_region_def)
    have "(\<Union>b \<in> set (?b # map fst seen). bank_region b) = scan_cover seen [] gp' sz'"
      by (simp add: scan_cover_def bank_region_def Un_commute)
    also have "\<dots> = (\<Union>b \<in> set (mem_banks kvm). bank_region b) \<union> region gp sz"
      unfolding cover by (simp add: scan_cover_def)
    finally have c: "(\<Union>b \<in> set (?b # map fst seen). bank_region b) =
        (\<Union>b \<in> set (mem_banks kvm). bank_region b) \<union> region gp sz" .
    have "mem_banks kvm' = map fst seen \<and> r \<noteq> 0 \<or> mem_banks kvm' = ?b # map fst seen"
    proof (cases "malloc \<and> \<not> (ty \<noteq> KVM_MEM_TYPE_RESERVED \<and> set_region (mem_slots kvm) gp' sz' ua < 0)")
      case True
      then have "mem_banks kvm' = ?b # map fst seen"
        using False assms(3) scan by (auto simp: kvm__register_mem_def Let_def split: if_splits)
      then show ?thesis ..
    next
      case fail: False
      have "mem_banks kvm' = map fst seen \<and> (r = - ENOMEM \<or> r = - errno)"
        using False fail assms(3) scan by (auto simp: kvm__register_mem_def Let_def split: if_splits)
      then show ?thesis using assms(5) by (auto simp: ENOMEM_def)
    qed
    then show ?thesis
    proof (elim disjE conjE)
      assume "mem_banks kvm' = map fst seen" "r \<noteq> 0"
      then show ?thesis using ok by simp
    next
      assume "mem_banks kvm' = ?b # map fst seen"
      then show ?thesis using ok' c by (simp only: simp_thms)
    qed
  qed
qed


text \<open>
  A RAM or device region is refused exactly when it overlaps a registered bank, and then nothing
  changes.
\<close>

lemma scan_banks_plain:
  assumes "ty \<noteq> KVM_MEM_TYPE_RESERVED" "region_ok gp sz"
    and "\<forall>b \<in> set banks. region_ok (guest_phys_addr b) (bank_size b)"
  shows "scan_banks ty seen banks gp sz =
    (if \<exists>b \<in> set banks. region gp sz \<inter> bank_region b \<noteq> {}
     then Overlap (map fst seen @ banks) else Scanned (seen @ map (\<lambda>b. (b, False)) banks) gp sz)"
  using assms(3)
proof (induction banks arbitrary: seen)
  case Nil
  then show ?case by simp
next
  case (Cons b banks)
  then show ?case
    using assms(1) overlap_test [OF assms(2), of b] by (auto simp: Let_def)
qed

lemma register_ram_overlap:
  assumes "ty \<noteq> KVM_MEM_TYPE_RESERVED" "region_ok gp sz" "banks_ok (mem_banks kvm)"
  shows "(\<exists>b \<in> set (mem_banks kvm). region gp sz \<inter> bank_region b \<noteq> {}) \<Longrightarrow>
           kvm__register_mem malloc set_region errno kvm gp sz ua ty = (- EINVAL, kvm)"
    and "\<not> (\<exists>b \<in> set (mem_banks kvm). region gp sz \<inter> bank_region b \<noteq> {}) \<Longrightarrow> malloc \<Longrightarrow>
           0 \<le> set_region (mem_slots kvm) gp sz ua \<Longrightarrow>
           kvm__register_mem malloc set_region errno kvm gp sz ua ty =
             (0, kvm\<lparr> mem_slots := mem_slots kvm + 1,
                      mem_banks := \<lparr> guest_phys_addr = gp, host_addr = ua, bank_size = sz, mem_type = ty \<rparr>
                                   # mem_banks kvm \<rparr>)"
  using assms scan_banks_plain [OF assms(1,2), of "mem_banks kvm" "[]"]
  by (auto simp: kvm__register_mem_def banks_ok_def Let_def comp_def)

subsection \<open>Address translation\<close>

definition host_ok :: "kvm_mem_bank list \<Rightarrow> bool" where
  "host_ok bs \<longleftrightarrow> (\<forall>b \<in> set bs. region_ok (host_addr b) (bank_size b)) \<and>
     sorted_wrt (\<lambda>a b. region (host_addr a) (bank_size a) \<inter> region (host_addr b) (bank_size b) = {}) bs"

lemma in_region:
  assumes "region_ok start sz"
  shows "start \<le> a \<and> a < start + sz \<longleftrightarrow> unat a \<in> region start sz"
  using region_end(1) [OF assms] by (auto simp: region_def word_le_nat_alt word_less_nat_alt)

lemma flat_to_host_bank:
  assumes "banks_ok bs" "b \<in> set bs" "unat a \<in> bank_region b"
  shows "guest_flat_to_host bs a = host_addr b + (a - guest_phys_addr b)"
  using assms
proof (induction bs)
  case Nil
  then show ?case by simp
next
  case (Cons c bs)
  have ok: "region_ok (guest_phys_addr c) (bank_size c)" using Cons.prems(1) by (simp add: banks_ok_def)
  show ?case
  proof (cases "unat a \<in> bank_region c")
    case True
    then have "c = b" using Cons.prems by (auto simp: banks_ok_def disj_def)
    with True in_region [OF ok] show ?thesis by (simp add: bank_region_def)
  next
    case False
    then have "b \<in> set bs" "banks_ok bs" using Cons.prems by (auto simp: banks_ok_def)
    with False Cons.IH Cons.prems(3) in_region [OF ok, of a] show ?thesis by (auto simp: bank_region_def)
  qed
qed

lemma host_to_flat_bank:
  assumes "host_ok bs" "b \<in> set bs" "unat p \<in> region (host_addr b) (bank_size b)"
  shows "host_to_guest_flat bs p = guest_phys_addr b + (p - host_addr b)"
  using assms
proof (induction bs)
  case Nil
  then show ?case by simp
next
  case (Cons c bs)
  have ok: "region_ok (host_addr c) (bank_size c)" using Cons.prems(1) by (simp add: host_ok_def)
  show ?case
  proof (cases "unat p \<in> region (host_addr c) (bank_size c)")
    case True
    then have "c = b" using Cons.prems by (auto simp: host_ok_def)
    with True in_region [OF ok] show ?thesis by simp
  next
    case False
    then have "b \<in> set bs" "host_ok bs" using Cons.prems by (auto simp: host_ok_def)
    with False Cons.IH Cons.prems(3) in_region [OF ok, of p] show ?thesis by auto
  qed
qed

lemma translation_roundtrip:
  assumes "banks_ok bs" "host_ok bs" "b \<in> set bs" "unat a \<in> bank_region b"
  shows "host_to_guest_flat bs (guest_flat_to_host bs a) = a"
proof -
  let ?p = "host_addr b + (a - guest_phys_addr b)"
  have ok: "region_ok (guest_phys_addr b) (bank_size b)" "region_ok (host_addr b) (bank_size b)"
    using assms(1-3) by (auto simp: banks_ok_def host_ok_def)
  have le: "guest_phys_addr b \<le> a" "unat a < unat (guest_phys_addr b) + unat (bank_size b)"
    using assms(4) by (auto simp: bank_region_def region_def word_le_nat_alt)
  have d: "unat (a - guest_phys_addr b) < unat (bank_size b)"
    using le by (simp add: unat_sub word_le_nat_alt)
  have "unat ?p = unat (host_addr b) + unat (a - guest_phys_addr b)"
    using ok(2) d by (simp add: unat_word_ariths region_ok_def)
  then have "unat ?p \<in> region (host_addr b) (bank_size b)" using d by (simp add: region_def)
  from host_to_flat_bank [OF assms(2,3) this] flat_to_host_bank [OF assms(1,3,4)]
  show ?thesis by simp
qed

lemma translation_unmapped:
  assumes "banks_ok bs" "\<forall>b \<in> set bs. unat a \<notin> bank_region b"
  shows "guest_flat_to_host bs a = 0"
  using assms
proof (induction bs)
  case Nil
  then show ?case by simp
next
  case (Cons c bs)
  have ok: "region_ok (guest_phys_addr c) (bank_size c)" using Cons.prems(1) by (simp add: banks_ok_def)
  have "banks_ok bs" using Cons.prems(1) by (simp add: banks_ok_def)
  with Cons in_region [OF ok, of a] show ?case by (auto simp: bank_region_def)
qed


subsection \<open>A refused reservation may leave its merge behind\<close>

definition merge_example :: kvm_mem where
  "merge_example =
     \<lparr> mem_banks = [\<lparr> guest_phys_addr = 0x1000, host_addr = 0, bank_size = 0x1000,
                       mem_type = KVM_MEM_TYPE_RESERVED \<rparr>,
                     \<lparr> guest_phys_addr = 0x3000, host_addr = 0x700000, bank_size = 0x1000,
                       mem_type = KVM_MEM_TYPE_RAM \<rparr>],
       mem_slots = 1 \<rparr>"

lemma refused_merge_kept:
  "banks_ok (mem_banks merge_example) \<and>
   kvm__reserve_mem True (\<lambda>_ _ _ _. 0) 0 merge_example 0x1800 0x2000 =
     (- EINVAL, merge_example\<lparr> mem_banks :=
        [\<lparr> guest_phys_addr = 0x1000, host_addr = 0, bank_size = 0x2800, mem_type = KVM_MEM_TYPE_RESERVED \<rparr>,
         \<lparr> guest_phys_addr = 0x3000, host_addr = 0x700000, bank_size = 0x1000, mem_type = KVM_MEM_TYPE_RAM \<rparr>] \<rparr>) \<and>
   \<not> banks_ok (mem_banks (snd (kvm__reserve_mem True (\<lambda>_ _ _ _. 0) 0 merge_example 0x1800 0x2000)))"
proof -
  have r: "kvm__reserve_mem True (\<lambda>_ _ _ _. 0) 0 merge_example 0x1800 0x2000 =
     (- EINVAL, merge_example\<lparr> mem_banks :=
        [\<lparr> guest_phys_addr = 0x1000, host_addr = 0, bank_size = 0x2800, mem_type = KVM_MEM_TYPE_RESERVED \<rparr>,
         \<lparr> guest_phys_addr = 0x3000, host_addr = 0x700000, bank_size = 0x1000, mem_type = KVM_MEM_TYPE_RAM \<rparr>] \<rparr>)"
    by (simp add: kvm__reserve_mem_def kvm__register_mem_def merge_example_def bank_last_def)
  have "banks_ok (mem_banks merge_example)"
    by (auto simp: banks_ok_def merge_example_def region_ok_def disj_def bank_region_def region_def)
  moreover have "(0x3000 :: nat) \<in> {0x1000 ..< 0x3800} \<inter> {0x3000 ..< 0x4000}" by simp
  then have "{0x1000 ..< 0x3800 :: nat} \<inter> {0x3000 ..< 0x4000} \<noteq> {}" by blast
  then have "\<not> banks_ok (mem_banks (snd (kvm__reserve_mem True (\<lambda>_ _ _ _. 0) 0 merge_example 0x1800 0x2000)))"
    unfolding r by (simp add: banks_ok_def disj_def bank_region_def region_def del: Int_atLeastLessThan)
  ultimately show ?thesis using r by simp
qed

subsection \<open>Claims\<close>



text \<open>
  C33: translating a guest address of some bank to the host and back gives the same address, when
  neither the guest nor the host ranges of the banks overlap.
\<close>

theorem guest_host_roundtrip:
  assumes "banks_ok bs" "host_ok bs" "b \<in> set bs" "unat a \<in> bank_region b"
  shows "host_to_guest_flat bs (guest_flat_to_host bs a) = a"
  by (rule translation_roundtrip [OF assms])

theorem guest_host_roundtrip_witness:
  "host_to_guest_flat (tl (mem_banks merge_example)) (guest_flat_to_host (tl (mem_banks merge_example)) 0x3abc) = 0x3abc"
  using guest_host_roundtrip [of "tl (mem_banks merge_example)" "hd (tl (mem_banks merge_example))" "0x3abc"]
  by (auto simp: banks_ok_def host_ok_def merge_example_def region_ok_def bank_region_def region_def)

end
