(* ===== verification/Virt_Queue.thy ===== *)
theory Virt_Queue
  imports Guest_Memory
begin

section \<open>Virtqueues (hw/virtio/core.c, include/kvm/virtio.h)\<close>

text \<open>
  The ring shared with the guest is a record of its three parts: the descriptor table, the available
  ring (written by the guest) and the used ring (written by the monitor). Indices into the tables
  are not bounded by the types, as the memory is the guest's. \<open>avail_ring num\<close> is the used-event
  word and \<open>avail_event\<close> the word after the used ring, as \<^verbatim>\<open>linux/virtio_ring.h\<close> lays them
  out. On x86 guest and host share one byte order, so the conversion macros are identities.
  \<open>host\<close> is \<^verbatim>\<open>guest_flat_to_host\<close> of the machine and \<open>mem_desc a i\<close> the \<open>i\<close>-th descriptor of a table that
  starts at host address \<open>a\<close>.
\<close>

record vring_desc =
  desc_addr :: u64
  desc_len :: u32
  desc_flags :: u16
  desc_next :: u16

record vring_used_elem =
  used_id :: u32
  used_len :: u32

record vring =
  num :: u32
  desc :: "nat \<Rightarrow> vring_desc"
  avail_flags :: u16
  avail_idx :: u16
  avail_ring :: "nat \<Rightarrow> u16"
  used_idx :: u16
  used_ring :: "nat \<Rightarrow> vring_used_elem"
  avail_event :: u16

record virt_queue =
  vring :: vring
  avail_mapped :: bool
  pfn :: u32
  last_avail_idx :: u16
  last_used_signalled :: u16
  endian :: u16
  use_event_idx :: bool

record iovec =
  iov_base :: u64
  iov_len :: u64

definition VRING_DESC_F_NEXT :: u16 where "VRING_DESC_F_NEXT = 1"
definition VRING_DESC_F_WRITE :: u16 where "VRING_DESC_F_WRITE = 2"
definition VRING_DESC_F_INDIRECT :: u16 where "VRING_DESC_F_INDIRECT = 4"
definition VRING_AVAIL_F_NO_INTERRUPT :: u16 where "VRING_AVAIL_F_NO_INTERRUPT = 1"
definition VIRTIO_RING_F_EVENT_IDX :: u32 where "VIRTIO_RING_F_EVENT_IDX = 29"
definition VIRTIO_PCI_O_CONFIG :: int where "VIRTIO_PCI_O_CONFIG = 0"
definition VIRTIO_PCI_O_MSIX :: int where "VIRTIO_PCI_O_MSIX = 1"

definition virt_queue__used_idx_advance :: "virt_queue \<Rightarrow> u16 \<Rightarrow> virt_queue" where
  "virt_queue__used_idx_advance q jump =
     q\<lparr> vring := (vring q)\<lparr> used_idx := used_idx (vring q) + jump \<rparr> \<rparr>"

definition virt_queue__set_used_elem_no_update :: "virt_queue \<Rightarrow> u32 \<Rightarrow> u32 \<Rightarrow> u16 \<Rightarrow> virt_queue" where
  "virt_queue__set_used_elem_no_update q head len offset =
     (let idx = used_idx (vring q) + offset;
          slot = unat idx mod unat (num (vring q)) in
      q\<lparr> vring := (vring q)\<lparr> used_ring :=
          (used_ring (vring q))(slot := \<lparr> used_id = head, used_len = len \<rparr>) \<rparr> \<rparr>)"

definition virt_queue__set_used_elem :: "virt_queue \<Rightarrow> u32 \<Rightarrow> u32 \<Rightarrow> virt_queue" where
  "virt_queue__set_used_elem q head len =
     virt_queue__used_idx_advance (virt_queue__set_used_elem_no_update q head len 0) 1"

definition virt_desc__test_flag :: "vring_desc \<Rightarrow> u16 \<Rightarrow> bool" where
  "virt_desc__test_flag d flag \<longleftrightarrow> desc_flags d AND flag \<noteq> 0"

definition next_desc :: "(nat \<Rightarrow> vring_desc) \<Rightarrow> u32 \<Rightarrow> u32 \<Rightarrow> u32" where
  "next_desc ds i mx =
     (if \<not> virt_desc__test_flag (ds (unat i)) VRING_DESC_F_NEXT then mx
      else min (ucast (desc_next (ds (unat i)))) mx)"

definition virt_queue__pop :: "virt_queue \<Rightarrow> u16 \<times> virt_queue" where
  "virt_queue__pop q =
     (avail_ring (vring q) (unat (last_avail_idx q) mod unat (num (vring q))),
      q\<lparr> last_avail_idx := last_avail_idx q + 1 \<rparr>)"

definition virt_queue__get_desc :: "virt_queue \<Rightarrow> u16 \<Rightarrow> vring_desc" where
  "virt_queue__get_desc q i = desc (vring q) (unat i)"

definition virt_queue__available :: "virt_queue \<Rightarrow> bool \<times> virt_queue" where
  "virt_queue__available q =
     (if \<not> avail_mapped q then (False, q)
      else
        let q = (if use_event_idx q
                 then q\<lparr> vring := (vring q)\<lparr> avail_event := last_avail_idx q \<rparr> \<rparr> else q)
        in (avail_idx (vring q) \<noteq> last_avail_idx q, q))"

text \<open>
  The walks along a descriptor chain. A chain that closes on itself makes the C loop run for
  ever: \<open>None\<close>. The vectors are arrays written at the running counts.
\<close>

type_synonym iov_state = "(nat \<Rightarrow> iovec) \<times> u16 \<times> u16"

definition desc_iov :: "(u64 \<Rightarrow> u64) \<Rightarrow> vring_desc \<Rightarrow> iovec" where
  "desc_iov host d = \<lparr> iov_base = host (desc_addr d), iov_len = ucast (desc_len d) \<rparr>"

partial_function (option) head_iov_loop ::
    "(u64 \<Rightarrow> u64) \<Rightarrow> (nat \<Rightarrow> vring_desc) \<Rightarrow> u16 \<Rightarrow> u16 \<Rightarrow> (nat \<Rightarrow> iovec) \<Rightarrow> u16 \<Rightarrow> u16 \<Rightarrow> iov_state option" where
  "head_iov_loop host ds mx idx iov out inn =
     (let d = ds (unat idx);
          iov = iov(unat out + unat inn := desc_iov host d);
          w = virt_desc__test_flag d VRING_DESC_F_WRITE;
          inn' = (if w then inn + 1 else inn);
          out' = (if w then out else out + 1);
          idx' = ucast (next_desc ds (ucast idx) (ucast mx)) in
      if idx' = mx then Some (iov, out', inn')
      else head_iov_loop host ds mx idx' iov out' inn')"

definition virt_queue__get_head_iov ::
    "(u64 \<Rightarrow> u64) \<Rightarrow> (u64 \<Rightarrow> nat \<Rightarrow> vring_desc) \<Rightarrow> virt_queue \<Rightarrow> (nat \<Rightarrow> iovec) \<Rightarrow> u16 \<Rightarrow> (u16 \<times> iov_state) option" where
  "virt_queue__get_head_iov host mem_desc q iov head =
     (let ds = desc (vring q); d = ds (unat head) in
      map_option (Pair head)
        (if virt_desc__test_flag d VRING_DESC_F_INDIRECT
         then head_iov_loop host (mem_desc (host (desc_addr d))) (ucast (desc_len d div 16)) 0 iov 0 0
         else head_iov_loop host ds (ucast (num (vring q))) head iov 0 0))"

definition virt_queue__get_iov ::
    "(u64 \<Rightarrow> u64) \<Rightarrow> (u64 \<Rightarrow> nat \<Rightarrow> vring_desc) \<Rightarrow> virt_queue \<Rightarrow> (nat \<Rightarrow> iovec)
       \<Rightarrow> ((u16 \<times> iov_state) \<times> virt_queue) option" where
  "virt_queue__get_iov host mem_desc q iov =
     (case virt_queue__pop q of (head, q) \<Rightarrow>
        map_option (\<lambda>r. (r, q)) (virt_queue__get_head_iov host mem_desc q iov head))"

partial_function (option) inout_iov_loop ::
    "(u64 \<Rightarrow> u64) \<Rightarrow> (nat \<Rightarrow> vring_desc) \<Rightarrow> u16 \<Rightarrow> (nat \<Rightarrow> iovec) \<Rightarrow> (nat \<Rightarrow> iovec) \<Rightarrow> u16 \<Rightarrow> u16
       \<Rightarrow> ((nat \<Rightarrow> iovec) \<times> (nat \<Rightarrow> iovec) \<times> u16 \<times> u16) option" where
  "inout_iov_loop host ds idx in_iov out_iov inn out =
     (let d = ds (unat idx);
          w = virt_desc__test_flag d VRING_DESC_F_WRITE;
          in_iov' = (if w then in_iov(unat inn := desc_iov host d) else in_iov);
          out_iov' = (if w then out_iov else out_iov(unat out := desc_iov host d));
          inn' = (if w then inn + 1 else inn);
          out' = (if w then out else out + 1) in
      if virt_desc__test_flag d VRING_DESC_F_NEXT
      then inout_iov_loop host ds (desc_next d) in_iov' out_iov' inn' out'
      else Some (in_iov', out_iov', inn', out'))"

definition virt_queue__get_inout_iov ::
    "(u64 \<Rightarrow> u64) \<Rightarrow> virt_queue \<Rightarrow> (nat \<Rightarrow> iovec) \<Rightarrow> (nat \<Rightarrow> iovec)
       \<Rightarrow> (u16 \<times> ((nat \<Rightarrow> iovec) \<times> (nat \<Rightarrow> iovec) \<times> u16 \<times> u16) \<times> virt_queue) option" where
  "virt_queue__get_inout_iov host q in_iov out_iov =
     (case virt_queue__pop q of (head, q) \<Rightarrow>
        map_option (\<lambda>r. (head, r, q)) (inout_iov_loop host (desc (vring q)) head in_iov out_iov 0 0))"

definition virtio__get_dev_specific_field :: "int \<Rightarrow> bool \<Rightarrow> int \<times> int option" where
  "virtio__get_dev_specific_field offset msix =
     (if msix \<and> offset < 4 then (VIRTIO_PCI_O_MSIX, None)
      else (VIRTIO_PCI_O_CONFIG, Some (if msix then offset - 4 else offset)))"

definition vring_used_event :: "vring \<Rightarrow> u16" where
  "vring_used_event vr = avail_ring vr (unat (num vr))"

text \<open>\<open>need_event\<close> is \<^verbatim>\<open>vring_need_event\<close> of the system header \<^verbatim>\<open>linux/virtio_ring.h\<close>.\<close>

definition virtio_queue__should_signal ::
    "(u16 \<Rightarrow> u16 \<Rightarrow> u16 \<Rightarrow> bool) \<Rightarrow> virt_queue \<Rightarrow> bool \<times> virt_queue" where
  "virtio_queue__should_signal need_event q =
     (if \<not> use_event_idx q then (avail_flags (vring q) AND VRING_AVAIL_F_NO_INTERRUPT = 0, q)
      else
        let new_idx = used_idx (vring q) in
        if need_event (vring_used_event (vring q)) new_idx (last_used_signalled q)
        then (True, q\<lparr> last_used_signalled := new_idx \<rparr>)
        else (False, q))"

record virtio_device =
  use_vhost :: bool
  vdev_endian :: u16
  features :: u32

definition virtio_init_device_vq :: "virtio_device \<Rightarrow> virt_queue \<Rightarrow> virt_queue" where
  "virtio_init_device_vq vdev q =
     q\<lparr> endian := vdev_endian vdev, use_event_idx := (features vdev AND VIRTIO_RING_F_EVENT_IDX \<noteq> 0) \<rparr>"

definition virtio_get_vq :: "(u64 \<Rightarrow> u64) \<Rightarrow> u32 \<Rightarrow> u32 \<Rightarrow> u64" where
  "virtio_get_vq host p page_size = host (ucast p * ucast page_size)"

text \<open>\<open>set_ops\<close> is the device's \<open>set_guest_features\<close> callback on its own state.\<close>

definition virtio_set_guest_features ::
    "(u32 \<Rightarrow> 'd \<Rightarrow> 'd) \<Rightarrow> virtio_device \<Rightarrow> 'd \<Rightarrow> u32 \<Rightarrow> virtio_device \<times> 'd" where
  "virtio_set_guest_features set_ops vdev dev fs = (vdev\<lparr> features := fs \<rparr>, set_ops fs dev)"

subsection \<open>The used ring\<close>

fun set_used_elems :: "virt_queue \<Rightarrow> (u32 \<times> u32) list \<Rightarrow> virt_queue" where
  "set_used_elems q [] = q"
| "set_used_elems q ((h, l) # es) = set_used_elems (virt_queue__set_used_elem q h l) es"

fun set_used_batch :: "virt_queue \<Rightarrow> nat \<Rightarrow> (u32 \<times> u32) list \<Rightarrow> virt_queue" where
  "set_used_batch q k [] = q"
| "set_used_batch q k ((h, l) # es) =
     set_used_batch (virt_queue__set_used_elem_no_update q h l (of_nat k)) (Suc k) es"

lemma no_update_advance:
  "virt_queue__set_used_elem_no_update (virt_queue__used_idx_advance q j) h l k =
   virt_queue__used_idx_advance (virt_queue__set_used_elem_no_update q h l (j + k)) j"
  by (simp add: virt_queue__set_used_elem_no_update_def virt_queue__used_idx_advance_def Let_def add.assoc)

lemma advance_advance:
  "virt_queue__used_idx_advance (virt_queue__used_idx_advance q i) j = virt_queue__used_idx_advance q (i + j)"
  by (simp add: virt_queue__used_idx_advance_def add.assoc)

lemma batch_advance:
  "set_used_batch (virt_queue__used_idx_advance q (of_nat j)) k es =
   virt_queue__used_idx_advance (set_used_batch q (j + k) es) (of_nat j)"
proof (induction es arbitrary: q k)
  case Nil
  then show ?case by simp
next
  case (Cons e es)
  then show ?case by (cases e) (simp add: no_update_advance del: of_nat_Suc)
qed

text \<open>
  C8: filling slots ahead of the index and advancing once is the same as completing the buffers one by
  one, for every queue size and also across the wrap of the 16-bit index.
\<close>

lemma batch_eq_single:
  "virt_queue__used_idx_advance (set_used_batch q 0 es) (of_nat (length es)) = set_used_elems q es"
proof (induction es arbitrary: q)
  case Nil
  then show ?case by (simp add: virt_queue__used_idx_advance_def)
next
  case (Cons e es)
  obtain h l where e: "e = (h, l)" by (cases e) auto
  let ?q = "virt_queue__set_used_elem_no_update q h l 0"
  have "set_used_elems q (e # es) =
      virt_queue__used_idx_advance (set_used_batch (virt_queue__used_idx_advance ?q 1) 0 es) (of_nat (length es))"
    by (simp add: e virt_queue__set_used_elem_def Cons.IH)
  also have "set_used_batch (virt_queue__used_idx_advance ?q 1) 0 es =
      virt_queue__used_idx_advance (set_used_batch ?q 1 es) 1"
    using batch_advance [of ?q 1 0 es] by simp
  finally show ?case by (simp add: e advance_advance add.commute)
qed

lemma slot_successor:
  assumes "k \<le> 16"
  shows "unat (i + 1 :: u16) mod 2 ^ k = (unat i mod 2 ^ k + 1) mod 2 ^ k"
proof -
  have "(2 :: nat) ^ k dvd 2 ^ 16" using assms by (rule le_imp_power_dvd)
  then have "(unat i + 1) mod 2 ^ 16 mod 2 ^ k = (unat i + 1) mod 2 ^ k" by (rule mod_mod_cancel)
  then show ?thesis by (simp add: unat_word_ariths mod_simps)
qed

lemma set_used_elem_publish:
  assumes "num (vring q) \<noteq> 0"
  shows "used_ring (vring (virt_queue__set_used_elem q h l)) =
      (used_ring (vring q))(unat (used_idx (vring q)) mod unat (num (vring q)) := \<lparr> used_id = h, used_len = l \<rparr>)"
    and "used_idx (vring (virt_queue__set_used_elem q h l)) = used_idx (vring q) + 1"
    and "unat (used_idx (vring q)) mod unat (num (vring q)) < unat (num (vring q))"
  using assms
  by (simp_all add: virt_queue__set_used_elem_def virt_queue__set_used_elem_no_update_def
      virt_queue__used_idx_advance_def Let_def word_gt_0 unat_gt_0)


subsection \<open>Notification suppression\<close>

text \<open>
  The virtio specification defines the test as a wrapped comparison; it asks whether the event index
  lies in the window of completions since the last signal.
\<close>

definition vring_need_event :: "u16 \<Rightarrow> u16 \<Rightarrow> u16 \<Rightarrow> bool" where
  "vring_need_event event_idx new_idx old \<longleftrightarrow> new_idx - event_idx - 1 < new_idx - old"

lemma need_event_offset: "vring_need_event e n o' \<longleftrightarrow> e - o' < n - o'"
proof -
  have "n - e - 1 < n - o' \<longleftrightarrow> e - o' < n - o'" if "d = n - o'" "x = e - o'" for d x
  proof -
    have "n - e - 1 = d - x - 1" using that by simp
    moreover have "d - x - 1 < d \<longleftrightarrow> x < d"
    proof (cases "x < d")
      case True
      then have "1 \<le> d - x" by (simp add: word_le_nat_alt word_less_nat_alt unat_sub)
      then have "unat (d - x - 1) = unat d - unat x - 1"
        using True by (simp add: unat_sub word_le_nat_alt word_less_nat_alt)
      with True show ?thesis by (simp add: word_less_nat_alt)
    next
      case False
      have bnd: "uint x < 2 ^ 16" "0 \<le> uint d" using uint_lt2p [of x] by simp_all
      have "uint (d - x - 1) = (uint d - uint x - 1) mod 2 ^ 16" by (simp add: uint_word_ariths mod_simps)
      also have "\<dots> = uint d - uint x - 1 + 2 ^ 16"
      proof -
        have "0 \<le> uint d - uint x - 1 + 2 ^ 16" "uint d - uint x - 1 + 2 ^ 16 < 2 ^ 16"
          using False bnd unfolding word_less_def by linarith+
        then have "(uint d - uint x - 1 + 2 ^ 16) mod 2 ^ 16 = uint d - uint x - 1 + 2 ^ 16"
          by (rule mod_pos_pos_trivial)
        then show ?thesis by (simp only: mod_add_self2)
      qed
      finally have "uint (d - x - 1) \<ge> uint d" using uint_lt2p [of x] by simp
      with False show ?thesis by (simp add: word_less_def)
    qed
    ultimately show ?thesis using that by simp
  qed
  then show ?thesis by (simp add: vring_need_event_def)
qed

lemma need_event_window:
  "vring_need_event e n o' \<longleftrightarrow> (\<exists>k. k < unat (n - o') \<and> e = o' + of_nat k)"
proof
  assume "vring_need_event e n o'"
  then have "unat (e - o') < unat (n - o')" by (simp add: need_event_offset word_less_nat_alt)
  moreover have "e = o' + of_nat (unat (e - o'))" by simp
  ultimately show "\<exists>k. k < unat (n - o') \<and> e = o' + of_nat k" by blast
next
  assume "\<exists>k. k < unat (n - o') \<and> e = o' + of_nat k"
  then obtain k where k: "k < unat (n - o')" "e = o' + of_nat k" by blast
  have "k < 2 ^ 16" using k(1) unsigned_less [of "n - o'", where 'a = nat] by simp
  then have "unat (e - o') = k" using k(2) by (simp add: unat_of_nat)
  then show "vring_need_event e n o'" using k(1) by (simp add: need_event_offset word_less_nat_alt)
qed

text \<open>
  The queue set-up tests the feature word against the feature's number, 29, instead of its bit:
  negotiating exactly the event-index feature leaves it off.
\<close>

lemma event_idx_not_enabled:
  "features vdev = 2 ^ 29 \<Longrightarrow> \<not> use_event_idx (virtio_init_device_vq vdev q)"
  by (simp add: virtio_init_device_vq_def VIRTIO_RING_F_EVENT_IDX_def)

subsection \<open>Descriptor chains\<close>

fun desc_chain :: "(nat \<Rightarrow> vring_desc) \<Rightarrow> u16 \<Rightarrow> u16 \<Rightarrow> u16 list \<Rightarrow> bool" where
  "desc_chain ds mx i [] \<longleftrightarrow> False"
| "desc_chain ds mx i [j] \<longleftrightarrow> i = j \<and> ucast (next_desc ds (ucast i) (ucast mx)) = mx"
| "desc_chain ds mx i (j # k # ks) \<longleftrightarrow> i = j \<and> ucast (next_desc ds (ucast i) (ucast mx)) = k \<and> k \<noteq> mx \<and>
     desc_chain ds mx k (k # ks)"

definition writable :: "(nat \<Rightarrow> vring_desc) \<Rightarrow> u16 \<Rightarrow> bool" where
  "writable ds i = virt_desc__test_flag (ds (unat i)) VRING_DESC_F_WRITE"

fun fill_iov :: "(nat \<Rightarrow> iovec) \<Rightarrow> nat \<Rightarrow> iovec list \<Rightarrow> (nat \<Rightarrow> iovec)" where
  "fill_iov iov k [] = iov"
| "fill_iov iov k (v # vs) = fill_iov (iov(k := v)) (Suc k) vs"

lemma fill_iov_nth:
  "fill_iov iov k vs i = (if k \<le> i \<and> i < k + length vs then vs ! (i - k) else iov i)"
  by (induction vs arbitrary: iov k) (auto simp: nth_Cons')

lemma unat_count_Suc: "unat (n :: u16) + m < 65536 \<Longrightarrow> 0 < m \<Longrightarrow> unat (n + 1) = unat n + 1"
  by (simp add: unat_word_ariths)

text \<open>
  Along a finite chain the walk returns; it fills the vector with the buffers of the chain in
  order and counts the device-readable and device-writable ones.
\<close>

lemma head_iov_chain:
  assumes "desc_chain ds mx i is" "unat out + unat inn + length is < 65536"
  shows "\<exists>out' inn'. head_iov_loop host ds mx i iov out inn =
     Some (fill_iov iov (unat out + unat inn) (map (\<lambda>j. desc_iov host (ds (unat j))) is), out', inn') \<and>
     unat out' = unat out + length (filter (\<lambda>j. \<not> writable ds j) is) \<and>
     unat inn' = unat inn + length (filter (writable ds) is)"
  using assms
proof (induction ds mx i "is" arbitrary: iov out inn rule: desc_chain.induct)
  case (1 ds mx i)
  then show ?case by simp
next
  case (2 ds mx i j)
  then show ?case
    by (subst head_iov_loop.simps) (auto simp: Let_def writable_def unat_word_ariths)
next
  case (3 ds mx i j k ks)
  let ?w = "virt_desc__test_flag (ds (unat i)) VRING_DESC_F_WRITE"
  let ?out = "if ?w then out else out + 1" and ?inn = "if ?w then inn + 1 else inn"
  let ?iov = "iov(unat out + unat inn := desc_iov host (ds (unat i)))"
  have nxt: "i = j" "ucast (next_desc ds (ucast i) (ucast mx)) = k" "k \<noteq> mx" "desc_chain ds mx k (k # ks)"
    using "3.prems"(1) by auto
  have cnt: "unat ?out = unat out + (if ?w then 0 else 1)" "unat ?inn = unat inn + (if ?w then 1 else 0)"
    using "3.prems"(2) by (auto simp: unat_word_ariths)
  have "unat ?out + unat ?inn + length (k # ks) < 65536" using cnt "3.prems"(2) by auto
  from "3.IH" [OF nxt(4) this, of ?iov] obtain out' inn' where ih:
    "head_iov_loop host ds mx k ?iov ?out ?inn =
       Some (fill_iov ?iov (unat ?out + unat ?inn) (map (\<lambda>j. desc_iov host (ds (unat j))) (k # ks)), out', inn')"
    "unat out' = unat ?out + length (filter (\<lambda>j. \<not> writable ds j) (k # ks))"
    "unat inn' = unat ?inn + length (filter (writable ds) (k # ks))" by blast
  have step: "head_iov_loop host ds mx i iov out inn = head_iov_loop host ds mx k ?iov ?out ?inn"
    using nxt by (subst head_iov_loop.simps) (simp add: Let_def)
  have "unat ?out + unat ?inn = Suc (unat out + unat inn)" using cnt by simp
  moreover have "writable ds j \<longleftrightarrow> ?w" using nxt(1) by (simp add: writable_def)
  ultimately show ?case using ih cnt nxt(1) unfolding step by simp
qed


lemma next_desc_bound: "next_desc ds i mx \<le> mx"
  by (simp add: next_desc_def)

lemma next_desc_ucast:
  "ucast (next_desc ds (ucast i) (ucast mx)) \<noteq> mx \<Longrightarrow> ucast (next_desc ds (ucast i) (ucast (mx :: u16))) < mx"
proof -
  let ?n = "next_desc ds (ucast i) (ucast mx)"
  assume ne: "ucast ?n \<noteq> mx"
  have "unat ?n \<le> unat mx" using next_desc_bound [of ds "ucast i" "ucast mx"]
    by (simp add: word_le_nat_alt unat_ucast_up)
  moreover have "unat ?n < 2 ^ 16" using calculation unsigned_less [of mx, where 'a = nat] by simp
  then have "unat (ucast ?n :: u16) = unat ?n" by (simp add: unsigned_ucast_eq take_bit_nat_eq_self)
  ultimately show ?thesis using ne by (metis le_neq_implies_less word_less_nat_alt word_unat_eq_iff)
qed

text \<open>A walk that starts inside the table never leaves it.\<close>

lemma chain_bounds: "desc_chain ds mx i is \<Longrightarrow> i < mx \<Longrightarrow> j \<in> set is \<Longrightarrow> j < mx"
  by (induction ds mx i "is" rule: desc_chain.induct) (auto dest: next_desc_ucast)

lemma get_head_iov_direct:
  assumes "\<not> virt_desc__test_flag (desc (vring q) (unat head)) VRING_DESC_F_INDIRECT"
    and "desc_chain (desc (vring q)) (ucast (num (vring q))) head is" "length is < 65536"
  shows "\<exists>out inn. virt_queue__get_head_iov host mem_desc q iov head =
     Some (head, fill_iov iov 0 (map (\<lambda>j. desc_iov host (desc (vring q) (unat j))) is), out, inn) \<and>
     unat out = length (filter (\<lambda>j. \<not> writable (desc (vring q)) j) is) \<and>
     unat inn = length (filter (writable (desc (vring q))) is)"
  using head_iov_chain [OF assms(2), of 0 0 host iov] assms(1,3)
  by (auto simp: virt_queue__get_head_iov_def Let_def)

lemma get_head_iov_indirect:
  assumes "d = desc (vring q) (unat head)" "virt_desc__test_flag d VRING_DESC_F_INDIRECT"
    and "ds = mem_desc (host (desc_addr d))"
    and "desc_chain ds (ucast (desc_len d div 16)) 0 is" "length is < 65536"
  shows "\<exists>out inn. virt_queue__get_head_iov host mem_desc q iov head =
     Some (head, fill_iov iov 0 (map (\<lambda>j. desc_iov host (ds (unat j))) is), out, inn) \<and>
     unat out = length (filter (\<lambda>j. \<not> writable ds j) is) \<and> unat inn = length (filter (writable ds) is)"
  using head_iov_chain [OF assms(4), of 0 0 host iov] assms(1,2,3,5)
  by (auto simp: virt_queue__get_head_iov_def Let_def)

text \<open>A descriptor that names itself as its successor makes the walk run for ever.\<close>

lemma head_iov_self_loop:
  assumes "ucast (next_desc ds (ucast i) (ucast mx)) = i" "i \<noteq> mx"
  shows "head_iov_loop host ds mx i iov out inn = None"
proof (rule ccontr)
  assume "head_iov_loop host ds mx i iov out inn \<noteq> None"
  then obtain r where "head_iov_loop host ds mx i iov out inn = Some r" by blast
  then have "\<not> (ucast (next_desc ds (ucast i) (ucast mx)) = i \<and> i \<noteq> mx)"
  proof (rule head_iov_loop.raw_induct [of "\<lambda>host ds mx idx iov out inn y.
      \<not> (ucast (next_desc ds (ucast idx) (ucast mx)) = idx \<and> idx \<noteq> mx)", rotated])
    fix f host ds and mx idx :: u16 and iov and out inn :: u16 and y
    assume ih: "\<And>host ds mx idx iov out inn y. f host ds mx idx iov out inn = Some y \<Longrightarrow>
        \<not> (ucast (next_desc ds (ucast idx) (ucast mx)) = idx \<and> idx \<noteq> mx)"
      and eq: "(let d = ds (unat idx); iov = iov(unat out + unat inn := desc_iov host d);
              w = virt_desc__test_flag d VRING_DESC_F_WRITE;
              inn' = (if w then inn + 1 else inn); out' = (if w then out else out + 1);
              idx' = ucast (next_desc ds (ucast idx) (ucast mx))
            in if idx' = mx then Some (iov, out', inn') else f host ds mx idx' iov out' inn') = Some y"
    show "\<not> (ucast (next_desc ds (ucast idx) (ucast mx)) = idx \<and> idx \<noteq> mx)"
    proof
      assume c: "ucast (next_desc ds (ucast idx) (ucast mx)) = idx \<and> idx \<noteq> mx"
      have "\<exists>iov out inn. f host ds mx idx iov out inn = Some y"
        using eq c by (auto simp: Let_def split: if_splits)
      with ih c show False by blast
    qed
  qed
  with assms show False by simp
qed

fun inout_chain :: "(nat \<Rightarrow> vring_desc) \<Rightarrow> u16 \<Rightarrow> u16 list \<Rightarrow> bool" where
  "inout_chain ds i [] \<longleftrightarrow> False"
| "inout_chain ds i [j] \<longleftrightarrow> i = j \<and> \<not> virt_desc__test_flag (ds (unat i)) VRING_DESC_F_NEXT"
| "inout_chain ds i (j # k # ks) \<longleftrightarrow> i = j \<and> virt_desc__test_flag (ds (unat i)) VRING_DESC_F_NEXT \<and>
     desc_next (ds (unat i)) = k \<and> inout_chain ds k (k # ks)"

lemma inout_iov_chain:
  assumes "inout_chain ds i is" "unat out + unat inn + length is < 65536"
  shows "\<exists>inn' out'. inout_iov_loop host ds i in_iov out_iov inn out =
     Some (fill_iov in_iov (unat inn) (map (\<lambda>j. desc_iov host (ds (unat j))) (filter (writable ds) is)),
           fill_iov out_iov (unat out) (map (\<lambda>j. desc_iov host (ds (unat j))) (filter (\<lambda>j. \<not> writable ds j) is)),
           inn', out') \<and>
     unat out' = unat out + length (filter (\<lambda>j. \<not> writable ds j) is) \<and>
     unat inn' = unat inn + length (filter (writable ds) is)"
  using assms
proof (induction ds i "is" arbitrary: in_iov out_iov inn out rule: inout_chain.induct)
  case (1 ds i)
  then show ?case by simp
next
  case (2 ds i j)
  then show ?case
    by (subst inout_iov_loop.simps) (auto simp: Let_def writable_def unat_word_ariths)
next
  case (3 ds i j k ks)
  let ?w = "virt_desc__test_flag (ds (unat i)) VRING_DESC_F_WRITE"
  let ?out = "if ?w then out else out + 1" and ?inn = "if ?w then inn + 1 else inn"
  let ?ii = "if ?w then in_iov(unat inn := desc_iov host (ds (unat i))) else in_iov"
  let ?oi = "if ?w then out_iov else out_iov(unat out := desc_iov host (ds (unat i)))"
  have nxt: "i = j" "virt_desc__test_flag (ds (unat i)) VRING_DESC_F_NEXT" "desc_next (ds (unat i)) = k"
    "inout_chain ds k (k # ks)"
    using "3.prems"(1) by auto
  have cnt: "unat ?out = unat out + (if ?w then 0 else 1)" "unat ?inn = unat inn + (if ?w then 1 else 0)"
    using "3.prems"(2) by (auto simp: unat_word_ariths)
  have "unat ?out + unat ?inn + length (k # ks) < 65536" using cnt "3.prems"(2) by auto
  from "3.IH" [OF nxt(4) this, of ?ii ?oi] obtain out' inn' where ih:
    "inout_iov_loop host ds k ?ii ?oi ?inn ?out =
       Some (fill_iov ?ii (unat ?inn) (map (\<lambda>j. desc_iov host (ds (unat j))) (filter (writable ds) (k # ks))),
             fill_iov ?oi (unat ?out) (map (\<lambda>j. desc_iov host (ds (unat j))) (filter (\<lambda>j. \<not> writable ds j) (k # ks))),
             inn', out')"
    "unat out' = unat ?out + length (filter (\<lambda>j. \<not> writable ds j) (k # ks))"
    "unat inn' = unat ?inn + length (filter (writable ds) (k # ks))" by blast
  have step: "inout_iov_loop host ds i in_iov out_iov inn out = inout_iov_loop host ds k ?ii ?oi ?inn ?out"
    using nxt by (subst inout_iov_loop.simps) (simp add: Let_def)
  have w: "writable ds j \<longleftrightarrow> ?w" using nxt(1) by (simp add: writable_def)
  show ?case
    using ih cnt nxt(1) w unfolding step by (cases ?w) simp_all
qed

subsection \<open>Claims\<close>

text \<open>
  C32: with the event index in use, the queue signals exactly when the guest's event index is one of the
  completions since the last signal, for every position of the 16-bit indices, and remembers the
  index it signalled at; otherwise it changes nothing.
\<close>

theorem should_signal_window:
  assumes "need_event = vring_need_event" "use_event_idx q"
    and "new_idx = used_idx (vring q)" "old = last_used_signalled q"
  shows "virtio_queue__should_signal need_event q =
    (if \<exists>k. k < unat (new_idx - old) \<and> avail_ring (vring q) (unat (num (vring q))) = old + of_nat k
     then (True, q\<lparr> last_used_signalled := new_idx \<rparr>) else (False, q))"
  using assms need_event_window [of "avail_ring (vring q) (unat (num (vring q)))" new_idx old]
  by (simp add: virtio_queue__should_signal_def vring_used_event_def Let_def)

definition queue_example :: virt_queue where
  "queue_example =
     \<lparr> vring = \<lparr> num = 4, desc = (\<lambda>i. \<lparr> desc_addr = 0x1000 * of_nat i, desc_len = 8,
                   desc_flags = (if i = 1 then VRING_DESC_F_NEXT else VRING_DESC_F_WRITE), desc_next = 3 \<rparr>),
                 avail_flags = 0, avail_idx = 1, avail_ring = (\<lambda>i. if i = 4 then 0xfffe else 1),
                 used_idx = 1, used_ring = (\<lambda>_. \<lparr> used_id = 0, used_len = 0 \<rparr>), avail_event = 0 \<rparr>,
       avail_mapped = True, pfn = 1, last_avail_idx = 0, last_used_signalled = 0xfffd, endian = 0, use_event_idx = True \<rparr>"

theorem should_signal_window_witness: "fst (virtio_queue__should_signal vring_need_event queue_example)"
proof -
  have h: "use_event_idx queue_example" "1 = used_idx (vring queue_example)" "0xfffd = last_used_signalled queue_example"
    and e: "avail_ring (vring queue_example) (unat (num (vring queue_example))) = 0xfffe"
    by (simp_all add: queue_example_def)
  have "\<exists>k. k < unat ((1 :: u16) - 0xfffd) \<and> (0xfffe :: u16) = 0xfffd + of_nat k" by (rule exI [of _ 1]) simp
  then show ?thesis unfolding should_signal_window [OF refl h] e by (simp only: if_True fst_conv)
qed

text \<open>
  C16: walking a descriptor chain of the table that ends returns, with one vector element per
  descriptor in chain order, each the translated guest buffer, and the counts of device-readable and
  device-writable buffers; no descriptor outside the table is read.
\<close>

theorem head_iov_walk:
  assumes "\<not> virt_desc__test_flag (desc (vring q) (unat head)) VRING_DESC_F_INDIRECT"
    and "desc_chain (desc (vring q)) (ucast (num (vring q))) head is" "length is < 65536"
    and "head < ucast (num (vring q))"
  shows "(\<exists>out inn. virt_queue__get_head_iov host mem_desc q iov head =
     Some (head, fill_iov iov 0 (map (\<lambda>j. desc_iov host (desc (vring q) (unat j))) is), out, inn) \<and>
     unat out = length (filter (\<lambda>j. \<not> writable (desc (vring q)) j) is) \<and>
     unat inn = length (filter (writable (desc (vring q))) is)) \<and>
     (\<forall>j \<in> set is. j < ucast (num (vring q)))"
  using get_head_iov_direct [OF assms(1-3)] chain_bounds [OF assms(2,4)] by blast

theorem head_iov_walk_witness:
  "\<exists>iov. virt_queue__get_head_iov (\<lambda>a. a + 5) (\<lambda>_ _. undefined) queue_example (\<lambda>_. \<lparr> iov_base = 0, iov_len = 0 \<rparr>) 1 =
     Some (1, iov, 1, 1) \<and> iov 1 = \<lparr> iov_base = 0x3005, iov_len = 8 \<rparr>"
proof -
  have c: "desc_chain (desc (vring queue_example)) (ucast (num (vring queue_example))) 1 [1, 3]"
    by (simp add: queue_example_def next_desc_def virt_desc__test_flag_def VRING_DESC_F_NEXT_def VRING_DESC_F_WRITE_def)
  have f: "\<not> virt_desc__test_flag (desc (vring queue_example) (unat (1 :: u16))) VRING_DESC_F_INDIRECT"
    "writable (desc (vring queue_example)) 3" "\<not> writable (desc (vring queue_example)) 1"
    by (simp_all add: queue_example_def virt_desc__test_flag_def VRING_DESC_F_NEXT_def VRING_DESC_F_INDIRECT_def
        VRING_DESC_F_WRITE_def writable_def)
  obtain out inn where r: "virt_queue__get_head_iov (\<lambda>a. a + 5) (\<lambda>_ _. undefined) queue_example (\<lambda>_. \<lparr> iov_base = 0, iov_len = 0 \<rparr>) 1 =
      Some (1, fill_iov (\<lambda>_. \<lparr> iov_base = 0, iov_len = 0 \<rparr>) 0 (map (\<lambda>j. desc_iov (\<lambda>a. a + 5) (desc (vring queue_example) (unat j))) [1, 3 :: u16]), out, inn)"
      "unat out = 1" "unat inn = 1"
    using head_iov_walk [OF f(1) c, of "\<lambda>a. a + 5" "\<lambda>_ _. undefined" "\<lambda>_. \<lparr> iov_base = 0, iov_len = 0 \<rparr>"] f
    by (auto simp: queue_example_def)
  then have "out = 1" "inn = 1" by (simp_all add: word_unat_eq_iff)
  with r(1) show ?thesis by (simp add: desc_iov_def queue_example_def)
qed

end
