(* ===== verification/Iovec.thy ===== *)
theory Iovec
  imports Virt_Queue
begin

section \<open>Scatter-gather copies (util/iovec.c)\<close>

text \<open>
  Host memory is a function from addresses to bytes and a vector a list of segments. The C loops
  step through the array without a bound: running off its end is \<open>None\<close>. \<open>min_t(unsigned int, ...)\<close>
  truncates a segment length to 32 bits, as in the code.
\<close>

type_synonym mem = "u64 \<Rightarrow> u8"

fun store :: "mem \<Rightarrow> u64 \<Rightarrow> u8 list \<Rightarrow> mem" where
  "store m a [] = m"
| "store m a (b # bs) = store (m(a := b)) (a + 1) bs"

definition load :: "mem \<Rightarrow> u64 \<Rightarrow> nat \<Rightarrow> u8 list" where
  "load m a n = map (\<lambda>i. m (a + of_nat i)) [0..<n]"

definition min_uint :: "u64 \<Rightarrow> nat \<Rightarrow> nat" where
  "min_uint a len = min (unat (ucast a :: u32)) len"

definition iov_skip :: "nat \<Rightarrow> iovec \<Rightarrow> iovec" where
  "iov_skip copy v = v\<lparr> iov_base := iov_base v + of_nat copy, iov_len := iov_len v - of_nat copy \<rparr>"

fun memcpy_toiovec :: "iovec list \<Rightarrow> u8 list \<Rightarrow> nat \<Rightarrow> mem \<Rightarrow> (iovec list \<times> mem) option" where
  "memcpy_toiovec vs kdata 0 m = Some (vs, m)"
| "memcpy_toiovec [] kdata (Suc n) m = None"
| "memcpy_toiovec (v # vs) kdata (Suc n) m =
     (if iov_len v \<noteq> 0
      then
        let copy = min_uint (iov_len v) (Suc n);
            m = store m (iov_base v) (take copy kdata) in
        map_option (\<lambda>(vs, m). (iov_skip copy v # vs, m))
          (memcpy_toiovec vs (drop copy kdata) (Suc n - copy) m)
      else map_option (\<lambda>(vs, m). (v # vs, m)) (memcpy_toiovec vs kdata (Suc n) m))"

fun memcpy_toiovecend :: "iovec list \<Rightarrow> u8 list \<Rightarrow> u64 \<Rightarrow> nat \<Rightarrow> mem \<Rightarrow> mem option" where
  "memcpy_toiovecend vs kdata offset 0 m = Some m"
| "memcpy_toiovecend [] kdata offset (Suc n) m = None"
| "memcpy_toiovecend (v # vs) kdata offset (Suc n) m =
     (if offset \<ge> iov_len v then memcpy_toiovecend vs kdata (offset - iov_len v) (Suc n) m
      else
        let copy = min_uint (iov_len v - offset) (Suc n);
            m = store m (iov_base v + offset) (take copy kdata) in
        memcpy_toiovecend vs (drop copy kdata) 0 (Suc n - copy) m)"

fun memcpy_fromiovec :: "iovec list \<Rightarrow> nat \<Rightarrow> mem \<Rightarrow> (u8 list \<times> iovec list) option" where
  "memcpy_fromiovec vs 0 m = Some ([], vs)"
| "memcpy_fromiovec [] (Suc n) m = None"
| "memcpy_fromiovec (v # vs) (Suc n) m =
     (if iov_len v \<noteq> 0
      then
        let copy = min_uint (iov_len v) (Suc n) in
        map_option (\<lambda>(bs, vs). (load m (iov_base v) copy @ bs, iov_skip copy v # vs))
          (memcpy_fromiovec vs (Suc n - copy) m)
      else map_option (\<lambda>(bs, vs). (bs, v # vs)) (memcpy_fromiovec vs (Suc n) m))"

fun fromiovecend_loop :: "iovec list \<Rightarrow> u64 \<Rightarrow> nat \<Rightarrow> mem \<Rightarrow> u8 list option" where
  "fromiovecend_loop vs offset 0 m = Some []"
| "fromiovecend_loop [] offset (Suc n) m = None"
| "fromiovecend_loop (v # vs) offset (Suc n) m =
     (let copy = min_uint (iov_len v - offset) (Suc n) in
      map_option (\<lambda>bs. load m (iov_base v + offset) copy @ bs)
        (fromiovecend_loop vs 0 (Suc n - copy) m))"

fun memcpy_fromiovecend :: "iovec list \<Rightarrow> u64 \<Rightarrow> nat \<Rightarrow> mem \<Rightarrow> u8 list option" where
  "memcpy_fromiovecend [] offset len m = None"
| "memcpy_fromiovecend (v # vs) offset len m =
     (if offset \<ge> iov_len v then memcpy_fromiovecend vs (offset - iov_len v) len m
      else fromiovecend_loop (v # vs) offset len m)"

subsection \<open>A vector as a list of addresses\<close>

definition seg_addrs :: "u64 \<Rightarrow> nat \<Rightarrow> u64 list" where
  "seg_addrs a n = map (\<lambda>i. a + of_nat i) [0..<n]"

definition iov_addrs :: "iovec list \<Rightarrow> u64 list" where
  "iov_addrs vs = concat (map (\<lambda>v. seg_addrs (iov_base v) (unat (iov_len v))) vs)"

definition iov_small :: "iovec list \<Rightarrow> bool" where
  "iov_small vs \<longleftrightarrow> (\<forall>v \<in> set vs. unat (iov_len v) < 2 ^ 32)"

fun write_at :: "mem \<Rightarrow> u64 list \<Rightarrow> u8 list \<Rightarrow> mem" where
  "write_at m (a # as) (b # bs) = write_at (m(a := b)) as bs"
| "write_at m as bs = m"

lemma length_seg_addrs [simp]: "length (seg_addrs a n) = n"
  by (simp add: seg_addrs_def)

lemma seg_addrs_Suc: "seg_addrs a (Suc n) = a # seg_addrs (a + 1) n"
  by (simp add: seg_addrs_def upt_conv_Cons map_Suc_upt [symmetric] add.commute add.left_commute del: upt_Suc)

lemma take_seg: "k \<le> n \<Longrightarrow> take k (seg_addrs a n) = seg_addrs a k"
  by (simp add: seg_addrs_def take_map)

lemma drop_seg: "k \<le> n \<Longrightarrow> drop k (seg_addrs a n) = seg_addrs (a + of_nat k) (n - k)"
  by (rule nth_equalityI) (simp_all add: seg_addrs_def)

lemma store_write_at: "store m a bs = write_at m (seg_addrs a (length bs)) bs"
  by (induction bs arbitrary: m a) (simp_all add: seg_addrs_Suc seg_addrs_def [of _ 0])

lemma load_seg: "load m a n = map m (seg_addrs a n)"
  by (simp add: load_def seg_addrs_def)

lemma write_at_append:
  "length as = length bs \<Longrightarrow> write_at m (as @ as') (bs @ bs') = write_at (write_at m as bs) as' bs'"
  by (induction m as bs rule: write_at.induct) auto

lemma min_uint_small: "unat a < 2 ^ 32 \<Longrightarrow> min_uint a n = min (unat a) n"
  by (simp add: min_uint_def unsigned_ucast_eq take_bit_nat_eq_self)

lemma iov_addrs_Cons: "iov_addrs (v # vs) = seg_addrs (iov_base v) (unat (iov_len v)) @ iov_addrs vs"
  by (simp add: iov_addrs_def)

lemma iov_addrs_skip:
  assumes "copy \<le> unat (iov_len v)"
  shows "iov_addrs (iov_skip copy v # vs) = drop copy (seg_addrs (iov_base v) (unat (iov_len v))) @ iov_addrs vs"
proof -
  have "of_nat copy \<le> iov_len v"
    using assms unsigned_less [of "iov_len v", where 'a = nat]
    by (simp add: word_le_nat_alt unat_of_nat)
  moreover have "unat (of_nat copy :: u64) = copy"
    using assms unsigned_less [of "iov_len v", where 'a = nat] by (simp add: unat_of_nat)
  ultimately have "unat (iov_len v - of_nat copy) = unat (iov_len v) - copy" by (simp add: unat_sub)
  then show ?thesis by (simp add: iov_addrs_Cons iov_skip_def drop_seg [OF assms])
qed

subsection \<open>The copies\<close>

lemma fromiovec_spec:
  assumes "iov_small vs" "n \<le> length (iov_addrs vs)"
  shows "\<exists>vs'. memcpy_fromiovec vs n m = Some (map m (take n (iov_addrs vs)), vs') \<and>
               iov_addrs vs' = drop n (iov_addrs vs)"
  using assms
proof (induction vs n m rule: memcpy_fromiovec.induct)
  case (3 v vs n m)
  let ?A = "seg_addrs (iov_base v) (unat (iov_len v))"
  have small: "unat (iov_len v) < 2 ^ 32" "iov_small vs" using "3.prems"(1) by (auto simp: iov_small_def)
  show ?case
  proof (cases "iov_len v = 0")
    case True
    then show ?thesis
      using "3.IH"(2) [OF _ small(2)] "3.prems"(2) by (auto simp: iov_addrs_Cons seg_addrs_def)
  next
    case False
    let ?c = "min (unat (iov_len v)) (Suc n)"
    have c: "min_uint (iov_len v) (Suc n) = ?c" using min_uint_small [OF small(1)] by simp
    have "Suc n - ?c \<le> length (iov_addrs vs)" using "3.prems"(2) by (simp add: iov_addrs_Cons)
    then obtain vs' where ih: "memcpy_fromiovec vs (Suc n - ?c) m =
        Some (map m (take (Suc n - ?c) (iov_addrs vs)), vs')" "iov_addrs vs' = drop (Suc n - ?c) (iov_addrs vs)"
      using "3.IH"(1) [OF _ c [symmetric] small(2)] False by (auto simp: c)
    have "take (Suc n) (?A @ iov_addrs vs) = seg_addrs (iov_base v) ?c @ take (Suc n - ?c) (iov_addrs vs)"
      by (auto simp: min_def take_seg)
    moreover have "iov_addrs (iov_skip ?c v # vs') = drop (Suc n) (?A @ iov_addrs vs)"
      using iov_addrs_skip [of ?c v vs'] ih(2) by (auto simp: min_def)
    ultimately show ?thesis
      using False ih(1) by (simp add: c Let_def iov_addrs_Cons load_seg del: take_append drop_append)
  qed
qed (auto simp: iov_addrs_def)


lemma toiovec_spec:
  assumes "iov_small vs" "n \<le> length (iov_addrs vs)" "n \<le> length kd"
  shows "\<exists>vs'. memcpy_toiovec vs kd n m = Some (vs', write_at m (take n (iov_addrs vs)) (take n kd)) \<and>
               iov_addrs vs' = drop n (iov_addrs vs)"
  using assms
proof (induction vs kd n m rule: memcpy_toiovec.induct)
  case (3 v vs kd n m)
  let ?A = "seg_addrs (iov_base v) (unat (iov_len v))"
  have small: "unat (iov_len v) < 2 ^ 32" "iov_small vs" using "3.prems"(1) by (auto simp: iov_small_def)
  show ?case
  proof (cases "iov_len v = 0")
    case True
    then show ?thesis
      using "3.IH"(2) [OF _ small(2)] "3.prems"(2,3) by (auto simp: iov_addrs_Cons seg_addrs_def)
  next
    case False
    let ?c = "min (unat (iov_len v)) (Suc n)"
    let ?m = "store m (iov_base v) (take ?c kd)"
    have c: "min_uint (iov_len v) (Suc n) = ?c" using min_uint_small [OF small(1)] by simp
    have le: "Suc n - ?c \<le> length (iov_addrs vs)" "Suc n - ?c \<le> length (drop ?c kd)"
      using "3.prems"(2,3) by (auto simp: iov_addrs_Cons)
    obtain vs' where ih: "memcpy_toiovec vs (drop ?c kd) (Suc n - ?c) ?m =
        Some (vs', write_at ?m (take (Suc n - ?c) (iov_addrs vs)) (take (Suc n - ?c) (drop ?c kd)))"
      "iov_addrs vs' = drop (Suc n - ?c) (iov_addrs vs)"
      using "3.IH"(1) [OF _ c [symmetric] refl small(2)] False le by (auto simp: c)
    have len: "length (take ?c kd) = ?c" using "3.prems"(3) by simp
    have "take (Suc n) (?A @ iov_addrs vs) = seg_addrs (iov_base v) ?c @ take (Suc n - ?c) (iov_addrs vs)"
      by (auto simp: min_def take_seg)
    moreover have "take (Suc n) kd = take ?c kd @ take (Suc n - ?c) (drop ?c kd)"
      by (simp add: take_add [symmetric])
    moreover have "iov_addrs (iov_skip ?c v # vs') = drop (Suc n) (?A @ iov_addrs vs)"
      using iov_addrs_skip [of ?c v vs'] ih(2) by (auto simp: min_def)
    ultimately show ?thesis
      using False ih(1) len
      by (simp add: c Let_def iov_addrs_Cons store_write_at write_at_append del: take_append drop_append take_Suc)
  qed
qed (auto simp: iov_addrs_def)

lemma unat_skip_offset: "iov_len v \<le> off \<Longrightarrow> unat (off - iov_len v) = unat off - unat (iov_len v)"
  by (simp add: unat_sub)

lemma drop_in_first:
  assumes "unat off < unat (iov_len v)"
  shows "drop (unat off) (iov_addrs (v # vs)) =
    seg_addrs (iov_base v + off) (unat (iov_len v) - unat off) @ iov_addrs vs"
  using assms by (simp add: iov_addrs_Cons drop_seg)

lemma toiovecend_spec:
  assumes "iov_small vs" "unat off + n \<le> length (iov_addrs vs)" "n \<le> length kd"
  shows "memcpy_toiovecend vs kd off n m =
    Some (write_at m (take n (drop (unat off) (iov_addrs vs))) (take n kd))"
  using assms
proof (induction vs kd off n m rule: memcpy_toiovecend.induct)
  case (3 v vs kd off n m)
  have small: "unat (iov_len v) < 2 ^ 32" "iov_small vs" using "3.prems"(1) by (auto simp: iov_small_def)
  show ?case
  proof (cases "off \<ge> iov_len v")
    case True
    then have "unat (iov_len v) \<le> unat off" by (simp add: word_le_nat_alt)
    with True "3.IH"(1) [OF True small(2)] "3.prems"(2,3) show ?thesis
      by (simp add: iov_addrs_Cons unat_skip_offset)
  next
    case False
    then have lt: "unat off < unat (iov_len v)" by (simp add: word_le_nat_alt)
    have d: "unat (iov_len v - off) = unat (iov_len v) - unat off"
      using False by (simp add: unat_sub)
    let ?r = "unat (iov_len v) - unat off"
    let ?c = "min ?r (Suc n)"
    let ?m = "store m (iov_base v + off) (take ?c kd)"
    have c: "min_uint (iov_len v - off) (Suc n) = ?c"
      using min_uint_small [of "iov_len v - off" "Suc n"] small(1) d by simp
    have le: "unat (0 :: u64) + (Suc n - ?c) \<le> length (iov_addrs vs)" "Suc n - ?c \<le> length (drop ?c kd)"
      using "3.prems"(2,3) lt by (auto simp: iov_addrs_Cons)
    have ih: "memcpy_toiovecend vs (drop ?c kd) 0 (Suc n - ?c) ?m =
        Some (write_at ?m (take (Suc n - ?c) (iov_addrs vs)) (take (Suc n - ?c) (drop ?c kd)))"
      using "3.IH"(2) [OF False c [symmetric] refl small(2)] le by (simp add: c)
    have len: "length (take ?c kd) = ?c" using "3.prems"(3) by simp
    have "take (Suc n) (drop (unat off) (iov_addrs (v # vs))) =
        seg_addrs (iov_base v + off) ?c @ take (Suc n - ?c) (iov_addrs vs)"
      unfolding drop_in_first [OF lt] by (auto simp: min_def take_seg)
    moreover have "take (Suc n) kd = take ?c kd @ take (Suc n - ?c) (drop ?c kd)"
      by (simp add: take_add [symmetric])
    ultimately show ?thesis
      using False ih len by (simp add: c Let_def store_write_at write_at_append del: take_Suc)
  qed
qed (auto simp: iov_addrs_def)

lemma fromiovecend_loop_spec:
  assumes "iov_small vs" "unat off + n \<le> length (iov_addrs vs)" "vs \<noteq> [] \<Longrightarrow> off \<le> iov_len (hd vs)"
  shows "fromiovecend_loop vs off n m = Some (map m (take n (drop (unat off) (iov_addrs vs))))"
  using assms
proof (induction vs off n m rule: fromiovecend_loop.induct)
  case (3 v vs off n m)
  have small: "unat (iov_len v) < 2 ^ 32" "iov_small vs" using "3.prems"(1) by (auto simp: iov_small_def)
  have le: "off \<le> iov_len v" using "3.prems"(3) by simp
  then have lt: "unat off \<le> unat (iov_len v)" by (simp add: word_le_nat_alt)
  have d: "unat (iov_len v - off) = unat (iov_len v) - unat off" using le by (simp add: unat_sub)
  let ?r = "unat (iov_len v) - unat off"
  let ?c = "min ?r (Suc n)"
  have c: "min_uint (iov_len v - off) (Suc n) = ?c"
    using min_uint_small [of "iov_len v - off" "Suc n"] small(1) d by simp
  have "unat (0 :: u64) + (Suc n - ?c) \<le> length (iov_addrs vs)"
    using "3.prems"(2) lt by (auto simp: iov_addrs_Cons)
  then have ih: "fromiovecend_loop vs 0 (Suc n - ?c) m = Some (map m (take (Suc n - ?c) (iov_addrs vs)))"
    using "3.IH" [OF c [symmetric] small(2)] by (simp add: c)
  have "drop (unat off) (iov_addrs (v # vs)) = seg_addrs (iov_base v + off) ?r @ iov_addrs vs"
    using lt by (simp add: iov_addrs_Cons drop_seg)
  then have "take (Suc n) (drop (unat off) (iov_addrs (v # vs))) =
      seg_addrs (iov_base v + off) ?c @ take (Suc n - ?c) (iov_addrs vs)"
    by (auto simp: min_def take_seg)
  then show ?case using ih by (simp add: c Let_def load_seg del: take_Suc)
qed (auto simp: iov_addrs_def)

lemma fromiovecend_spec:
  assumes "iov_small vs" "unat off + n \<le> length (iov_addrs vs)" "unat off < length (iov_addrs vs)"
  shows "memcpy_fromiovecend vs off n m = Some (map m (take n (drop (unat off) (iov_addrs vs))))"
  using assms
proof (induction vs off n m rule: memcpy_fromiovecend.induct)
  case (1 off n m)
  then show ?case by (simp add: iov_addrs_def)
next
  case (2 v vs off n m)
  show ?case
  proof (cases "off \<ge> iov_len v")
    case True
    then have "unat (iov_len v) \<le> unat off" "iov_small vs"
      using "2.prems"(1) by (auto simp: word_le_nat_alt iov_small_def)
    with True "2.IH" [OF True] "2.prems"(2,3) show ?thesis
      by (simp add: iov_addrs_Cons unat_skip_offset)
  next
    case False
    then show ?thesis using fromiovecend_loop_spec [OF "2.prems"(1,2)] by simp
  qed
qed

lemma write_at_other: "a \<notin> set as \<Longrightarrow> write_at m as bs a = m a"
  by (induction m as bs rule: write_at.induct) auto

lemma write_at_read: "distinct as \<Longrightarrow> length as = length bs \<Longrightarrow> map (write_at m as bs) as = bs"
  by (induction m as bs rule: write_at.induct) (auto simp: write_at_other)

text \<open>C17: what is scattered into a vector without overlaps at an offset is gathered back from there.\<close>

lemma iovec_roundtrip:
  assumes "iov_small vs" "distinct (iov_addrs vs)" "n = length kd" "0 < n"
    and "unat off + n \<le> length (iov_addrs vs)"
  shows "\<exists>m'. memcpy_toiovecend vs kd off n m = Some m' \<and> memcpy_fromiovecend vs off n m' = Some kd \<and>
           (\<forall>a. a \<notin> set (iov_addrs vs) \<longrightarrow> m' a = m a)"
proof -
  let ?as = "take n (drop (unat off) (iov_addrs vs))"
  have "memcpy_toiovecend vs kd off n m = Some (write_at m ?as kd)"
    using toiovecend_spec [OF assms(1,5), of kd m] assms(3) by simp
  moreover have "memcpy_fromiovecend vs off n (write_at m ?as kd) = Some (map (write_at m ?as kd) ?as)"
    using fromiovecend_spec [OF assms(1,5)] assms(4,5) by simp
  moreover have "map (write_at m ?as kd) ?as = kd"
    using assms(2,3,5) by (intro write_at_read) auto
  moreover have "a \<notin> set (iov_addrs vs) \<Longrightarrow> write_at m ?as kd a = m a" for a
    by (rule write_at_other) (auto dest: in_set_takeD in_set_dropD)
  ultimately show ?thesis by auto
qed


definition iov_example :: "iovec list" where
  "iov_example = [\<lparr> iov_base = 16, iov_len = 2 \<rparr>, \<lparr> iov_base = 32, iov_len = 3 \<rparr>]"

lemma iov_example_addrs: "iov_addrs iov_example = [16, 17, 32, 33, 34]"
  by code_simp

lemma iovec_roundtrip_witness:
  "\<exists>m'. memcpy_toiovecend iov_example [7, 8, 9] 1 3 (\<lambda>_. 0) = Some m' \<and>
        memcpy_fromiovecend iov_example 1 3 m' = Some [7, 8, 9] \<and> m' 5 = 0"
proof -
  have "iov_small iov_example" by (simp add: iov_small_def iov_example_def)
  from iovec_roundtrip [OF this, of 3 "[7, 8, 9]" 1 "\<lambda>_. 0"] show ?thesis
    by (auto simp: iov_example_addrs)
qed

end
