(* ===== verification/P9_Pdu.thy ===== *)
theory P9_Pdu
  imports Iovec
begin

section \<open>Encoding of 9p messages (hw/virtio/9p-pdu.c, include/linux/9p.h)\<close>

text \<open>
  A message lies scattered over the guest buffers of a request: \<open>out_iov\<close> is read, \<open>in_iov\<close> written,
  each from its running offset. The format strings are strings, the variable arguments lists: of the
  values for \<^verbatim>\<open>writef\<close> (an \<^verbatim>\<open>int\<close>, a 64-bit integer, a string or a structure, as \<^verbatim>\<open>va_arg\<close> takes
  them) and of the objects pointed to, with their old contents, for \<^verbatim>\<open>readf\<close>. \<open>None\<close> is an argument
  list that does not fit the format. A C string is the list of its bytes before the terminator; a
  decoded string is the whole buffer with its terminator. A string that has been freed is \<open>None\<close>.

  A read that runs out of message leaves the rest of its destination as it was: \<open>uninit\<close> are the bytes of
  uninitialised memory. \<open>malloc n\<close> tells whether an allocation of \<open>n\<close> bytes succeeds.
\<close>

record p9_pdu =
  queue_head :: u32
  read_offset :: u64
  write_offset :: u64
  in_iov :: "iovec list"
  out_iov :: "iovec list"

record p9_qid =
  qid_type :: u8
  qid_version :: u32
  qid_path :: u64

record p9_wstat =
  ws_size :: u16
  ws_type :: u16
  ws_dev :: u32
  ws_qid :: p9_qid
  ws_mode :: u32
  ws_atime :: u32
  ws_mtime :: u32
  ws_length :: u64
  ws_name :: "u8 list option"
  ws_uid :: "u8 list option"
  ws_gid :: "u8 list option"
  ws_muid :: "u8 list option"
  ws_extension :: "u8 list option"
  ws_n_uid :: u32
  ws_n_gid :: u32
  ws_n_muid :: u32

record p9_stat_dotl =
  st_result_mask :: u64
  st_qid :: p9_qid
  st_mode :: u32
  st_uid :: u32
  st_gid :: u32
  st_nlink :: u64
  st_rdev :: u64
  st_size :: u64
  st_blksize :: u64
  st_blocks :: u64
  st_atime_sec :: u64
  st_atime_nsec :: u64
  st_mtime_sec :: u64
  st_mtime_nsec :: u64
  st_ctime_sec :: u64
  st_ctime_nsec :: u64
  st_btime_sec :: u64
  st_btime_nsec :: u64
  st_gen :: u64
  st_data_version :: u64

record p9_iattr_dotl =
  ia_valid :: u32
  ia_mode :: u32
  ia_uid :: u32
  ia_gid :: u32
  ia_size :: u64
  ia_atime_sec :: u64
  ia_atime_nsec :: u64
  ia_mtime_sec :: u64
  ia_mtime_nsec :: u64

datatype p9_value =
    V_int u32 | V_long u64 | V_str "u8 list option" | V_qid p9_qid | V_wstat p9_wstat | V_stat p9_stat_dotl

datatype p9_target =
    T_b u8 | T_w u16 | T_d u32 | T_q u64 | T_s "u8 list option" | T_Q p9_qid | T_S p9_wstat | T_I p9_iattr_dotl

subsection \<open>Raw reads and writes\<close>

fun pdu_read_loop :: "iovec list \<Rightarrow> u64 \<Rightarrow> u64 \<Rightarrow> mem \<Rightarrow> u8 list" where
  "pdu_read_loop [] offset sz m = []"
| "pdu_read_loop (v # vs) offset sz m =
     (if sz = 0 then []
      else if offset \<ge> iov_len v then pdu_read_loop vs (offset - iov_len v) sz m
      else
        let len = min (iov_len v - offset) sz in
        load m (iov_base v + offset) (unat len) @ pdu_read_loop vs 0 (sz - len) m)"

definition virtio_p9_pdu_read :: "p9_pdu \<Rightarrow> mem \<Rightarrow> u64 \<Rightarrow> u8 list \<times> p9_pdu" where
  "virtio_p9_pdu_read pdu m sz =
     (let bs = pdu_read_loop (out_iov pdu) (read_offset pdu) sz m in
      (bs, pdu\<lparr> read_offset := read_offset pdu + of_nat (length bs) \<rparr>))"

fun pdu_write_loop :: "iovec list \<Rightarrow> u64 \<Rightarrow> u8 list \<Rightarrow> u64 \<Rightarrow> mem \<Rightarrow> nat \<times> mem" where
  "pdu_write_loop [] offset d sz m = (0, m)"
| "pdu_write_loop (v # vs) offset d sz m =
     (if sz = 0 then (0, m)
      else if offset \<ge> iov_len v then pdu_write_loop vs (offset - iov_len v) d sz m
      else
        let len = min (iov_len v - offset) sz;
            (copied, m) = pdu_write_loop vs 0 (drop (unat len) d) (sz - len)
                            (store m (iov_base v + offset) (take (unat len) d)) in
        (unat len + copied, m))"

definition virtio_p9_pdu_write :: "u8 list \<Rightarrow> p9_pdu \<times> mem \<Rightarrow> p9_pdu \<times> mem" where
  "virtio_p9_pdu_write d st =
     (case st of (pdu, m) \<Rightarrow>
      case pdu_write_loop (in_iov pdu) (write_offset pdu) d (of_nat (length d)) m of (copied, m) \<Rightarrow>
        (pdu\<lparr> write_offset := write_offset pdu + of_nat copied \<rparr>, m))"

definition virtio_p9_wstat_free :: "p9_wstat \<Rightarrow> p9_wstat" where
  "virtio_p9_wstat_free s = s\<lparr> ws_name := None, ws_uid := None, ws_gid := None, ws_muid := None \<rparr>"

subsection \<open>Formats\<close>

text \<open>
  The formats of structures are formats of smaller ones; the weight of a format decreases from a
  structure to its fields and along the string.
\<close>

definition fmt_qid :: string where "fmt_qid = ''bdq''"
definition fmt_wstat :: string where "fmt_wstat = ''wwdQdddqssss''"
definition fmt_iattr :: string where "fmt_iattr = ''ddddqqqqq''"
definition fmt_stat :: string where "fmt_stat = ''qQdddqqqqqqqqqqqqqqq''"

definition char_weight :: "char \<Rightarrow> nat" where
  "char_weight c =
     (if c = CHR ''s'' then 2 else if c = CHR ''Q'' then 4 else if c = CHR ''S'' then 20
      else if c = CHR ''I'' then 10 else if c = CHR ''A'' then 24 else 1)"

definition fmt_weight :: "string \<Rightarrow> nat" where
  "fmt_weight fmt = sum_list (map char_weight fmt)"

lemma fmt_weight_simps [simp]:
  "fmt_weight [] = 0" "fmt_weight (c # fmt) = char_weight c + fmt_weight fmt"
  by (simp_all add: fmt_weight_def)

lemma char_weight_pos [simp]: "0 < char_weight c"
  by (simp add: char_weight_def)

lemma fmt_weights: "fmt_weight fmt_qid = 3" "fmt_weight fmt_wstat = 19" "fmt_weight fmt_iattr = 9"
  "fmt_weight fmt_stat = 23" "fmt_weight ''w'' = 1"
  by (simp_all add: fmt_qid_def fmt_wstat_def fmt_iattr_def fmt_stat_def char_weight_def)

definition qid_values :: "p9_qid \<Rightarrow> p9_value list" where
  "qid_values q = [V_int (ucast (qid_type q)), V_int (qid_version q), V_long (qid_path q)]"

definition wstat_values :: "p9_wstat \<Rightarrow> p9_value list" where
  "wstat_values s =
     [V_int (ucast (ws_size s)), V_int (ucast (ws_type s)), V_int (ws_dev s), V_qid (ws_qid s),
      V_int (ws_mode s), V_int (ws_atime s), V_int (ws_mtime s), V_long (ws_length s),
      V_str (ws_name s), V_str (ws_uid s), V_str (ws_gid s), V_str (ws_muid s)]"

definition stat_values :: "p9_stat_dotl \<Rightarrow> p9_value list" where
  "stat_values s =
     [V_long (st_result_mask s), V_qid (st_qid s), V_int (st_mode s), V_int (st_uid s), V_int (st_gid s),
      V_long (st_nlink s), V_long (st_rdev s), V_long (st_size s), V_long (st_blksize s),
      V_long (st_blocks s), V_long (st_atime_sec s), V_long (st_atime_nsec s), V_long (st_mtime_sec s),
      V_long (st_mtime_nsec s), V_long (st_ctime_sec s), V_long (st_ctime_nsec s),
      V_long (st_btime_sec s), V_long (st_btime_nsec s), V_long (st_gen s), V_long (st_data_version s)]"

text \<open>The string length is at most \<^verbatim>\<open>USHRT_MAX\<close>; a NULL string is encoded as an empty one.\<close>

definition str_len :: "u8 list option \<Rightarrow> nat" where
  "str_len s = (case s of None \<Rightarrow> 0 | Some bs \<Rightarrow> min (length bs) 65535)"

definition str_bytes :: "u8 list option \<Rightarrow> u8 list" where
  "str_bytes s = (case s of None \<Rightarrow> [] | Some bs \<Rightarrow> take (str_len s) bs)"

function virtio_p9_pdu_encode ::
    "string \<Rightarrow> p9_value list \<Rightarrow> int \<Rightarrow> p9_pdu \<times> mem \<Rightarrow> (int \<times> p9_pdu \<times> mem) option" where
  "virtio_p9_pdu_encode [] ap retval st = Some (retval, st)"
| "virtio_p9_pdu_encode (c # fmt) ap retval st =
     (if c = CHR ''b'' then
        (case ap of V_int i # ap \<Rightarrow>
           virtio_p9_pdu_encode fmt ap retval (virtio_p9_pdu_write (le_bytes 1 i) st) | _ \<Rightarrow> None)
      else if c = CHR ''w'' then
        (case ap of V_int i # ap \<Rightarrow>
           virtio_p9_pdu_encode fmt ap retval (virtio_p9_pdu_write (le_bytes 2 i) st) | _ \<Rightarrow> None)
      else if c = CHR ''d'' then
        (case ap of V_int i # ap \<Rightarrow>
           virtio_p9_pdu_encode fmt ap retval (virtio_p9_pdu_write (le_bytes 4 i) st) | _ \<Rightarrow> None)
      else if c = CHR ''q'' then
        (case ap of V_long i # ap \<Rightarrow>
           virtio_p9_pdu_encode fmt ap retval (virtio_p9_pdu_write (le_bytes 8 i) st) | _ \<Rightarrow> None)
      else if c = CHR ''s'' then
        (case ap of V_str s # ap \<Rightarrow>
           (case virtio_p9_pdu_encode ''w'' [V_int (of_nat (str_len s))] 0 st of
              None \<Rightarrow> None
            | Some (_, st) \<Rightarrow> virtio_p9_pdu_encode fmt ap retval (virtio_p9_pdu_write (str_bytes s) st))
         | _ \<Rightarrow> None)
      else if c = CHR ''Q'' then
        (case ap of V_qid q # ap \<Rightarrow>
           (case virtio_p9_pdu_encode fmt_qid (qid_values q) 0 st of
              None \<Rightarrow> None
            | Some (retval, st) \<Rightarrow> virtio_p9_pdu_encode fmt ap retval st)
         | _ \<Rightarrow> None)
      else if c = CHR ''S'' then
        (case ap of V_wstat s # ap \<Rightarrow>
           (case virtio_p9_pdu_encode fmt_wstat (wstat_values s) 0 st of
              None \<Rightarrow> None
            | Some (retval, st) \<Rightarrow> virtio_p9_pdu_encode fmt ap retval st)
         | _ \<Rightarrow> None)
      else if c = CHR ''A'' then
        (case ap of V_stat s # ap \<Rightarrow>
           (case virtio_p9_pdu_encode fmt_stat (stat_values s) 0 st of
              None \<Rightarrow> None
            | Some (retval, st) \<Rightarrow> virtio_p9_pdu_encode fmt ap retval st)
         | _ \<Rightarrow> None)
      else virtio_p9_pdu_encode fmt ap EINVAL st)"
  by pat_completeness auto
termination
  by (relation "measure (\<lambda>(fmt, ap, retval, st). fmt_weight fmt)")
    (auto simp: fmt_weights char_weight_def)

declare virtio_p9_pdu_encode.simps(2) [simp del]

definition virtio_p9_pdu_writef :: "string \<Rightarrow> p9_value list \<Rightarrow> p9_pdu \<times> mem \<Rightarrow> (int \<times> p9_pdu \<times> mem) option" where
  "virtio_p9_pdu_writef fmt ap st = virtio_p9_pdu_encode fmt ap 0 st"

definition read_le :: "(nat \<Rightarrow> u8) \<Rightarrow> mem \<Rightarrow> nat \<Rightarrow> p9_pdu \<Rightarrow> 'a::len word \<times> p9_pdu" where
  "read_le uninit m n pdu =
     (case virtio_p9_pdu_read pdu m (of_nat n) of (bs, pdu) \<Rightarrow>
        (le_word (overlay (map uninit [0..<n]) bs), pdu))"

definition qid_targets :: "p9_qid \<Rightarrow> p9_target list" where
  "qid_targets q = [T_b (qid_type q), T_d (qid_version q), T_q (qid_path q)]"

fun targets_qid :: "p9_target list \<Rightarrow> p9_qid option" where
  "targets_qid [T_b t, T_d v, T_q p] = Some \<lparr> qid_type = t, qid_version = v, qid_path = p \<rparr>"
| "targets_qid _ = None"

definition wstat_zero :: p9_wstat where
  "wstat_zero =
     \<lparr> ws_size = 0, ws_type = 0, ws_dev = 0, ws_qid = \<lparr> qid_type = 0, qid_version = 0, qid_path = 0 \<rparr>,
       ws_mode = 0, ws_atime = 0, ws_mtime = 0, ws_length = 0, ws_name = None, ws_uid = None, ws_gid = None,
       ws_muid = None, ws_extension = None, ws_n_uid = - 1, ws_n_gid = - 1, ws_n_muid = - 1 \<rparr>"

definition wstat_targets :: "p9_wstat \<Rightarrow> p9_target list" where
  "wstat_targets s =
     [T_w (ws_size s), T_w (ws_type s), T_d (ws_dev s), T_Q (ws_qid s), T_d (ws_mode s), T_d (ws_atime s),
      T_d (ws_mtime s), T_q (ws_length s), T_s (ws_name s), T_s (ws_uid s), T_s (ws_gid s), T_s (ws_muid s)]"

definition targets_wstat :: "p9_wstat \<Rightarrow> p9_target list \<Rightarrow> p9_wstat option" where
  "targets_wstat s ts =
     (case ts of
        [T_w a, T_w b, T_d c, T_Q d, T_d e, T_d f, T_d g, T_q h, T_s i, T_s j, T_s k, T_s l] \<Rightarrow>
          Some (s\<lparr> ws_size := a, ws_type := b, ws_dev := c, ws_qid := d, ws_mode := e, ws_atime := f, ws_mtime := g,
                  ws_length := h, ws_name := i, ws_uid := j, ws_gid := k, ws_muid := l \<rparr>)
      | _ \<Rightarrow> None)"

definition iattr_targets :: "p9_iattr_dotl \<Rightarrow> p9_target list" where
  "iattr_targets a =
     [T_d (ia_valid a), T_d (ia_mode a), T_d (ia_uid a), T_d (ia_gid a), T_q (ia_size a), T_q (ia_atime_sec a),
      T_q (ia_atime_nsec a), T_q (ia_mtime_sec a), T_q (ia_mtime_nsec a)]"

definition targets_iattr :: "p9_target list \<Rightarrow> p9_iattr_dotl option" where
  "targets_iattr ts =
     (case ts of
        [T_d a, T_d b, T_d c, T_d d, T_q e, T_q f, T_q g, T_q h, T_q i] \<Rightarrow>
          Some \<lparr> ia_valid = a, ia_mode = b, ia_uid = c, ia_gid = d, ia_size = e, ia_atime_sec = f,
                 ia_atime_nsec = g, ia_mtime_sec = h, ia_mtime_nsec = i \<rparr>
      | _ \<Rightarrow> None)"

text \<open>
  The string case: the length is a signed 16-bit number. A negative one reaches \<^verbatim>\<open>malloc\<close> as a huge
  size (or zero for \<open>- 1\<close>); should that allocation succeed, the read and the terminator fall outside the
  buffer, which is \<open>None\<close>.
\<close>

definition read_str ::
    "(nat \<Rightarrow> u8) \<Rightarrow> (u64 \<Rightarrow> bool) \<Rightarrow> mem \<Rightarrow> u16 \<Rightarrow> int \<Rightarrow> p9_pdu \<Rightarrow> (int \<times> u8 list option \<times> p9_pdu) option" where
  "read_str uninit malloc m len retval pdu =
     (if \<not> malloc (word_of_int (sint len + 1)) then Some (ENOMEM, None, pdu)
      else if sint len < 0 then None
      else
        case virtio_p9_pdu_read pdu m (scast len) of (bs, pdu) \<Rightarrow>
          Some (retval, Some (overlay (map uninit [0..<unat len]) bs @ [0]), pdu))"

function virtio_p9_decode ::
    "(nat \<Rightarrow> u8) \<Rightarrow> (u64 \<Rightarrow> bool) \<Rightarrow> mem \<Rightarrow> string \<Rightarrow> p9_target list \<Rightarrow> int \<Rightarrow> p9_pdu
       \<Rightarrow> (int \<times> p9_pdu \<times> p9_target list) option" where
  "virtio_p9_decode uninit malloc m [] ap retval pdu = Some (retval, pdu, ap)"
| "virtio_p9_decode uninit malloc m (c # fmt) ap retval pdu =
     (let continue = (\<lambda>t ap retval pdu.
            map_option (\<lambda>(r, pdu, ap). (r, pdu, t # ap)) (virtio_p9_decode uninit malloc m fmt ap retval pdu)) in
      if c = CHR ''b'' then
        (case ap of T_b v # ap \<Rightarrow>
           (case virtio_p9_pdu_read pdu m 1 of (bs, pdu) \<Rightarrow>
              continue (T_b (le_word (overlay [v] bs))) ap retval pdu) | _ \<Rightarrow> None)
      else if c = CHR ''w'' then
        (case ap of T_w v # ap \<Rightarrow>
           (case read_le uninit m 2 pdu of (v, pdu) \<Rightarrow> continue (T_w v) ap retval pdu) | _ \<Rightarrow> None)
      else if c = CHR ''d'' then
        (case ap of T_d v # ap \<Rightarrow>
           (case read_le uninit m 4 pdu of (v, pdu) \<Rightarrow> continue (T_d v) ap retval pdu) | _ \<Rightarrow> None)
      else if c = CHR ''q'' then
        (case ap of T_q v # ap \<Rightarrow>
           (case read_le uninit m 8 pdu of (v, pdu) \<Rightarrow> continue (T_q v) ap retval pdu) | _ \<Rightarrow> None)
      else if c = CHR ''s'' then
        (case ap of T_s s # ap \<Rightarrow>
           (case virtio_p9_decode uninit malloc m ''w'' [T_w (le_word [uninit 0, uninit 1])] 0 pdu of
              Some (_, pdu, [T_w len]) \<Rightarrow>
                (case read_str uninit malloc m len retval pdu of
                   None \<Rightarrow> None
                 | Some (retval, s, pdu) \<Rightarrow> continue (T_s s) ap retval pdu)
            | _ \<Rightarrow> None)
         | _ \<Rightarrow> None)
      else if c = CHR ''Q'' then
        (case ap of T_Q q # ap \<Rightarrow>
           (case virtio_p9_decode uninit malloc m fmt_qid (qid_targets q) 0 pdu of
              None \<Rightarrow> None
            | Some (retval, pdu, ts) \<Rightarrow>
                Option.bind (targets_qid ts) (\<lambda>q. continue (T_Q q) ap retval pdu))
         | _ \<Rightarrow> None)
      else if c = CHR ''S'' then
        (case ap of T_S s # ap \<Rightarrow>
           (case virtio_p9_decode uninit malloc m fmt_wstat (wstat_targets wstat_zero) 0 pdu of
              None \<Rightarrow> None
            | Some (retval, pdu, ts) \<Rightarrow>
                Option.bind (targets_wstat wstat_zero ts) (\<lambda>s.
                  continue (T_S (if retval \<noteq> 0 then virtio_p9_wstat_free s else s)) ap retval pdu))
         | _ \<Rightarrow> None)
      else if c = CHR ''I'' then
        (case ap of T_I a # ap \<Rightarrow>
           (case virtio_p9_decode uninit malloc m fmt_iattr (iattr_targets a) 0 pdu of
              None \<Rightarrow> None
            | Some (retval, pdu, ts) \<Rightarrow>
                Option.bind (targets_iattr ts) (\<lambda>a. continue (T_I a) ap retval pdu))
         | _ \<Rightarrow> None)
      else virtio_p9_decode uninit malloc m fmt ap EINVAL pdu)"
  by pat_completeness auto
termination
  by (relation "measure (\<lambda>(uninit, malloc, m, fmt, ap, retval, pdu). fmt_weight fmt)")
    (auto simp: fmt_weights char_weight_def)

declare virtio_p9_decode.simps(2) [simp del]

definition virtio_p9_pdu_readf ::
    "(nat \<Rightarrow> u8) \<Rightarrow> (u64 \<Rightarrow> bool) \<Rightarrow> mem \<Rightarrow> string \<Rightarrow> p9_target list \<Rightarrow> p9_pdu
       \<Rightarrow> (int \<times> p9_pdu \<times> p9_target list) option" where
  "virtio_p9_pdu_readf uninit malloc m fmt ap pdu = virtio_p9_decode uninit malloc m fmt ap 0 pdu"

subsection \<open>Raw accesses as lists\<close>

lemma pdu_read_loop_eq:
  "pdu_read_loop vs off sz m = map m (take (unat sz) (drop (unat off) (iov_addrs vs)))"
proof (induction vs off sz m rule: pdu_read_loop.induct)
  case (1 off sz m)
  then show ?case by (simp add: iov_addrs_def)
next
  case (2 v vs off sz m)
  show ?case
  proof (cases "sz = 0 \<or> off \<ge> iov_len v")
    case True
    then show ?thesis
      using 2(1) by (auto simp: iov_addrs_Cons unat_skip_offset word_le_nat_alt)
  next
    case False
    then have lt: "unat off < unat (iov_len v)" and nz: "sz \<noteq> 0" by (auto simp: word_le_nat_alt)
    let ?r = "unat (iov_len v) - unat off"
    let ?len = "min (iov_len v - off) sz"
    have r: "unat (iov_len v - off) = ?r" using lt by (simp add: unat_sub word_le_nat_alt)
    have c: "unat ?len = min ?r (unat sz)" using r by (auto simp: min_def word_le_nat_alt)
    have d: "unat (sz - ?len) = unat sz - min ?r (unat sz)"
      using c by (subst unat_sub) (auto simp: min_def)
    have "take (unat sz) (drop (unat off) (iov_addrs (v # vs))) =
        seg_addrs (iov_base v + off) (min ?r (unat sz)) @ take (unat sz - min ?r (unat sz)) (iov_addrs vs)"
      unfolding drop_in_first [OF lt] by (auto simp: min_def take_seg)
    then show ?thesis
      using 2(2) [of ?len] False nz c d by (simp add: Let_def load_seg)
  qed
qed

lemma write_at_take: "length bs \<le> length as \<Longrightarrow> write_at m as bs = write_at m (take (length bs) as) bs"
  by (induction m as bs rule: write_at.induct) auto

lemma pdu_write_loop_eq:
  "unat sz = length d \<Longrightarrow> pdu_write_loop vs off d sz m =
     (min (length d) (length (iov_addrs vs) - unat off), write_at m (drop (unat off) (iov_addrs vs)) d)"
proof (induction vs off d sz m rule: pdu_write_loop.induct)
  case (1 off d sz m)
  then show ?case by (simp add: iov_addrs_def)
next
  case (2 v vs off d sz m)
  consider "sz = 0" | "sz \<noteq> 0" "off \<ge> iov_len v" | "sz \<noteq> 0" "\<not> off \<ge> iov_len v" by blast
  then show ?case
  proof cases
    case 1
    then show ?thesis using 2(3) by (cases d) auto
  next
    case c: 2
    then show ?thesis
      using 2(1) [OF c] 2(3) by (auto simp: iov_addrs_Cons unat_skip_offset word_le_nat_alt)
  next
    case c: 3
    then have lt: "unat off < unat (iov_len v)" by (simp add: word_le_nat_alt)
    let ?r = "unat (iov_len v) - unat off"
    let ?len = "min (iov_len v - off) sz"
    let ?k = "min ?r (length d)"
    let ?m = "store m (iov_base v + off) (take ?k d)"
    have r: "unat (iov_len v - off) = ?r" using lt by (simp add: unat_sub word_le_nat_alt)
    have k: "unat ?len = ?k" using r 2(3) by (auto simp: min_def word_le_nat_alt)
    have s: "unat (sz - ?len) = length (drop ?k d)"
      using k 2(3) by (subst unat_sub) (auto simp: min_def)
    have ih: "pdu_write_loop vs 0 (drop ?k d) (sz - ?len) ?m =
        (min (length d - ?k) (length (iov_addrs vs)), write_at ?m (iov_addrs vs) (drop ?k d))"
      using 2(2) [OF c refl] s k by simp
    have addrs: "drop (unat off) (iov_addrs (v # vs)) = seg_addrs (iov_base v + off) ?r @ iov_addrs vs"
      by (rule drop_in_first [OF lt])
    have w: "write_at m (seg_addrs (iov_base v + off) ?r @ iov_addrs vs) d = write_at ?m (iov_addrs vs) (drop ?k d)"
    proof (cases "length d \<le> ?r")
      case True
      then show ?thesis
        using write_at_take [of d "seg_addrs (iov_base v + off) ?r @ iov_addrs vs" m]
        by (simp add: store_write_at min_absorb2 take_seg)
    next
      case False
      then have "d = take ?r d @ drop ?r d" "length (take ?r d) = ?r" "?k = ?r" by auto
      then show ?thesis
        using write_at_append [of "seg_addrs (iov_base v + off) ?r" "take ?r d" m "iov_addrs vs" "drop ?r d"]
        by (simp add: store_write_at)
    qed
    have n: "min (length d) (length (seg_addrs (iov_base v) (unat (iov_len v)) @ iov_addrs vs) - unat off)
        = ?k + min (length d - ?k) (length (iov_addrs vs))"
      using lt by auto
    have "pdu_write_loop (v # vs) off d sz m =
        (?k + min (length d - ?k) (length (iov_addrs vs)), write_at ?m (iov_addrs vs) (drop ?k d))"
      using c ih k by (simp add: Let_def)
    then show ?thesis unfolding addrs w unfolding iov_addrs_Cons [of v vs] n .
  qed
qed

definition room_ok :: "iovec list \<Rightarrow> bool" where
  "room_ok vs \<longleftrightarrow> length (iov_addrs vs) < 2 ^ 64"

definition out_stream :: "p9_pdu \<Rightarrow> mem \<Rightarrow> u8 list" where
  "out_stream pdu m = map m (drop (unat (read_offset pdu)) (iov_addrs (out_iov pdu)))"

lemma pdu_read_stream:
  assumes "room_ok (out_iov pdu)" "virtio_p9_pdu_read pdu m n = (bs, pdu')"
  shows "bs = take (unat n) (out_stream pdu m)" "out_stream pdu' m = drop (unat n) (out_stream pdu m)"
    "out_iov pdu' = out_iov pdu" "read_offset pdu' = read_offset pdu + of_nat (length bs)"
proof -
  show bs: "bs = take (unat n) (out_stream pdu m)"
    using assms(2) by (auto simp: virtio_p9_pdu_read_def pdu_read_loop_eq out_stream_def Let_def take_map)
  show io: "out_iov pdu' = out_iov pdu" and ro: "read_offset pdu' = read_offset pdu + of_nat (length bs)"
    using assms(2) by (auto simp: virtio_p9_pdu_read_def Let_def)
  let ?L = "length (iov_addrs (out_iov pdu))"
  have len: "length bs = min (unat n) (?L - unat (read_offset pdu))" by (simp add: bs out_stream_def)
  show "out_stream pdu' m = drop (unat n) (out_stream pdu m)"
  proof (cases "unat (read_offset pdu) \<le> ?L")
    case True
    then have "unat (read_offset pdu) + length bs < 2 ^ 64" using len assms(1) by (simp add: room_ok_def)
    then have "unat (read_offset pdu') = unat (read_offset pdu) + length bs"
      by (simp add: ro unat_word_ariths unat_of_nat)
    then show ?thesis using len True
      by (simp add: out_stream_def io drop_map add.commute min_def)
  next
    case False
    then show ?thesis using len by (simp add: out_stream_def io ro)
  qed
qed

lemma pdu_write_eq:
  assumes "length d < 2 ^ 64"
  shows "virtio_p9_pdu_write d (pdu, m) =
    (pdu\<lparr> write_offset := write_offset pdu + of_nat (min (length d) (length (iov_addrs (in_iov pdu)) - unat (write_offset pdu))) \<rparr>,
     write_at m (drop (unat (write_offset pdu)) (iov_addrs (in_iov pdu))) d)"
proof -
  have "unat (of_nat (length d) :: u64) = length d" using assms by (simp add: unat_of_nat)
  then show ?thesis
    by (simp add: virtio_p9_pdu_write_def pdu_write_loop_eq)
qed

lemma write_at_long: "length as \<le> length bs \<Longrightarrow> write_at m as (bs @ cs) = write_at m as bs"
  by (induction m as bs rule: write_at.induct) auto

text \<open>Two writes are one write of both byte strings, also when the buffers run out.\<close>

lemma pdu_write_append:
  assumes "room_ok (in_iov pdu)" "length a + length b < 2 ^ 64"
  shows "virtio_p9_pdu_write b (virtio_p9_pdu_write a (pdu, m)) = virtio_p9_pdu_write (a @ b) (pdu, m)"
proof -
  let ?A = "iov_addrs (in_iov pdu)"
  let ?o = "unat (write_offset pdu)"
  let ?k = "min (length a) (length ?A - ?o)"
  have k: "unat (write_offset pdu + of_nat ?k) = ?o + ?k \<or> length ?A \<le> ?o"
  proof (cases "?o \<le> length ?A")
    case True
    then have "?o + ?k < 2 ^ 64" using assms(1) by (simp add: room_ok_def)
    then show ?thesis by (simp add: unat_word_ariths unat_of_nat)
  qed simp
  show ?thesis
  proof (cases "length ?A \<le> ?o")
    case True
    then show ?thesis using assms(2) by (simp add: pdu_write_eq)
  next
    case False
    with k have o: "unat (write_offset pdu + of_nat ?k) = ?o + ?k" by simp
    have w: "write_at (write_at m (drop ?o ?A) a) (drop (?o + ?k) ?A) b = write_at m (drop ?o ?A) (a @ b)"
    proof (cases "length a \<le> length ?A - ?o")
      case True
      have "drop ?o ?A = take (length a) (drop ?o ?A) @ drop (?o + length a) ?A"
        by (metis append_take_drop_id drop_drop add.commute)
      then show ?thesis
        using True write_at_take [of a "drop ?o ?A" m]
          write_at_append [of "take (length a) (drop ?o ?A)" a m "drop (?o + length a) ?A" b]
        by (simp add: min_absorb1)
    next
      case F: False
      have "write_at m (drop ?o ?A) (a @ b) = write_at m (drop ?o ?A) a"
        using F write_at_long [of "drop ?o ?A" a m b] by simp
      then show ?thesis using F False by simp
    qed
    have n: "min (length b) (length ?A - (?o + ?k)) + ?k = min (length a + length b) (length ?A - ?o)"
      by auto
    have "write_offset pdu + of_nat ?k + of_nat (min (length b) (length ?A - (?o + ?k))) =
        write_offset pdu + of_nat (min (length a + length b) (length ?A - ?o))"
      unfolding n [symmetric] of_nat_add by (simp add: add_ac)
    then show ?thesis
      using assms(2) o w by (simp add: pdu_write_eq)
  qed
qed

subsection \<open>What a format encodes\<close>

text \<open>The bytes of one value, the values a format character takes and what reading gives back.\<close>

definition enc_bytes :: "char \<Rightarrow> p9_value \<Rightarrow> u8 list" where
  "enc_bytes c v =
     (case v of
        V_int i \<Rightarrow> le_bytes (if c = CHR ''b'' then 1 else if c = CHR ''w'' then 2 else 4) i
      | V_long i \<Rightarrow> le_bytes 8 i
      | V_str s \<Rightarrow> le_bytes 2 (of_nat (str_len s) :: u32) @ str_bytes s
      | V_qid q \<Rightarrow> le_bytes 1 (ucast (qid_type q) :: u32) @ le_bytes 4 (qid_version q) @ le_bytes 8 (qid_path q)
      | _ \<Rightarrow> [])"

definition val_ok :: "char \<Rightarrow> p9_value \<Rightarrow> bool" where
  "val_ok c v \<longleftrightarrow>
     (case v of
        V_int i \<Rightarrow> c \<in> {CHR ''b'', CHR ''w'', CHR ''d''}
      | V_long i \<Rightarrow> c = CHR ''q''
      | V_str s \<Rightarrow> c = CHR ''s''
      | V_qid q \<Rightarrow> c = CHR ''Q''
      | _ \<Rightarrow> False)"

definition short_str :: "p9_value \<Rightarrow> bool" where
  "short_str v \<longleftrightarrow> (case v of V_str s \<Rightarrow> str_len s < 2 ^ 15 | _ \<Rightarrow> True)"

definition target_ok :: "char \<Rightarrow> p9_target \<Rightarrow> bool" where
  "target_ok c t \<longleftrightarrow>
     (case t of
        T_b _ \<Rightarrow> c = CHR ''b'' | T_w _ \<Rightarrow> c = CHR ''w'' | T_d _ \<Rightarrow> c = CHR ''d'' | T_q _ \<Rightarrow> c = CHR ''q''
      | T_s _ \<Rightarrow> c = CHR ''s'' | T_Q _ \<Rightarrow> c = CHR ''Q'' | _ \<Rightarrow> False)"

definition decoded :: "char \<Rightarrow> p9_value \<Rightarrow> p9_target" where
  "decoded c v =
     (case v of
        V_int i \<Rightarrow> (if c = CHR ''b'' then T_b (ucast i) else if c = CHR ''w'' then T_w (ucast i) else T_d i)
      | V_long i \<Rightarrow> T_q i
      | V_str s \<Rightarrow> T_s (Some (str_bytes s @ [0]))
      | V_qid q \<Rightarrow> T_Q q
      | _ \<Rightarrow> T_b 0)"

lemma length_str_bytes [simp]: "length (str_bytes s) = str_len s"
  by (auto simp: str_bytes_def str_len_def split: option.splits)

lemma str_len_bound: "str_len s \<le> 65535"
  by (auto simp: str_len_def split: option.splits)

lemma enc_bytes_bound: "val_ok c v \<Longrightarrow> length (enc_bytes c v) \<le> 65537"
  using str_len_bound by (auto simp: val_ok_def enc_bytes_def split: p9_value.splits)

lemma in_iov_write [simp]: "in_iov (fst (virtio_p9_pdu_write d st)) = in_iov (fst st)"
  by (auto simp: virtio_p9_pdu_write_def split: prod.splits)

lemma encode_w:
  "virtio_p9_pdu_encode ''w'' [V_int i] r st = Some (r, virtio_p9_pdu_write (le_bytes 2 i) st)"
  by (simp add: virtio_p9_pdu_encode.simps)

lemma encode_qid:
  "virtio_p9_pdu_encode fmt_qid (qid_values q) r st =
     Some (r, virtio_p9_pdu_write (le_bytes 8 (qid_path q))
              (virtio_p9_pdu_write (le_bytes 4 (qid_version q))
                (virtio_p9_pdu_write (le_bytes 1 (ucast (qid_type q) :: u32)) st)))"
  by (simp add: fmt_qid_def qid_values_def virtio_p9_pdu_encode.simps)

lemma pdu_write_append':
  assumes "room_ok (in_iov (fst st))" "length a + length b < 2 ^ 64"
  shows "virtio_p9_pdu_write b (virtio_p9_pdu_write a st) = virtio_p9_pdu_write (a @ b) st"
  using pdu_write_append [of "fst st" a b "snd st"] assms by simp

lemma encode_step:
  assumes "val_ok c v" "room_ok (in_iov (fst st))"
  shows "virtio_p9_pdu_encode (c # fmt) (v # vs) 0 st = virtio_p9_pdu_encode fmt vs 0 (virtio_p9_pdu_write (enc_bytes c v) st)"
proof (cases v)
  case (V_str s)
  then show ?thesis
    using assms pdu_write_append' [OF assms(2), of "le_bytes 2 (of_nat (str_len s) :: u32)" "str_bytes s"] str_len_bound [of s]
    by (simp add: virtio_p9_pdu_encode.simps(2) [of "CHR ''s''"] encode_w val_ok_def enc_bytes_def)
next
  case (V_qid q)
  then show ?thesis
    using assms
    by (simp add: virtio_p9_pdu_encode.simps(2) [of "CHR ''Q''"] encode_qid val_ok_def enc_bytes_def pdu_write_append')
qed (use assms in \<open>auto simp: virtio_p9_pdu_encode.simps(2) [of c] virtio_p9_pdu_encode.simps(2) [of "CHR ''q''"] val_ok_def enc_bytes_def\<close>)

lemma pdu_write_Nil [simp]: "virtio_p9_pdu_write [] st = st"
  by (cases st) (simp add: pdu_write_eq)

lemma encode_all:
  assumes "list_all2 val_ok fmt vs" "room_ok (in_iov (fst st))" "65537 * length fmt < 2 ^ 64"
  shows "virtio_p9_pdu_encode fmt vs 0 st = Some (0, virtio_p9_pdu_write (concat (map2 enc_bytes fmt vs)) st) \<and>
         length (concat (map2 enc_bytes fmt vs)) \<le> 65537 * length fmt"
  using assms
proof (induction fmt vs arbitrary: st rule: list_all2_induct)
  case Nil
  then show ?case by simp
next
  case (Cons c fmt v vs)
  have len: "length (enc_bytes c v) \<le> 65537" using enc_bytes_bound [OF Cons.hyps(1)] .
  have ih: "virtio_p9_pdu_encode fmt vs 0 (virtio_p9_pdu_write (enc_bytes c v) st) =
      Some (0, virtio_p9_pdu_write (concat (map2 enc_bytes fmt vs)) (virtio_p9_pdu_write (enc_bytes c v) st))"
    "length (concat (map2 enc_bytes fmt vs)) \<le> 65537 * length fmt"
    using Cons.IH [of "virtio_p9_pdu_write (enc_bytes c v) st"] Cons.prems by simp_all
  show ?case
    using ih len Cons.prems
    by (simp add: encode_step [OF Cons.hyps(1)] pdu_write_append')
qed

lemma ucast_up_down:
  fixes w :: "'a::len word"
  assumes "LENGTH('a) \<le> LENGTH('b::len)"
  shows "ucast (ucast w :: 'b word) = w"
  using assms bit_imp_le_length [of w] by (intro bit_eqI) (auto simp: bit_unsigned_iff)

lemma le_word_le_bytes_ucast:
  assumes "8 * n = LENGTH('b::len)" "LENGTH('b) \<le> LENGTH('a::len)"
  shows "le_word (le_bytes n (w :: 'a word)) = (ucast w :: 'b word)"
proof (rule bit_eqI)
  fix k assume "possible_bit TYPE('b word) k"
  then have "k < LENGTH('b)" by simp
  then have "k div 8 < n" "k < LENGTH('a)" "k = 8 * (k div 8) + k mod 8" using assms by auto
  then show "bit (le_word (le_bytes n w) :: 'b word) k = bit (ucast w :: 'b word) k"
    using \<open>k < LENGTH('b)\<close> by (simp add: bit_le_word bit_unsigned_iff bit_drop_bit_eq)
qed

lemma read_le_stream:
  assumes "room_ok (out_iov pdu)" "out_stream pdu m = bs @ rest" "length bs = n" "n < 2 ^ 64"
    "read_le uninit m n pdu = (v, pdu')"
  shows "v = le_word bs \<and> out_stream pdu' m = rest \<and> out_iov pdu' = out_iov pdu \<and>
         read_offset pdu' = read_offset pdu + of_nat n"
proof -
  obtain as where r: "virtio_p9_pdu_read pdu m (of_nat n) = (as, pdu')"
    "v = le_word (overlay (map uninit [0..<n]) as)"
    using assms(5) by (auto simp: read_le_def split: prod.splits)
  have "unat (of_nat n :: u64) = n" using assms(4) by (simp add: unat_of_nat)
  then show ?thesis
    using pdu_read_stream [OF assms(1) r(1)] r(2) assms(2,3) by (simp add: overlay_full)
qed

text \<open>One step of the decoder on a stream that starts with the bytes of a value.\<close>

definition dec_state :: "p9_pdu \<Rightarrow> mem \<Rightarrow> u8 list \<Rightarrow> u64 \<Rightarrow> iovec list \<Rightarrow> bool" where
  "dec_state pdu m rest off iov \<longleftrightarrow> out_stream pdu m = rest \<and> read_offset pdu = off \<and> out_iov pdu = iov"

lemma dec_read_le:
  assumes "room_ok iov" "dec_state pdu m (bs @ rest) off iov" "length bs = n" "n < 2 ^ 64"
  shows "\<exists>pdu'. read_le uninit m n pdu = (le_word bs :: 'a::len word, pdu') \<and> dec_state pdu' m rest (off + of_nat n) iov"
proof -
  obtain v :: "'a word" and pdu' where r: "read_le uninit m n pdu = (v, pdu')" by fastforce
  have "room_ok (out_iov pdu)" "out_stream pdu m = bs @ rest" using assms(1,2) by (auto simp: dec_state_def)
  from read_le_stream [OF this assms(3,4) r] r assms(2) show ?thesis by (auto simp: dec_state_def)
qed

lemma dec_read:
  assumes "room_ok iov" "dec_state pdu m (bs @ rest) off iov" "length bs = unat n"
  shows "\<exists>pdu'. virtio_p9_pdu_read pdu m n = (bs, pdu') \<and> dec_state pdu' m rest (off + n) iov"
  using pdu_read_stream [of pdu m n] assms
  by (cases "virtio_p9_pdu_read pdu m n") (auto simp: dec_state_def)

lemma decode_w:
  assumes "room_ok iov" "dec_state pdu m (le_bytes 2 (i :: u32) @ rest) off iov"
  shows "\<exists>pdu'. virtio_p9_decode uninit malloc m ''w'' [T_w x] 0 pdu = Some (0, pdu', [T_w (ucast i)]) \<and>
     dec_state pdu' m rest (off + 2) iov"
  using dec_read_le [OF assms, of 2 uninit, where 'a = 16]
  by (auto simp: virtio_p9_decode.simps(2) Let_def le_word_le_bytes_ucast)

lemma decode_qid:
  assumes "room_ok iov"
    "dec_state pdu m (le_bytes 1 (ucast (qid_type q) :: u32) @ le_bytes 4 (qid_version q) @ le_bytes 8 (qid_path q) @ rest) off iov"
  shows "\<exists>pdu'. virtio_p9_decode uninit malloc m fmt_qid (qid_targets q') 0 pdu = Some (0, pdu', qid_targets q) \<and>
     dec_state pdu' m rest (off + 13) iov"
proof -
  obtain p1 where p1: "virtio_p9_pdu_read pdu m 1 = (le_bytes 1 (ucast (qid_type q) :: u32), p1)"
    "dec_state p1 m (le_bytes 4 (qid_version q) @ le_bytes 8 (qid_path q) @ rest) (off + 1) iov"
    using dec_read [OF assms, of 1] by auto
  obtain p2 where p2: "read_le uninit m 4 p1 = (qid_version q, p2)"
    "dec_state p2 m (le_bytes 8 (qid_path q) @ rest) (off + 1 + 4) iov"
    using dec_read_le [OF assms(1) p1(2), of 4 uninit, where 'a = 32] by (auto simp: le_word_le_bytes)
  obtain p3 where p3: "read_le uninit m 8 p2 = (qid_path q, p3)" "dec_state p3 m rest (off + 1 + 4 + 8) iov"
    using dec_read_le [OF assms(1) p2(2), of 8 uninit, where 'a = 64] by (auto simp: le_word_le_bytes)
  have t: "le_word (overlay [x] (le_bytes 1 (ucast (qid_type q) :: u32))) = qid_type q" for x
    by (simp add: overlay_full le_word_le_bytes_ucast ucast_up_down)
  show ?thesis
    using p1(1) p2(1) p3 t
    by (simp add: fmt_qid_def qid_targets_def virtio_p9_decode.simps(2) Let_def add.assoc)
qed

definition small_malloc :: "(u64 \<Rightarrow> bool) \<Rightarrow> bool" where
  "small_malloc malloc \<longleftrightarrow> (\<forall>n. n \<le> 2 ^ 15 \<longrightarrow> malloc n)"

lemma read_str_ok:
  assumes "room_ok iov" "dec_state pdu m (str_bytes s @ rest) off iov" "str_len s < 2 ^ 15" "small_malloc malloc"
  shows "\<exists>pdu'. read_str uninit malloc m (of_nat (str_len s)) r pdu = Some (r, Some (str_bytes s @ [0]), pdu') \<and>
     dec_state pdu' m rest (off + of_nat (str_len s)) iov"
proof -
  have s: "sint (of_nat (str_len s) :: u16) = int (str_len s)"
    using assms(3) by (simp add: sint_uint uint_nat unat_of_nat signed_take_bit_int_eq_self)
  then have sc: "(scast (of_nat (str_len s) :: u16) :: u64) = of_nat (str_len s)"
    by (metis of_int_of_nat_eq of_int_sint)
  have u: "unat (of_nat (str_len s) :: u64) = str_len s" "unat (of_nat (str_len s) :: u16) = str_len s"
    using assms(3) by (simp_all add: unat_of_nat)
  have "(word_of_int (int (str_len s) + 1) :: u64) \<le> 2 ^ 15"
    using assms(3) by (simp add: word_le_nat_alt unat_word_ariths unat_of_nat)
  then have "malloc (word_of_int (int (str_len s) + 1))" using assms(4) by (simp add: small_malloc_def)
  then show ?thesis
    using dec_read [OF assms(1,2), of "of_nat (str_len s)"] u s sc
    by (auto simp: read_str_def overlay_full)
qed

lemma decode_step:
  assumes "val_ok c v" "short_str v" "target_ok c t" "room_ok iov" "small_malloc malloc"
    and "dec_state pdu m (enc_bytes c v @ rest) off iov"
  shows "\<exists>pdu'. virtio_p9_decode uninit malloc m (c # fmt) (t # ts) 0 pdu =
      map_option (\<lambda>(r, pdu, ap). (r, pdu, decoded c v # ap)) (virtio_p9_decode uninit malloc m fmt ts 0 pdu') \<and>
    dec_state pdu' m rest (off + of_nat (length (enc_bytes c v))) iov"
proof (cases v)
  case (V_int i)
  consider "c = CHR ''b''" | "c = CHR ''w''" | "c = CHR ''d''" using assms(1) V_int by (auto simp: val_ok_def)
  then show ?thesis
  proof cases
    case 1
    then obtain x where t: "t = T_b x" using assms(3) by (auto simp: target_ok_def split: p9_target.splits)
    obtain p where p: "virtio_p9_pdu_read pdu m 1 = (le_bytes 1 i, p)" "dec_state p m rest (off + 1) iov"
      using dec_read [OF assms(4), of pdu m "le_bytes 1 i" rest off 1] assms(6) 1 V_int by (auto simp: enc_bytes_def)
    then show ?thesis
      by (intro exI [of _ p]) (simp add: 1 t V_int virtio_p9_decode.simps(2) Let_def decoded_def enc_bytes_def overlay_full le_word_le_bytes_ucast)
  next
    case 2
    then obtain x where t: "t = T_w x" using assms(3) by (auto simp: target_ok_def split: p9_target.splits)
    obtain p where p: "read_le uninit m 2 pdu = (le_word (le_bytes 2 i) :: u16, p)" "dec_state p m rest (off + 2) iov"
      using dec_read_le [OF assms(4), of pdu m "le_bytes 2 i" rest off 2 uninit, where 'a = 16] assms(6) 2 V_int
      by (auto simp: enc_bytes_def)
    then show ?thesis
      by (intro exI [of _ p]) (simp add: 2 t V_int virtio_p9_decode.simps(2) Let_def decoded_def enc_bytes_def le_word_le_bytes_ucast)
  next
    case 3
    then obtain x where t: "t = T_d x" using assms(3) by (auto simp: target_ok_def split: p9_target.splits)
    obtain p where p: "read_le uninit m 4 pdu = (le_word (le_bytes 4 i) :: u32, p)" "dec_state p m rest (off + 4) iov"
      using dec_read_le [OF assms(4), of pdu m "le_bytes 4 i" rest off 4 uninit, where 'a = 32] assms(6) 3 V_int
      by (auto simp: enc_bytes_def)
    then show ?thesis
      by (intro exI [of _ p]) (simp add: 3 t V_int virtio_p9_decode.simps(2) Let_def decoded_def enc_bytes_def le_word_le_bytes)
  qed
next
  case (V_long i)
  then have c: "c = CHR ''q''" using assms(1) by (simp add: val_ok_def)
  then obtain x where t: "t = T_q x" using assms(3) by (auto simp: target_ok_def split: p9_target.splits)
  obtain p where p: "read_le uninit m 8 pdu = (le_word (le_bytes 8 i) :: u64, p)" "dec_state p m rest (off + 8) iov"
    using dec_read_le [OF assms(4), of pdu m "le_bytes 8 i" rest off 8 uninit, where 'a = 64] assms(6) V_long
    by (auto simp: enc_bytes_def)
  then show ?thesis
    by (intro exI [of _ p]) (simp add: c t V_long virtio_p9_decode.simps(2) Let_def decoded_def enc_bytes_def le_word_le_bytes)
next
  case (V_str s)
  then have c: "c = CHR ''s''" and l: "str_len s < 2 ^ 15"
    using assms(1,2) by (simp_all add: val_ok_def short_str_def)
  then obtain x where t: "t = T_s x" using assms(3) by (auto simp: target_ok_def split: p9_target.splits)
  let ?x = "le_word [uninit 0, uninit 1] :: u16"
  have st: "dec_state pdu m (le_bytes 2 (of_nat (str_len s) :: u32) @ str_bytes s @ rest) off iov"
    using assms(6) V_str by (simp add: enc_bytes_def)
  have u: "(ucast (of_nat (str_len s) :: u32) :: u16) = of_nat (str_len s)"
    using l by (simp add: word_unat_eq_iff unsigned_ucast_eq unat_of_nat take_bit_eq_mod)
  obtain p1 where p1: "virtio_p9_decode uninit malloc m ''w'' [T_w ?x] 0 pdu = Some (0, p1, [T_w (of_nat (str_len s))])"
    "dec_state p1 m (str_bytes s @ rest) (off + 2) iov"
    using decode_w [OF assms(4) st, of uninit malloc ?x] u by auto
  obtain p2 where p2: "read_str uninit malloc m (of_nat (str_len s)) 0 p1 = Some (0, Some (str_bytes s @ [0]), p2)"
    "dec_state p2 m rest (off + 2 + of_nat (str_len s)) iov"
    using read_str_ok [OF assms(4) p1(2) l assms(5), of uninit 0] by auto
  show ?thesis
    using p1(1) p2
    by (intro exI [of _ p2]) (simp add: c t V_str virtio_p9_decode.simps(2) [of uninit malloc m "CHR ''s''"] Let_def decoded_def enc_bytes_def add.assoc)
next
  case (V_qid q)
  then have c: "c = CHR ''Q''" using assms(1) by (simp add: val_ok_def)
  then obtain x where t: "t = T_Q x" using assms(3) by (auto simp: target_ok_def split: p9_target.splits)
  obtain p where p: "virtio_p9_decode uninit malloc m fmt_qid (qid_targets x) 0 pdu = Some (0, p, qid_targets q)"
    "dec_state p m rest (off + 13) iov"
    using decode_qid [OF assms(4), of pdu m q rest off uninit malloc x] assms(6) V_qid by (auto simp: enc_bytes_def)
  have tq: "targets_qid (qid_targets q) = Some q" by (simp add: qid_targets_def)
  show ?thesis
    using p tq
    by (intro exI [of _ p]) (simp add: c t V_qid virtio_p9_decode.simps(2) [of uninit malloc m "CHR ''Q''"] Let_def decoded_def enc_bytes_def)
qed (use assms(1) in \<open>simp_all add: val_ok_def\<close>)

lemma decode_all:
  assumes "list_all2 val_ok fmt vs" "list_all2 target_ok fmt ts" "list_all short_str vs" "room_ok iov" "small_malloc malloc"
    and "dec_state pdu m (concat (map2 enc_bytes fmt vs) @ rest) off iov"
  shows "\<exists>pdu'. virtio_p9_decode uninit malloc m fmt ts 0 pdu = Some (0, pdu', map2 decoded fmt vs) \<and>
    dec_state pdu' m rest (off + of_nat (length (concat (map2 enc_bytes fmt vs)))) iov"
  using assms(1-3,6)
proof (induction fmt vs arbitrary: ts pdu off rule: list_all2_induct)
  case Nil
  then show ?case by simp
next
  case (Cons c fmt v vs)
  obtain t ts' where ts: "ts = t # ts'" "target_ok c t" "list_all2 target_ok fmt ts'"
    using Cons.prems(1) by (auto simp: list_all2_Cons1)
  have st: "dec_state pdu m (enc_bytes c v @ concat (map2 enc_bytes fmt vs) @ rest) off iov"
    using Cons.prems(3) by simp
  obtain p1 where p1: "virtio_p9_decode uninit malloc m (c # fmt) (t # ts') 0 pdu =
      map_option (\<lambda>(r, pdu, ap). (r, pdu, decoded c v # ap)) (virtio_p9_decode uninit malloc m fmt ts' 0 p1)"
    "dec_state p1 m (concat (map2 enc_bytes fmt vs) @ rest) (off + of_nat (length (enc_bytes c v))) iov"
    using decode_step [OF Cons.hyps(1) _ ts(2) assms(4,5) st, of uninit fmt ts'] Cons.prems(2) by auto
  show ?case
    using Cons.IH [OF ts(3) _ p1(2)] Cons.prems(2) p1(1) ts(1) by (auto simp: add.assoc)
qed

subsection \<open>Claims\<close>

text \<open>
  C39: values written to the guest's buffers by a format of integers, strings of less than 32768 bytes and
  qids are read back by the same format from the same place, over any segmentation of the buffers
  without overlaps; both calls report success and consume the same bytes.
\<close>

theorem p9_write_read:
  assumes "list_all2 val_ok fmt vs" "list_all2 target_ok fmt ts" "list_all short_str vs" "65537 * length fmt < 2 ^ 64"
    and "room_ok iov" "distinct (iov_addrs iov)" "small_malloc malloc"
    and "in_iov pdu = iov" "unat (write_offset pdu) + length (concat (map2 enc_bytes fmt vs)) \<le> length (iov_addrs iov)"
  shows "\<exists>pdu' m' q'. virtio_p9_pdu_writef fmt vs (pdu, m) = Some (0, pdu', m') \<and>
     virtio_p9_pdu_readf uninit malloc m' fmt ts (pdu\<lparr> out_iov := iov, read_offset := write_offset pdu \<rparr>) =
       Some (0, q', map2 decoded fmt vs) \<and>
     read_offset q' = write_offset pdu'"
proof -
  let ?bs = "concat (map2 enc_bytes fmt vs)"
  let ?o = "unat (write_offset pdu)"
  let ?q = "pdu\<lparr> out_iov := iov, read_offset := write_offset pdu \<rparr>"
  have e: "virtio_p9_pdu_writef fmt vs (pdu, m) = Some (0, virtio_p9_pdu_write ?bs (pdu, m))" "length ?bs < 2 ^ 64"
    using encode_all [OF assms(1), of "(pdu, m)"] assms(4,5,8) by (simp_all add: virtio_p9_pdu_writef_def)
  let ?m = "write_at m (drop ?o (iov_addrs iov)) ?bs"
  have w: "virtio_p9_pdu_write ?bs (pdu, m) = (pdu\<lparr> write_offset := write_offset pdu + of_nat (length ?bs) \<rparr>, ?m)"
    using pdu_write_eq [OF e(2), of pdu m] assms(8,9) by (simp add: min_absorb1)
  have "map ?m (take (length ?bs) (drop ?o (iov_addrs iov))) = ?bs"
    using write_at_take [of ?bs "drop ?o (iov_addrs iov)" m] assms(6,9)
    by (metis (no_types, lifting) add_le_imp_le_diff add.commute distinct_drop distinct_take length_drop length_take min.absorb2 write_at_read)
  then have "out_stream ?q ?m = ?bs @ map ?m (drop (length ?bs) (drop ?o (iov_addrs iov)))"
    unfolding out_stream_def by (metis (no_types, lifting) append_take_drop_id map_append p9_pdu.select_convs(2,5) p9_pdu.update_convs(2,5) p9_pdu.surjective)
  then have st: "dec_state ?q ?m (?bs @ map ?m (drop (length ?bs) (drop ?o (iov_addrs iov)))) (write_offset pdu) iov"
    by (simp add: dec_state_def)
  from decode_all [OF assms(1-3,5,7) st, of uninit] obtain q' where
    "virtio_p9_decode uninit malloc ?m fmt ts 0 ?q = Some (0, q', map2 decoded fmt vs)"
    "read_offset q' = write_offset pdu + of_nat (length ?bs)" by (auto simp: dec_state_def)
  then show ?thesis using e(1) w by (simp add: virtio_p9_pdu_readf_def)
qed

definition pdu_example :: p9_pdu where
  "pdu_example =
     \<lparr> queue_head = 0, read_offset = 0, write_offset = 3,
       in_iov = [\<lparr> iov_base = 0x100, iov_len = 5 \<rparr>, \<lparr> iov_base = 0x200, iov_len = 9 \<rparr>], out_iov = [] \<rparr>"

lemma pdu_example_addrs:
  "iov_addrs (in_iov pdu_example) =
     [0x100, 0x101, 0x102, 0x103, 0x104, 0x200, 0x201, 0x202, 0x203, 0x204, 0x205, 0x206, 0x207, 0x208]"
  by code_simp

lemma p9_write_read_witness:
  "\<exists>pdu' m' q'. virtio_p9_pdu_writef ''bs'' [V_int 7, V_str (Some [1, 2, 3])] (pdu_example, \<lambda>_. 0) = Some (0, pdu', m') \<and>
     virtio_p9_pdu_readf (\<lambda>_. 0) (\<lambda>n. n < 65536) m' ''bs'' [T_b 0, T_s None]
       (pdu_example\<lparr> out_iov := in_iov pdu_example, read_offset := write_offset pdu_example \<rparr>) =
       Some (0, q', [T_b 7, T_s (Some [1, 2, 3, 0])]) \<and>
     read_offset q' = write_offset pdu'"
proof -
  let ?vs = "[V_int 7, V_str (Some [1, 2, 3])]"
  have 1: "list_all2 val_ok ''bs'' ?vs" "list_all2 target_ok ''bs'' [T_b 0, T_s None]"
    "list_all short_str ?vs" "65537 * length ''bs'' < 2 ^ 64"
    by (simp_all add: val_ok_def target_ok_def short_str_def str_len_def)
  have 2: "room_ok (in_iov pdu_example)" "distinct (iov_addrs (in_iov pdu_example))"
    by (simp_all add: room_ok_def pdu_example_addrs)
  have 3: "small_malloc (\<lambda>n. n < 65536)"
    by (auto simp: small_malloc_def intro: le_less_trans)
  have 4: "unat (write_offset pdu_example) + length (concat (map2 enc_bytes ''bs'' ?vs)) \<le> length (iov_addrs (in_iov pdu_example))"
    unfolding pdu_example_addrs by (simp add: pdu_example_def enc_bytes_def str_len_def)
  have 5: "map2 decoded ''bs'' ?vs = [T_b 7, T_s (Some [1, 2, 3, 0])]"
    by (simp add: decoded_def str_bytes_def str_len_def)
  show ?thesis
    using p9_write_read [OF 1 2 3 refl 4, of "\<lambda>_. 0" "\<lambda>_. 0"] unfolding 5 .
qed

subsection \<open>The frame of a write\<close>

text \<open>
  \<open>write_frame st st'\<close>: the state \<open>st'\<close> differs from \<open>st\<close> only in the guest buffers past the write offset,
  and the offset has moved forward inside them.
\<close>

definition write_frame :: "p9_pdu \<times> mem \<Rightarrow> p9_pdu \<times> mem \<Rightarrow> bool" where
  "write_frame st st' \<longleftrightarrow>
     (case (st, st') of ((pdu, m), (pdu', m')) \<Rightarrow>
        let A = iov_addrs (in_iov pdu); o1 = unat (write_offset pdu); o2 = unat (write_offset pdu') in
        pdu' = pdu\<lparr> write_offset := write_offset pdu' \<rparr> \<and>
        o1 \<le> o2 \<and> o2 \<le> max o1 (length A) \<and> (\<forall>a. a \<notin> set (drop o1 A) \<longrightarrow> m' a = m a))"

lemma write_frame_refl: "write_frame st st"
  by (cases st) (simp add: write_frame_def)

lemma write_frameI:
  "o1 = unat (write_offset pdu) \<Longrightarrow> A = iov_addrs (in_iov pdu) \<Longrightarrow> o1 \<le> unat w \<Longrightarrow> unat w \<le> max o1 (length A) \<Longrightarrow>
   (\<And>a. a \<notin> set (drop o1 A) \<Longrightarrow> m' a = m a) \<Longrightarrow> write_frame (pdu, m) (pdu\<lparr> write_offset := w \<rparr>, m')"
  by (simp add: write_frame_def)

lemma write_frameD:
  "write_frame (pdu, m) st' \<Longrightarrow> \<exists>w m'. st' = (pdu\<lparr> write_offset := w \<rparr>, m') \<and> unat (write_offset pdu) \<le> unat w \<and>
     unat w \<le> max (unat (write_offset pdu)) (length (iov_addrs (in_iov pdu))) \<and>
     (\<forall>a. a \<notin> set (drop (unat (write_offset pdu)) (iov_addrs (in_iov pdu))) \<longrightarrow> m' a = m a)"
  by (cases st') (auto simp: write_frame_def Let_def)

lemma write_frame_trans:
  assumes "write_frame a b" "write_frame b c"
  shows "write_frame a c"
proof -
  obtain pdu m where a: "a = (pdu, m)" by (cases a)
  let ?A = "iov_addrs (in_iov pdu)" and ?o = "unat (write_offset pdu)"
  from write_frameD [OF assms(1) [unfolded a]]
  obtain v m1 where b: "b = (pdu\<lparr> write_offset := v \<rparr>, m1)" and v: "?o \<le> unat v" "unat v \<le> max ?o (length ?A)"
    and m1: "\<forall>x. x \<notin> set (drop ?o ?A) \<longrightarrow> m1 x = m x"
    by (elim exE conjE)
  have upd: "in_iov (pdu\<lparr> write_offset := v \<rparr>) = in_iov pdu" "write_offset (pdu\<lparr> write_offset := v \<rparr>) = v" by simp_all
  from write_frameD [OF assms(2) [unfolded b], unfolded upd]
  obtain w m2 where c: "c = (pdu\<lparr> write_offset := v, write_offset := w \<rparr>, m2)" and w: "unat v \<le> unat w"
    "unat w \<le> max (unat v) (length ?A)" and m2: "\<forall>x. x \<notin> set (drop (unat v) ?A) \<longrightarrow> m2 x = m1 x"
    by (elim exE conjE)
  have c': "c = (pdu\<lparr> write_offset := w \<rparr>, m2)" by (simp add: c)
  have s: "set (drop (unat v) ?A) \<subseteq> set (drop ?o ?A)" using v(1) by (rule set_drop_subset_set_drop)
  have max: "unat w \<le> max ?o (length ?A)" using v(2) w(2) by linarith
  have "m2 x = m x" if x: "x \<notin> set (drop ?o ?A)" for x
  proof -
    have "x \<notin> set (drop (unat v) ?A)" using x s by blast
    then show ?thesis using m1 m2 x by simp
  qed
  then show ?thesis
    unfolding a c' by (rule write_frameI [OF refl refl order_trans [OF v(1) w(1)] max])
qed

lemma write_frame_write:
  assumes "room_ok (in_iov (fst st))" "length d < 2 ^ 64"
  shows "write_frame st (virtio_p9_pdu_write d st)"
proof -
  obtain pdu m where st: "st = (pdu, m)" by (cases st)
  let ?A = "iov_addrs (in_iov pdu)" and ?o = "unat (write_offset pdu)"
  let ?k = "min (length d) (length ?A - ?o)"
  have k: "unat (write_offset pdu + of_nat ?k) = ?o + ?k"
  proof (cases "?o \<le> length ?A")
    case True
    then have "?o + ?k < 2 ^ 64" using assms(1) by (simp add: room_ok_def st)
    then show ?thesis by (simp add: unat_word_ariths unat_of_nat)
  qed simp
  show ?thesis
    unfolding st pdu_write_eq [OF assms(2)]
    by (rule write_frameI [OF refl refl]) (use k in \<open>auto simp: write_at_other\<close>)
qed

lemma write_frame_room: "write_frame st st' \<Longrightarrow> in_iov (fst st') = in_iov (fst st)"
  by (cases st) (auto dest: write_frameD)

lemma write_frame_then:
  "room_ok (in_iov (fst st)) \<Longrightarrow> length d < 2 ^ 64 \<Longrightarrow> write_frame (virtio_p9_pdu_write d st) st' \<Longrightarrow> write_frame st st'"
  by (rule write_frame_trans [OF write_frame_write])

lemma encode_frame:
  "virtio_p9_pdu_encode fmt ap r st = Some (r', st') \<Longrightarrow> room_ok (in_iov (fst st)) \<Longrightarrow> write_frame st st'"
proof (induction "fmt_weight fmt" arbitrary: fmt ap r st r' st' rule: less_induct)
  case less
  show ?case
  proof (cases fmt)
    case Nil
    then show ?thesis using less.prems by (simp add: write_frame_refl)
  next
    case (Cons c fs)
    have rest: "write_frame st2 st'" if "virtio_p9_pdu_encode fs ap' r2 st2 = Some (r', st')" "in_iov (fst st2) = in_iov (fst st)" for ap' r2 st2
      using less.hyps [OF _ that(1)] that(2) less.prems(2) by (simp add: Cons)
    have put: "write_frame st st'" if "virtio_p9_pdu_encode fs ap' r2 (virtio_p9_pdu_write d st) = Some (r', st')" "length d < 2 ^ 64" for ap' r2 d
      using write_frame_then [OF less.prems(2) that(2) rest [OF that(1)]] by simp
    have sub: "write_frame st st'" if "virtio_p9_pdu_encode f vs 0 st = Some (r1, st1)" "fmt_weight f < char_weight c"
      "virtio_p9_pdu_encode fs ap' r1 st1 = Some (r', st')" for f vs r1 st1 ap'
    proof -
      have f: "write_frame st st1" using less.hyps [OF _ that(1) less.prems(2)] that(2) by (simp add: Cons)
      then show ?thesis using write_frame_trans [OF f rest [OF that(3)]] write_frame_room [OF f] by simp
    qed
    have str: "write_frame st st'"
      if "virtio_p9_pdu_encode fs ap' r2 (virtio_p9_pdu_write (str_bytes s) (virtio_p9_pdu_write (le_bytes 2 (of_nat (str_len s) :: u32)) st)) = Some (r', st')"
      for ap' r2 s
      using put [of ap' r2 "le_bytes 2 (of_nat (str_len s) :: u32) @ str_bytes s"] that str_len_bound [of s]
      by (simp add: pdu_write_append' [OF less.prems(2)])
    note e = less.prems(1) [unfolded Cons virtio_p9_pdu_encode.simps(2) [of c]]
    consider "c = CHR ''b''" | "c = CHR ''w''" | "c = CHR ''d''" | "c = CHR ''q''" | "c = CHR ''s''" | "c = CHR ''Q''"
      | "c = CHR ''S''" | "c = CHR ''A''" | "c \<notin> {CHR ''b'', CHR ''w'', CHR ''d'', CHR ''q'', CHR ''s'', CHR ''Q'', CHR ''S'', CHR ''A''}"
      by auto
    then show ?thesis
    proof cases
      case 1
      then show ?thesis using e put by (simp split: list.split_asm p9_value.split_asm)
    next
      case 2
      then show ?thesis using e put by (simp split: list.split_asm p9_value.split_asm)
    next
      case 3
      then show ?thesis using e put by (simp split: list.split_asm p9_value.split_asm)
    next
      case 4
      then show ?thesis using e put by (simp split: list.split_asm p9_value.split_asm)
    next
      case 5
      then show ?thesis using e str by (simp add: encode_w split: list.split_asm p9_value.split_asm)
    next
      case 6
      then show ?thesis using e sub [of fmt_qid]
        by (simp add: fmt_weights char_weight_def split: list.split_asm p9_value.split_asm option.split_asm prod.split_asm)
    next
      case 7
      then show ?thesis using e sub [of fmt_wstat]
        by (simp add: fmt_weights char_weight_def split: list.split_asm p9_value.split_asm option.split_asm prod.split_asm)
    next
      case 8
      then show ?thesis using e sub [of fmt_stat]
        by (simp add: fmt_weights char_weight_def split: list.split_asm p9_value.split_asm option.split_asm prod.split_asm)
    next
      case 9
      then show ?thesis using e rest [of ap EINVAL st] by simp
    qed
  qed
qed

text \<open>
  C40: whatever the format and the values, encoding a message changes no guest memory outside the request's
  input buffers, none of their bytes before the write offset, and leaves the offset inside the buffers;
  bytes that do not fit are dropped.
\<close>

theorem p9_write_frame:
  assumes "virtio_p9_pdu_writef fmt ap (pdu, m) = Some (r, pdu', m')" "room_ok (in_iov pdu)"
    and "unat (write_offset pdu) \<le> length (iov_addrs (in_iov pdu))"
  shows "pdu' = pdu\<lparr> write_offset := write_offset pdu' \<rparr> \<and> write_offset pdu \<le> write_offset pdu' \<and>
     unat (write_offset pdu') \<le> length (iov_addrs (in_iov pdu)) \<and>
     (\<forall>a. a \<notin> set (drop (unat (write_offset pdu)) (iov_addrs (in_iov pdu))) \<longrightarrow> m' a = m a)"
  using encode_frame [OF assms(1) [unfolded virtio_p9_pdu_writef_def]] assms(2,3)
  by (simp add: write_frame_def Let_def word_le_nat_alt)

lemma p9_write_frame_witness:
  "\<exists>pdu' m'. virtio_p9_pdu_writef ''Qd'' [V_qid \<lparr> qid_type = 1, qid_version = 2, qid_path = 3 \<rparr>, V_int 9]
       (pdu_example, \<lambda>_. 0) = Some (0, pdu', m') \<and>
     unat (write_offset pdu') \<le> 14 \<and> m' 0x102 = 0 \<and> m' 0x209 = 0"
proof -
  have 2: "room_ok (in_iov pdu_example)" "unat (write_offset pdu_example) \<le> length (iov_addrs (in_iov pdu_example))"
    by (simp_all add: room_ok_def pdu_example_addrs) (simp add: pdu_example_def)
  have d: "list_all2 val_ok ''Qd'' [V_qid \<lparr> qid_type = 1, qid_version = 2, qid_path = 3 \<rparr>, V_int 9]"
    by (simp add: val_ok_def)
  obtain pdu' m' where w: "virtio_p9_pdu_writef ''Qd'' [V_qid \<lparr> qid_type = 1, qid_version = 2, qid_path = 3 \<rparr>, V_int 9]
       (pdu_example, \<lambda>_. 0) = Some (0, pdu', m')"
    using encode_all [OF d, of "(pdu_example, \<lambda>_. 0)"] 2(1)
    by (cases "virtio_p9_pdu_write (concat (map2 enc_bytes ''Qd'' [V_qid \<lparr> qid_type = 1, qid_version = 2, qid_path = 3 \<rparr>, V_int 9])) (pdu_example, \<lambda>_. 0)")
      (simp add: virtio_p9_pdu_writef_def del: list.map zip_Cons_Cons)
  show ?thesis
    using p9_write_frame [OF w 2] w unfolding pdu_example_addrs by (auto simp: pdu_example_def)
qed

subsection \<open>Long strings\<close>

text \<open>
  The writer stores the length of a string as an unsigned number, the reader takes it as a signed one: a
  string of 32768 bytes or more that the writer accepts cannot be read.
\<close>

lemma long_string_refused:
  assumes "str_len s \<ge> 2 ^ 15" "\<not> malloc (word_of_int (int (str_len s) - 65535))"
  shows "read_str uninit malloc m (of_nat (str_len s)) r pdu = Some (ENOMEM, None, pdu)"
proof -
  have u: "uint (of_nat (str_len s) :: u16) = int (str_len s)"
    using str_len_bound [of s] by (simp add: uint_nat unat_of_nat)
  have "(int (str_len s) + 32768) mod 65536 = int (str_len s) - 32768"
    using assms(1) str_len_bound [of s] mod_add_self2 [of "int (str_len s) - 32768" 65536]
    by (simp add: add.commute)
  then have "sint (of_nat (str_len s) :: u16) = int (str_len s) - 65536"
    by (simp add: sint_uint u signed_take_bit_eq_take_bit_shift take_bit_eq_mod)
  then show ?thesis using assms(2) by (simp add: read_str_def)
qed

end
