(* ===== verification/Read_Write.thy ===== *)
theory Read_Write
  imports Iovec "HOL-Library.Monad_Syntax"
begin

section \<open>Complete reads and writes (util/read-write.c)\<close>

text \<open>
  The system calls are parameters: a call takes the state of the host and returns an error number or
  the transferred bytes (their number, for a write), with the new state. A call may be interrupted and
  may transfer less than it was asked to; the functions of this file hide both. A loop that does not end
  is \<open>None\<close>.

  A function that fills a buffer returns the C result and the bytes it has stored from the start of the
  buffer. The vector calls reach guest memory through their \<open>iovec\<close> array, a function from an index, so
  that an access behind the last element is visible.
\<close>

definition EINTR :: int where "EINTR = 4"
definition EAGAIN :: int where "EAGAIN = 11"

subsection \<open>Interrupted calls\<close>

partial_function (option) restart :: "('h \<Rightarrow> (int + 'a) \<times> 'h) \<Rightarrow> 'h \<Rightarrow> ((int + 'a) \<times> 'h) option" where
  "restart call h =
     (case call h of (r, h') \<Rightarrow>
        (case r of
           Inl errno \<Rightarrow> if errno = EAGAIN \<or> errno = EINTR then restart call h' else Some (r, h')
         | Inr nr \<Rightarrow> Some (r, h')))"

type_synonym 'h read_call = "'h \<Rightarrow> nat \<Rightarrow> (int + u8 list) \<times> 'h"
type_synonym 'h write_call = "'h \<Rightarrow> u8 list \<Rightarrow> (int + nat) \<times> 'h"
type_synonym 'h pread_call = "'h \<Rightarrow> nat \<Rightarrow> u64 \<Rightarrow> (int + u8 list) \<times> 'h"
type_synonym 'h pwrite_call = "'h \<Rightarrow> u8 list \<Rightarrow> u64 \<Rightarrow> (int + nat) \<times> 'h"

definition xread :: "'h read_call \<Rightarrow> 'h \<Rightarrow> nat \<Rightarrow> ((int + u8 list) \<times> 'h) option" where
  "xread read h count = restart (\<lambda>h. read h count) h"

definition xwrite :: "'h write_call \<Rightarrow> 'h \<Rightarrow> u8 list \<Rightarrow> ((int + nat) \<times> 'h) option" where
  "xwrite write h bs = restart (\<lambda>h. write h bs) h"

definition xpread :: "'h pread_call \<Rightarrow> 'h \<Rightarrow> nat \<Rightarrow> u64 \<Rightarrow> ((int + u8 list) \<times> 'h) option" where
  "xpread pread h count offset = restart (\<lambda>h. pread h count offset) h"

definition xpwrite :: "'h pwrite_call \<Rightarrow> 'h \<Rightarrow> u8 list \<Rightarrow> u64 \<Rightarrow> ((int + nat) \<times> 'h) option" where
  "xpwrite pwrite h bs offset = restart (\<lambda>h. pwrite h bs offset) h"

subsection \<open>Whole buffers\<close>

definition read_end :: "u8 list \<Rightarrow> int \<times> u8 list" where
  "read_end tot = (if tot \<noteq> [] then (int (length tot), tot) else (- 1, []))"

partial_function (option) read_in_full_loop ::
    "'h read_call \<Rightarrow> 'h \<Rightarrow> nat \<Rightarrow> u8 list \<Rightarrow> (int \<times> u8 list \<times> 'h) option" where
  "read_in_full_loop read h count tot =
     (if count = 0 then Some (int (length tot), tot, h)
      else do {
        (r, h) \<leftarrow> xread read h count;
        (case r of
           Inl errno \<Rightarrow> Some (fst (read_end tot), snd (read_end tot), h)
         | Inr nr \<Rightarrow>
             if nr = [] then Some (fst (read_end tot), snd (read_end tot), h)
             else read_in_full_loop read h (count - length nr) (tot @ nr))
      })"

definition read_in_full :: "'h read_call \<Rightarrow> 'h \<Rightarrow> nat \<Rightarrow> (int \<times> u8 list \<times> 'h) option" where
  "read_in_full read h count = read_in_full_loop read h count []"

definition read_file :: "'h read_call \<Rightarrow> 'h \<Rightarrow> nat \<Rightarrow> (int \<times> u8 list \<times> 'h) option" where
  "read_file read h max_size =
     do {
       (ret, bs, h) \<leftarrow> read_in_full read h max_size;
       (r, h) \<leftarrow> xread read h 1;
       Some (if r = Inr [] then ret else - 1, bs, h)
     }"

partial_function (option) pread_in_full_loop ::
    "'h pread_call \<Rightarrow> 'h \<Rightarrow> nat \<Rightarrow> u64 \<Rightarrow> u8 list \<Rightarrow> (int \<times> u8 list \<times> 'h) option" where
  "pread_in_full_loop pread h count offset tot =
     (if count = 0 then Some (int (length tot), tot, h)
      else do {
        (r, h) \<leftarrow> xpread pread h count offset;
        (case r of
           Inl errno \<Rightarrow> Some (fst (read_end tot), snd (read_end tot), h)
         | Inr nr \<Rightarrow>
             if nr = [] then Some (fst (read_end tot), snd (read_end tot), h)
             else pread_in_full_loop pread h (count - length nr) (offset + of_nat (length nr)) (tot @ nr))
      })"

definition pread_in_full :: "'h pread_call \<Rightarrow> 'h \<Rightarrow> nat \<Rightarrow> u64 \<Rightarrow> (int \<times> u8 list \<times> 'h) option" where
  "pread_in_full pread h count offset = pread_in_full_loop pread h count offset []"

text \<open>\<^verbatim>\<open>pwrite_in_full\<close> is a function of hw/disk/qcow.c.\<close>

partial_function (option) pwrite_in_full_loop ::
    "'h pwrite_call \<Rightarrow> 'h \<Rightarrow> u8 list \<Rightarrow> u64 \<Rightarrow> nat \<Rightarrow> (int \<times> 'h) option" where
  "pwrite_in_full_loop pwrite h p offset tot =
     (if p = [] then Some (int tot, h)
      else do {
        (r, h) \<leftarrow> xpwrite pwrite h p offset;
        (case r of
           Inl errno \<Rightarrow> Some (- 1, h)
         | Inr nr \<Rightarrow>
             if nr = 0 then Some (- 1, h)
             else pwrite_in_full_loop pwrite h (drop nr p) (offset + of_nat nr) (tot + nr))
      })"

definition pwrite_in_full :: "'h pwrite_call \<Rightarrow> 'h \<Rightarrow> u8 list \<Rightarrow> u64 \<Rightarrow> (int \<times> 'h) option" where
  "pwrite_in_full pwrite h bs offset = pwrite_in_full_loop pwrite h bs offset 0"

subsection \<open>Vectors\<close>

text \<open>
  \<open>iov\<close> is the memory from the first element of the array on, \<open>i\<close> the current position of the pointer.
  \<^verbatim>\<open>shift_iovec\<close> compares the transferred length with the next element even when it has passed the last
  one, and drops a rest that does not fill an element.
\<close>

type_synonym iov_array = "nat \<Rightarrow> iovec"
type_synonym 'h readv_call = "'h \<Rightarrow> iovec list \<Rightarrow> (int + u8 list) \<times> 'h"
type_synonym 'h writev_call = "'h \<Rightarrow> u8 list \<Rightarrow> (int + nat) \<times> 'h"
type_synonym 'h preadv_call = "'h \<Rightarrow> iovec list \<Rightarrow> u64 \<Rightarrow> (int + u8 list) \<times> 'h"
type_synonym 'h pwritev_call = "'h \<Rightarrow> u8 list \<Rightarrow> u64 \<Rightarrow> (int + nat) \<times> 'h"

definition iov_elems :: "iov_array \<Rightarrow> nat \<Rightarrow> int \<Rightarrow> iovec list" where
  "iov_elems iov i cnt = map iov [i..<i + nat cnt]"

definition xreadv :: "'h readv_call \<Rightarrow> 'h \<Rightarrow> iovec list \<Rightarrow> ((int + u8 list) \<times> 'h) option" where
  "xreadv readv h vs = restart (\<lambda>h. readv h vs) h"

definition xwritev :: "'h writev_call \<Rightarrow> 'h \<Rightarrow> u8 list \<Rightarrow> ((int + nat) \<times> 'h) option" where
  "xwritev writev h bs = restart (\<lambda>h. writev h bs) h"

definition xpreadv :: "'h preadv_call \<Rightarrow> 'h \<Rightarrow> iovec list \<Rightarrow> u64 \<Rightarrow> ((int + u8 list) \<times> 'h) option" where
  "xpreadv preadv h vs offset = restart (\<lambda>h. preadv h vs offset) h"

definition xpwritev :: "'h pwritev_call \<Rightarrow> 'h \<Rightarrow> u8 list \<Rightarrow> u64 \<Rightarrow> ((int + nat) \<times> 'h) option" where
  "xpwritev pwritev h bs offset = restart (\<lambda>h. pwritev h bs offset) h"

definition get_iov_size :: "iov_array \<Rightarrow> int \<Rightarrow> u64" where
  "get_iov_size iov cnt = sum_list (map iov_len (iov_elems iov 0 cnt))"

partial_function (option) shift_iovec ::
    "iov_array \<Rightarrow> nat \<Rightarrow> int \<Rightarrow> u64 \<Rightarrow> u64 \<Rightarrow> u64 \<Rightarrow> u64 \<Rightarrow> (nat \<times> int \<times> u64 \<times> u64 \<times> u64) option" where
  "shift_iovec iov i cnt nr tot count offset =
     (let len = iov_len (iov i) in
      if nr \<ge> len
      then shift_iovec iov (i + 1) (cnt - 1) (nr - len) (tot + len) (count - len) (offset + len)
      else Some (i, cnt, tot, count, offset))"

definition readv_end :: "u64 \<Rightarrow> int" where
  "readv_end tot = (if 0 < sint tot then sint tot else - 1)"

partial_function (option) readv_in_full_loop ::
    "'h readv_call \<Rightarrow> iov_array \<Rightarrow> 'h \<Rightarrow> mem \<Rightarrow> nat \<Rightarrow> int \<Rightarrow> u64 \<Rightarrow> u64 \<Rightarrow> (int \<times> mem \<times> 'h) option" where
  "readv_in_full_loop readv iov h m i cnt tot count =
     (if count = 0 then Some (sint tot, m, h)
      else do {
        (r, h) \<leftarrow> xreadv readv h (iov_elems iov i cnt);
        (case r of
           Inl errno \<Rightarrow> Some (readv_end tot, m, h)
         | Inr bs \<Rightarrow>
             if bs = [] then Some (readv_end tot, m, h)
             else do {
               (i', cnt', tot', count', _) \<leftarrow> shift_iovec iov i cnt (of_nat (length bs)) tot count 0;
               readv_in_full_loop readv iov h (write_at m (iov_addrs (iov_elems iov i cnt)) bs) i' cnt' tot' count'
             })
      })"

definition readv_in_full :: "'h readv_call \<Rightarrow> 'h \<Rightarrow> mem \<Rightarrow> iov_array \<Rightarrow> int \<Rightarrow> (int \<times> mem \<times> 'h) option" where
  "readv_in_full readv h m iov iovcnt = readv_in_full_loop readv iov h m 0 iovcnt 0 (get_iov_size iov iovcnt)"

partial_function (option) writev_in_full_loop ::
    "'h writev_call \<Rightarrow> iov_array \<Rightarrow> 'h \<Rightarrow> mem \<Rightarrow> nat \<Rightarrow> int \<Rightarrow> u64 \<Rightarrow> u64 \<Rightarrow> (int \<times> 'h) option" where
  "writev_in_full_loop writev iov h m i cnt tot count =
     (if count = 0 then Some (sint tot, h)
      else do {
        (r, h) \<leftarrow> xwritev writev h (map m (iov_addrs (iov_elems iov i cnt)));
        (case r of
           Inl errno \<Rightarrow> Some (- 1, h)
         | Inr nr \<Rightarrow>
             if nr = 0 then Some (- 1, h)
             else do {
               (i', cnt', tot', count', _) \<leftarrow> shift_iovec iov i cnt (of_nat nr) tot count 0;
               writev_in_full_loop writev iov h m i' cnt' tot' count'
             })
      })"

definition writev_in_full :: "'h writev_call \<Rightarrow> 'h \<Rightarrow> mem \<Rightarrow> iov_array \<Rightarrow> int \<Rightarrow> (int \<times> 'h) option" where
  "writev_in_full writev h m iov iovcnt = writev_in_full_loop writev iov h m 0 iovcnt 0 (get_iov_size iov iovcnt)"

partial_function (option) preadv_in_full_loop ::
    "'h preadv_call \<Rightarrow> iov_array \<Rightarrow> 'h \<Rightarrow> mem \<Rightarrow> nat \<Rightarrow> int \<Rightarrow> u64 \<Rightarrow> u64 \<Rightarrow> u64 \<Rightarrow> (int \<times> mem \<times> 'h) option" where
  "preadv_in_full_loop preadv iov h m i cnt tot count offset =
     (if count = 0 then Some (sint tot, m, h)
      else do {
        (r, h) \<leftarrow> xpreadv preadv h (iov_elems iov i cnt) offset;
        (case r of
           Inl errno \<Rightarrow> Some (readv_end tot, m, h)
         | Inr bs \<Rightarrow>
             if bs = [] then Some (readv_end tot, m, h)
             else do {
               (i', cnt', tot', count', offset') \<leftarrow> shift_iovec iov i cnt (of_nat (length bs)) tot count offset;
               preadv_in_full_loop preadv iov h (write_at m (iov_addrs (iov_elems iov i cnt)) bs) i' cnt' tot' count' offset'
             })
      })"

definition preadv_in_full ::
    "'h preadv_call \<Rightarrow> 'h \<Rightarrow> mem \<Rightarrow> iov_array \<Rightarrow> int \<Rightarrow> u64 \<Rightarrow> (int \<times> mem \<times> 'h) option" where
  "preadv_in_full preadv h m iov iovcnt offset =
     preadv_in_full_loop preadv iov h m 0 iovcnt 0 (get_iov_size iov iovcnt) offset"

partial_function (option) pwritev_in_full_loop ::
    "'h pwritev_call \<Rightarrow> iov_array \<Rightarrow> 'h \<Rightarrow> mem \<Rightarrow> nat \<Rightarrow> int \<Rightarrow> u64 \<Rightarrow> u64 \<Rightarrow> u64 \<Rightarrow> (int \<times> 'h) option" where
  "pwritev_in_full_loop pwritev iov h m i cnt tot count offset =
     (if count = 0 then Some (sint tot, h)
      else do {
        (r, h) \<leftarrow> xpwritev pwritev h (map m (iov_addrs (iov_elems iov i cnt))) offset;
        (case r of
           Inl errno \<Rightarrow> Some (- 1, h)
         | Inr nr \<Rightarrow>
             if nr = 0 then Some (- 1, h)
             else do {
               (i', cnt', tot', count', offset') \<leftarrow> shift_iovec iov i cnt (of_nat nr) tot count offset;
               pwritev_in_full_loop pwritev iov h m i' cnt' tot' count' offset'
             })
      })"

definition pwritev_in_full ::
    "'h pwritev_call \<Rightarrow> 'h \<Rightarrow> mem \<Rightarrow> iov_array \<Rightarrow> int \<Rightarrow> u64 \<Rightarrow> (int \<times> 'h) option" where
  "pwritev_in_full pwritev h m iov iovcnt offset =
     pwritev_in_full_loop pwritev iov h m 0 iovcnt 0 (get_iov_size iov iovcnt) offset"

subsection \<open>What a file promises\<close>

text \<open>
  \<open>content h\<close> are the bytes of the file. A call on a file without I/O errors is interrupted finitely often
  (\<open>delay\<close> decreases) and otherwise transfers at least one byte when there is one.
\<close>

definition file_slice :: "u8 list \<Rightarrow> u64 \<Rightarrow> nat \<Rightarrow> u8 list" where
  "file_slice c offset n = take n (drop (unat offset) c)"

definition file_splice :: "u8 list \<Rightarrow> nat \<Rightarrow> u8 list \<Rightarrow> u8 list" where
  "file_splice c offset bs = take offset (c @ replicate (offset - length c) 0) @ bs @ drop (offset + length bs) c"

definition good_pread :: "('h \<Rightarrow> u8 list) \<Rightarrow> ('h \<Rightarrow> nat) \<Rightarrow> 'h pread_call \<Rightarrow> bool" where
  "good_pread content delay pread \<longleftrightarrow>
     (\<forall>h n offset. case pread h n offset of
        (Inl e, h') \<Rightarrow> (e = EAGAIN \<or> e = EINTR) \<and> content h' = content h \<and> delay h' < delay h
      | (Inr bs, h') \<Rightarrow>
          content h' = content h \<and> length bs \<le> n \<and> bs = file_slice (content h) offset (length bs) \<and>
          (bs = [] \<longrightarrow> file_slice (content h) offset n = []))"

definition good_pwrite :: "('h \<Rightarrow> u8 list) \<Rightarrow> ('h \<Rightarrow> nat) \<Rightarrow> 'h pwrite_call \<Rightarrow> bool" where
  "good_pwrite content delay pwrite \<longleftrightarrow>
     (\<forall>h bs offset. case pwrite h bs offset of
        (Inl e, h') \<Rightarrow> (e = EAGAIN \<or> e = EINTR) \<and> content h' = content h \<and> delay h' < delay h
      | (Inr nr, h') \<Rightarrow>
          nr \<le> length bs \<and> (bs \<noteq> [] \<longrightarrow> 0 < nr) \<and> content h' = file_splice (content h) (unat offset) (take nr bs))"

lemma restart_ok:
  assumes "\<And>h. case call h of (Inl e, h') \<Rightarrow> (e = EAGAIN \<or> e = EINTR) \<and> I h' = I h \<and> delay h' < (delay h :: nat)
                | (Inr x, h') \<Rightarrow> P (I h) x h'"
  shows "\<exists>x h'. restart call h = Some (Inr x, h') \<and> P (I h) x h'"
proof (induction h rule: measure_induct_rule [of delay])
  case (less h)
  obtain r h1 where c: "call h = (r, h1)" by fastforce
  show ?case
  proof (cases r)
    case (Inl e)
    then have "e = EAGAIN \<or> e = EINTR" "I h1 = I h" "delay h1 < delay h" using assms [of h] c by auto
    then show ?thesis using less.IH [of h1] c Inl by (subst restart.simps) simp
  next
    case (Inr x)
    then show ?thesis using assms [of h] c by (subst restart.simps) simp
  qed
qed

lemma xpread_ok:
  assumes "good_pread content delay pread"
  shows "\<exists>bs h'. xpread pread h n offset = Some (Inr bs, h') \<and> content h' = content h \<and> length bs \<le> n \<and>
     bs = file_slice (content h) offset (length bs) \<and> (bs = [] \<longrightarrow> file_slice (content h) offset n = [])"
proof -
  have "case pread h n offset of
      (Inl e, h') \<Rightarrow> (e = EAGAIN \<or> e = EINTR) \<and> content h' = content h \<and> delay h' < delay h
    | (Inr bs, h') \<Rightarrow> content h' = content h \<and> length bs \<le> n \<and> bs = file_slice (content h) offset (length bs) \<and>
        (bs = [] \<longrightarrow> file_slice (content h) offset n = [])" for h
    using assms by (simp add: good_pread_def)
  from restart_ok [where call = "\<lambda>h. pread h n offset" and I = content and delay = delay and
      P = "\<lambda>c bs h'. content h' = c \<and> length bs \<le> n \<and> bs = file_slice c offset (length bs) \<and> (bs = [] \<longrightarrow> file_slice c offset n = [])", OF this]
  show ?thesis by (simp add: xpread_def)
qed

lemma xpwrite_ok:
  assumes "good_pwrite content delay pwrite"
  shows "\<exists>nr h'. xpwrite pwrite h bs offset = Some (Inr nr, h') \<and> nr \<le> length bs \<and> (bs \<noteq> [] \<longrightarrow> 0 < nr) \<and>
     content h' = file_splice (content h) (unat offset) (take nr bs)"
proof -
  have "case pwrite h bs offset of
      (Inl e, h') \<Rightarrow> (e = EAGAIN \<or> e = EINTR) \<and> content h' = content h \<and> delay h' < delay h
    | (Inr nr, h') \<Rightarrow> nr \<le> length bs \<and> (bs \<noteq> [] \<longrightarrow> 0 < nr) \<and> content h' = file_splice (content h) (unat offset) (take nr bs)" for h
    using assms by (simp add: good_pwrite_def)
  from restart_ok [where call = "\<lambda>h. pwrite h bs offset" and I = content and delay = delay and
      P = "\<lambda>c nr h'. nr \<le> length bs \<and> (bs \<noteq> [] \<longrightarrow> 0 < nr) \<and> content h' = file_splice c (unat offset) (take nr bs)", OF this]
  show ?thesis by (simp add: xpwrite_def)
qed

lemma file_slice_more:
  assumes "bs = file_slice c offset (length bs)" "length bs \<le> n" "length c < 2 ^ 64"
  shows "file_slice c offset n = bs @ file_slice c (offset + of_nat (length bs)) (n - length bs)"
proof (cases "bs = []")
  case False
  let ?o = "unat offset"
  have "length (file_slice c offset (length bs)) = length bs" using assms(1) by simp
  then have "length bs \<le> length c - ?o" by (simp add: file_slice_def)
  moreover have "0 < length bs" using False by simp
  ultimately have l: "?o + length bs \<le> length c" by linarith
  then have "unat (offset + of_nat (length bs)) = ?o + length bs"
    using assms(3) by (simp add: unat_word_ariths unat_of_nat)
  then have "file_slice c (offset + of_nat (length bs)) (n - length bs) = take (n - length bs) (drop (length bs) (drop ?o c))"
    by (simp add: file_slice_def add.commute)
  moreover have "file_slice c offset n = take (length bs) (drop ?o c) @ take (n - length bs) (drop (length bs) (drop ?o c))"
    using assms(2) take_add [of "length bs" "n - length bs" "drop ?o c"] by (simp add: file_slice_def)
  ultimately show ?thesis using assms(1) by (simp add: file_slice_def)
qed simp

lemma pread_in_full_loop_ok:
  assumes "good_pread content delay pread" "length (content h) < 2 ^ 64"
  shows "\<exists>h'. pread_in_full_loop pread h n offset tot =
           (let bs = tot @ file_slice (content h) offset n in
            Some (if bs = [] \<and> n \<noteq> 0 then - 1 else int (length bs), bs, h')) \<and> content h' = content h"
  using assms(2)
proof (induction n arbitrary: h offset tot rule: less_induct)
  case (less n)
  show ?case
  proof (cases "n = 0")
    case True
    then show ?thesis by (subst pread_in_full_loop.simps) (simp add: file_slice_def Let_def)
  next
    case False
    obtain bs h1 where x: "xpread pread h n offset = Some (Inr bs, h1)" "content h1 = content h" "length bs \<le> n"
      "bs = file_slice (content h) offset (length bs)" "bs = [] \<longrightarrow> file_slice (content h) offset n = []"
      using xpread_ok [OF assms(1)] by blast
    show ?thesis
    proof (cases "bs = []")
      case True
      then show ?thesis using x False
        by (subst pread_in_full_loop.simps) (simp add: read_end_def Let_def)
    next
      case ne: False
      then have "n - length bs < n" using False x(3) by simp
      from less.IH [OF this, of h1 "offset + of_nat (length bs)" "tot @ bs"] less.prems x(2)
      obtain h2 where "pread_in_full_loop pread h1 (n - length bs) (offset + of_nat (length bs)) (tot @ bs) =
          Some (int (length (tot @ file_slice (content h) offset n)), tot @ file_slice (content h) offset n, h2)"
        "content h2 = content h"
        using ne file_slice_more [OF x(4,3) less.prems] by (auto simp: Let_def)
      moreover have "file_slice (content h) offset n \<noteq> []" using ne file_slice_more [OF x(4,3) less.prems] by simp
      ultimately show ?thesis using x(1) False ne by (subst pread_in_full_loop.simps) (simp add: Let_def)
    qed
  qed
qed

lemma file_splice_append:
  "file_splice (file_splice c offset a) (offset + length a) b = file_splice c offset (a @ b)"
proof -
  define P where "P = take offset (c @ replicate (offset - length c) 0)"
  have P: "length P = offset" by (simp add: P_def)
  have X: "file_splice c offset a = P @ a @ drop (offset + length a) c" by (simp add: file_splice_def P_def)
  show ?thesis
    unfolding file_splice_def [of "file_splice c offset a"] unfolding X
    by (simp add: P file_splice_def [of c] add.commute add.left_commute) (simp add: P_def)
qed

lemma pwrite_in_full_loop_ok:
  assumes "good_pwrite content delay pwrite" "unat offset + length p < 2 ^ 64"
  shows "\<exists>h'. pwrite_in_full_loop pwrite h p offset tot = Some (int (tot + length p), h') \<and>
     (p \<noteq> [] \<longrightarrow> content h' = file_splice (content h) (unat offset) p) \<and> (p = [] \<longrightarrow> h' = h)"
  using assms(2)
proof (induction "length p" arbitrary: h offset p tot rule: less_induct)
  case less
  show ?case
  proof (cases "p = []")
    case True
    then show ?thesis by (subst pwrite_in_full_loop.simps) simp
  next
    case False
    obtain nr h1 where x: "xpwrite pwrite h p offset = Some (Inr nr, h1)" "nr \<le> length p" "0 < nr"
      "content h1 = file_splice (content h) (unat offset) (take nr p)"
      using xpwrite_ok [OF assms(1)] False by blast
    have o: "unat (offset + of_nat nr) = unat offset + nr"
      using less.prems x(2) by (simp add: unat_word_ariths unat_of_nat)
    have "length (drop nr p) < length p" "unat (offset + of_nat nr) + length (drop nr p) < 2 ^ 64"
      using x(2,3) o less.prems by simp_all
    from less.hyps [OF this, of h1 "tot + nr"] obtain h2 where h2: "pwrite_in_full_loop pwrite h1 (drop nr p) (offset + of_nat nr) (tot + nr) = Some (int (tot + length p), h2)"
      "drop nr p \<noteq> [] \<longrightarrow> content h2 = file_splice (content h1) (unat offset + nr) (drop nr p)" "drop nr p = [] \<longrightarrow> h2 = h1"
      using x(2) o by auto
    have "content h2 = file_splice (content h) (unat offset) p"
    proof (cases "drop nr p = []")
      case True
      then show ?thesis using h2(3) x(2,4) by simp
    next
      case d: False
      then show ?thesis
        using h2(2) x(2,4) file_splice_append [of "content h" "unat offset" "take nr p" "drop nr p"] by simp
    qed
    then show ?thesis using h2(1) x(1,3) False by (subst pwrite_in_full_loop.simps) simp
  qed
qed

subsection \<open>Vectors of a regular file\<close>

text \<open>A read of a regular file is short only at its end.\<close>

definition good_preadv :: "('h \<Rightarrow> u8 list) \<Rightarrow> ('h \<Rightarrow> nat) \<Rightarrow> 'h preadv_call \<Rightarrow> bool" where
  "good_preadv content delay preadv \<longleftrightarrow>
     (\<forall>h vs offset. case preadv h vs offset of
        (Inl e, h') \<Rightarrow> (e = EAGAIN \<or> e = EINTR) \<and> content h' = content h \<and> delay h' < delay h
      | (Inr bs, h') \<Rightarrow> content h' = content h \<and> bs = file_slice (content h) offset (length (iov_addrs vs)))"

definition good_pwritev :: "('h \<Rightarrow> u8 list) \<Rightarrow> ('h \<Rightarrow> nat) \<Rightarrow> 'h pwritev_call \<Rightarrow> bool" where
  "good_pwritev content delay pwritev \<longleftrightarrow>
     (\<forall>h bs offset. case pwritev h bs offset of
        (Inl e, h') \<Rightarrow> (e = EAGAIN \<or> e = EINTR) \<and> content h' = content h \<and> delay h' < delay h
      | (Inr nr, h') \<Rightarrow> nr = length bs \<and> content h' = file_splice (content h) (unat offset) bs)"

lemma xpreadv_ok:
  assumes "good_preadv content delay preadv"
  shows "\<exists>h'. xpreadv preadv h vs offset = Some (Inr (file_slice (content h) offset (length (iov_addrs vs))), h') \<and>
     content h' = content h"
proof -
  have "case preadv h vs offset of
      (Inl e, h') \<Rightarrow> (e = EAGAIN \<or> e = EINTR) \<and> content h' = content h \<and> delay h' < delay h
    | (Inr bs, h') \<Rightarrow> content h' = content h \<and> bs = file_slice (content h) offset (length (iov_addrs vs))" for h
    using assms by (simp add: good_preadv_def)
  from restart_ok [where call = "\<lambda>h. preadv h vs offset" and I = content and delay = delay and
      P = "\<lambda>c bs h'. content h' = c \<and> bs = file_slice c offset (length (iov_addrs vs))", OF this]
  show ?thesis by (auto simp: xpreadv_def)
qed

lemma xpwritev_ok:
  assumes "good_pwritev content delay pwritev"
  shows "\<exists>h'. xpwritev pwritev h bs offset = Some (Inr (length bs), h') \<and> content h' = file_splice (content h) (unat offset) bs"
proof -
  have "case pwritev h bs offset of
      (Inl e, h') \<Rightarrow> (e = EAGAIN \<or> e = EINTR) \<and> content h' = content h \<and> delay h' < delay h
    | (Inr nr, h') \<Rightarrow> nr = length bs \<and> content h' = file_splice (content h) (unat offset) bs" for h
    using assms by (simp add: good_pwritev_def)
  from restart_ok [where call = "\<lambda>h. pwritev h bs offset" and I = content and delay = delay and
      P = "\<lambda>c nr h'. nr = length bs \<and> content h' = file_splice c (unat offset) bs", OF this]
  show ?thesis by (auto simp: xpwritev_def)
qed

text \<open>The bytes of the array, and the element behind it, which \<^verbatim>\<open>shift_iovec\<close> reads too.\<close>

definition iov_ok :: "iov_array \<Rightarrow> nat \<Rightarrow> bool" where
  "iov_ok iov n \<longleftrightarrow> length (iov_addrs (map iov [0..<n])) < 2 ^ 63 \<and> iov_len (iov n) \<noteq> 0"

lemma length_iov_addrs: "length (iov_addrs vs) = sum_list (map (\<lambda>v. unat (iov_len v)) vs)"
  by (induction vs) (simp_all add: iov_addrs_def)

lemma sum_iov_len: "sum_list (map iov_len vs) = of_nat (length (iov_addrs vs))"
  by (induction vs) (simp_all add: iov_addrs_def)

lemma shift_all:
  assumes "sum_list (map (\<lambda>j. unat (iov_len (iov j))) [i..<i + k]) = unat nr" "iov_len (iov (i + k)) \<noteq> 0"
  shows "shift_iovec iov i cnt nr tot count offset = Some (i + k, cnt - int k, tot + nr, count - nr, offset + nr)"
  using assms
proof (induction k arbitrary: i cnt nr tot count offset)
  case 0
  then have "nr = 0" by (simp add: unat_eq_zero)
  then show ?case using 0(2) by (subst shift_iovec.simps) (simp add: Let_def word_le_nat_alt unat_eq_zero)
next
  case (Suc k)
  let ?len = "iov_len (iov i)"
  have up: "[i..<i + Suc k] = i # [Suc i..<Suc i + k]" by (simp add: upt_conv_Cons)
  have s: "unat ?len + sum_list (map (\<lambda>j. unat (iov_len (iov j))) [Suc i..<Suc i + k]) = unat nr"
    using Suc.prems(1) unfolding up by simp
  then have le: "?len \<le> nr" by (simp add: word_le_nat_alt)
  then have "sum_list (map (\<lambda>j. unat (iov_len (iov j))) [Suc i..<Suc i + k]) = unat (nr - ?len)"
    using s by (simp add: unat_sub)
  from Suc.IH [OF this, of "cnt - 1" "tot + ?len" "count - ?len" "offset + ?len"] Suc.prems(2) le show ?case
    by (subst shift_iovec.simps) (simp add: Let_def algebra_simps)
qed

lemma iov_elems_0: "iov_elems iov 0 (int n) = map iov [0..<n]"
  by (simp add: iov_elems_def)

lemma get_iov_size_ok:
  assumes "iov_ok iov n"
  shows "unat (get_iov_size iov (int n)) = length (iov_addrs (map iov [0..<n]))"
proof -
  have "get_iov_size iov (int n) = of_nat (length (iov_addrs (map iov [0..<n])))"
    unfolding get_iov_size_def iov_elems_0 sum_iov_len ..
  then show ?thesis using assms by (simp add: iov_ok_def unat_of_nat)
qed

lemma shift_whole:
  assumes "iov_ok iov n"
  shows "shift_iovec iov 0 (int n) (get_iov_size iov (int n)) 0 (get_iov_size iov (int n)) offset =
    Some (n, 0, get_iov_size iov (int n), 0, offset + get_iov_size iov (int n))"
  using shift_all [of iov 0 n "get_iov_size iov (int n)" "int n" 0 "get_iov_size iov (int n)" offset] assms get_iov_size_ok [OF assms]
  by (simp add: iov_ok_def length_iov_addrs o_def)

lemma sint_iov_size:
  assumes "iov_ok iov n"
  shows "sint (get_iov_size iov (int n)) = int (length (iov_addrs (map iov [0..<n])))"
proof -
  have u: "uint (get_iov_size iov (int n)) = int (length (iov_addrs (map iov [0..<n])))"
    using get_iov_size_ok [OF assms] by (simp add: uint_nat)
  moreover have "int (length (iov_addrs (map iov [0..<n]))) < 2 ^ 63" using assms by (simp add: iov_ok_def)
  ultimately show ?thesis
    by (simp add: sint_uint signed_take_bit_eq_take_bit_shift take_bit_eq_mod)
qed

lemma preadv_in_full_ok:
  assumes "good_preadv content delay preadv" "iov_ok iov n"
    and "unat offset + length (iov_addrs (map iov [0..<n])) \<le> length (content h)"
  shows "\<exists>h'. preadv_in_full preadv h m iov (int n) offset =
      (let A = iov_addrs (map iov [0..<n]) in
       Some (int (length A), write_at m A (file_slice (content h) offset (length A)), h')) \<and> content h' = content h"
proof -
  let ?A = "iov_addrs (map iov [0..<n])"
  let ?c = "get_iov_size iov (int n)"
  have len: "unat ?c = length ?A" by (rule get_iov_size_ok [OF assms(2)])
  have sl: "length (file_slice (content h) offset (length ?A)) = length ?A"
    using assms(3) by (simp add: file_slice_def)
  show ?thesis
  proof (cases "?c = 0")
    case True
    then have "?A = []" using len by simp
    then show ?thesis
      unfolding preadv_in_full_def using True by (subst preadv_in_full_loop.simps) (simp add: Let_def)
  next
    case False
    then have ne: "file_slice (content h) offset (length ?A) \<noteq> []" using sl len by (metis length_0_conv unat_eq_zero)
    obtain h1 where h1: "xpreadv preadv h (iov_elems iov 0 (int n)) offset =
        Some (Inr (file_slice (content h) offset (length ?A)), h1)" "content h1 = content h"
      using xpreadv_ok [OF assms(1), of h "map iov [0..<n]" offset] by (auto simp: iov_elems_0)
    have c: "of_nat (length (file_slice (content h) offset (length ?A))) = ?c"
      unfolding sl using len [symmetric] by simp
    have "preadv_in_full preadv h m iov (int n) offset =
        preadv_in_full_loop preadv iov h1 (write_at m ?A (file_slice (content h) offset (length ?A))) n 0 ?c 0 (offset + ?c)"
      unfolding preadv_in_full_def using False h1(1) ne c shift_whole [OF assms(2), of offset]
      by (subst preadv_in_full_loop.simps) (simp add: iov_elems_0)
    then show ?thesis
      using sint_iov_size [OF assms(2)] h1(2) by (subst (asm) preadv_in_full_loop.simps) (simp add: Let_def)
  qed
qed

lemma pwritev_in_full_ok:
  assumes "good_pwritev content delay pwritev" "iov_ok iov n" "iov_addrs (map iov [0..<n]) \<noteq> []"
  shows "\<exists>h'. pwritev_in_full pwritev h m iov (int n) offset = Some (int (length (iov_addrs (map iov [0..<n]))), h') \<and>
     content h' = file_splice (content h) (unat offset) (map m (iov_addrs (map iov [0..<n])))"
proof -
  let ?A = "iov_addrs (map iov [0..<n])"
  let ?c = "get_iov_size iov (int n)"
  have len: "unat ?c = length ?A" by (rule get_iov_size_ok [OF assms(2)])
  then have nz: "?c \<noteq> 0" using assms(3) by auto
  obtain h1 where h1: "xpwritev pwritev h (map m ?A) offset = Some (Inr (length ?A), h1)"
    "content h1 = file_splice (content h) (unat offset) (map m ?A)"
    using xpwritev_ok [OF assms(1), of h "map m ?A" offset] by auto
  have c: "of_nat (length ?A) = ?c" unfolding len [symmetric] by simp
  have "pwritev_in_full pwritev h m iov (int n) offset = pwritev_in_full_loop pwritev iov h1 m n 0 ?c 0 (offset + ?c)"
    unfolding pwritev_in_full_def using nz h1(1) assms(3) c shift_whole [OF assms(2), of offset]
    by (subst pwritev_in_full_loop.simps) (simp add: iov_elems_0)
  then show ?thesis
    using sint_iov_size [OF assms(2)] h1(2) by (subst (asm) pwritev_in_full_loop.simps) simp
qed

text \<open>A read that ends inside the first element makes no progress: the loop asks for the same bytes again.\<close>

lemma preadv_stuck:
  assumes "\<And>h. preadv h (iov_elems iov i cnt) offset = (Inr bs, g h)" "bs \<noteq> []" "length bs < unat (iov_len (iov i))" "count \<noteq> 0"
  shows "preadv_in_full_loop preadv iov h m i cnt tot count offset = None"
proof (rule ccontr)
  assume "preadv_in_full_loop preadv iov h m i cnt tot count offset \<noteq> None"
  then obtain y where y: "preadv_in_full_loop preadv iov h m i cnt tot count offset = Some y" by auto
  have x: "xpreadv preadv h (iov_elems iov i cnt) offset = Some (Inr bs, g h)" for h
    unfolding xpreadv_def by (subst restart.simps) (simp add: assms(1))
  have "length bs < 2 ^ 64" using assms(3) unsigned_less [of "iov_len (iov i)", where 'a = nat] by simp
  then have "\<not> of_nat (length bs) \<ge> iov_len (iov i)"
    using assms(3) by (simp add: word_le_nat_alt unat_of_nat)
  then have s: "shift_iovec iov i cnt (of_nat (length bs)) tot count offset = Some (i, cnt, tot, count, offset)"
    by (subst shift_iovec.simps) (simp add: Let_def)
  have "\<not> (iov' = iov \<and> i' = i \<and> cnt' = cnt \<and> tot' = tot \<and> count' = count \<and> offset' = offset \<and> preadv' = preadv)"
    if "preadv_in_full_loop preadv' iov' h' m' i' cnt' tot' count' offset' = Some y" for preadv' iov' h' m' i' cnt' tot' count' offset'
    using that
  proof (rule preadv_in_full_loop.raw_induct [of "\<lambda>preadv' iov' h' m' i' cnt' tot' count' offset' y.
      \<not> (iov' = iov \<and> i' = i \<and> cnt' = cnt \<and> tot' = tot \<and> count' = count \<and> offset' = offset \<and> preadv' = preadv)", rotated], goal_cases)
    case (1 f preadv' iov' h' m' i' cnt' tot' count' offset' y)
    show ?case
    proof
      assume e: "iov' = iov \<and> i' = i \<and> cnt' = cnt \<and> tot' = tot \<and> count' = count \<and> offset' = offset \<and> preadv' = preadv"
      then have "f preadv iov (g h') (write_at m' (iov_addrs (iov_elems iov i cnt)) bs) i cnt tot count offset = Some y"
        using 1(2) assms(2,4) x s by simp
      from 1(1) [OF this] show False by simp
    qed
  qed
  from this [OF y] show False by simp
qed

subsection \<open>Claims\<close>

lemma file_slice_splice:
  assumes "unat offset + length bs < 2 ^ 64"
  shows "file_slice (file_splice c (unat offset) bs) offset (length bs) = bs"
  by (simp add: file_slice_def file_splice_def)

lemma length_file_splice: "length (file_splice c offset bs) = max (length c) (offset + length bs)"
  by (simp add: file_splice_def)

text \<open>
  C23: on a file whose calls are interrupted finitely often and transfer any positive number of bytes at a
  time, \<^verbatim>\<open>pwrite_in_full\<close> and \<^verbatim>\<open>pread_in_full\<close> return: everything is written, what is read back is what was
  written, and reading anywhere gives the bytes of the file up to its end, or \<open>- 1\<close> when there is none.
\<close>

theorem file_write_read:
  assumes "good_pread content delay pread" "good_pwrite content delay pwrite"
    and "length (content h) < 2 ^ 64" "unat offset + length bs < 2 ^ 64" "bs \<noteq> []"
  shows "\<exists>h1 h2. pwrite_in_full pwrite h bs offset = Some (int (length bs), h1) \<and>
     content h1 = file_splice (content h) (unat offset) bs \<and>
     pread_in_full pread h1 (length bs) offset = Some (int (length bs), bs, h2) \<and> content h2 = content h1 \<and>
     (\<forall>n offset. \<exists>h3. pread_in_full pread h1 n offset =
        (let s = file_slice (content h1) offset n in
         Some (if s = [] \<and> n \<noteq> 0 then - 1 else int (length s), s, h3)) \<and> content h3 = content h1)"
proof -
  obtain h1 where w: "pwrite_in_full pwrite h bs offset = Some (int (length bs), h1)"
    "content h1 = file_splice (content h) (unat offset) bs"
    using pwrite_in_full_loop_ok [OF assms(2,4), of h 0] assms(5) by (auto simp: pwrite_in_full_def)
  have "length (content h1) < 2 ^ 64" using assms(3,4) by (simp add: w(2) length_file_splice)
  note r = pread_in_full_loop_ok [OF assms(1) this, of _ _ "[]"]
  have s: "file_slice (content h1) offset (length bs) = bs"
    unfolding w(2) by (rule file_slice_splice [OF assms(4)])
  obtain h2 where "pread_in_full pread h1 (length bs) offset = Some (int (length bs), bs, h2)" "content h2 = content h1"
    using r [of "length bs" offset] assms(5) s by (auto simp: pread_in_full_def Let_def)
  moreover have "\<exists>h3. pread_in_full pread h1 n offset =
        (let s = file_slice (content h1) offset n in
         Some (if s = [] \<and> n \<noteq> 0 then - 1 else int (length s), s, h3)) \<and> content h3 = content h1" for n offset
    using r [of n offset] by (simp add: pread_in_full_def)
  ultimately show ?thesis using w by blast
qed

text \<open>A file that interrupts every other call and transfers one byte at a time.\<close>

definition trickle_read :: "(u8 list \<times> nat) pread_call" where
  "trickle_read h n offset =
     (if snd h > 0 then (Inl EINTR, (fst h, snd h - 1))
      else (Inr (file_slice (fst h) offset (min n 1)), (fst h, 1)))"

definition trickle_write :: "(u8 list \<times> nat) pwrite_call" where
  "trickle_write h bs offset =
     (if snd h > 0 then (Inl EINTR, (fst h, snd h - 1))
      else (Inr (min (length bs) 1), (file_splice (fst h) (unat offset) (take 1 bs), 1)))"

lemma trickle_ok: "good_pread fst snd trickle_read" "good_pwrite fst snd trickle_write"
  by (auto simp: good_pread_def good_pwrite_def trickle_read_def trickle_write_def file_slice_def
      min_def take_Cons' split: if_splits)

lemma file_write_read_witness:
  "\<exists>h1 h2. pwrite_in_full trickle_write ([0, 0, 0, 0], 3) [7, 8, 9] 2 = Some (3, h1) \<and>
     pread_in_full trickle_read h1 3 2 = Some (3, [7, 8, 9], h2) \<and> fst h1 = [0, 0, 7, 8, 9] \<and>
     (\<exists>h3. pread_in_full trickle_read h1 10 3 = Some (2, [8, 9], h3))"
proof -
  let ?h = "([0, 0, 0, 0], 3) :: u8 list \<times> nat"
  have "length (fst ?h) < 2 ^ 64" "unat (2 :: u64) + length [7, 8, 9 :: u8] < 2 ^ 64" "[7, 8, 9 :: u8] \<noteq> []" by simp_all
  note c = file_write_read [OF trickle_ok this]
  have l: "length [7, 8, 9 :: u8] = 3" "file_splice (fst ?h) (unat (2 :: u64)) [7, 8, 9] = [0, 0, 7, 8, 9]"
    by (simp_all add: file_splice_def)
  from c [unfolded l of_nat_numeral] obtain h1 h2 where
    w: "pwrite_in_full trickle_write ?h [7, 8, 9] 2 = Some (3, h1)" "fst h1 = [0, 0, 7, 8, 9]"
      "pread_in_full trickle_read h1 3 2 = Some (3, [7, 8, 9], h2)"
    and all: "\<forall>n offset. \<exists>h3. pread_in_full trickle_read h1 n offset =
        (let s = file_slice (fst h1) offset n in
         Some (if s = [] \<and> n \<noteq> 0 then - 1 else int (length s), s, h3)) \<and> fst h3 = fst h1"
    by blast
  have s: "file_slice (fst h1) 3 10 = [8, 9]" unfolding w(2) by (simp add: file_slice_def)
  have "\<exists>h3. pread_in_full trickle_read h1 10 3 = Some (2, [8, 9], h3)"
    using spec [OF spec [OF all], of 10 3] unfolding s by (auto simp: Let_def)
  with w show ?thesis by blast
qed

text \<open>An empty file is read in whole, yet \<^verbatim>\<open>read_file\<close> reports an error.\<close>

lemma read_file_empty:
  assumes "read h n = (Inr [], h)" "read h 1 = (Inr [], h)" "n \<noteq> 0"
  shows "read_file read h n = Some (- 1, [], h)"
proof -
  have x: "xread read h k = Some (Inr [], h)" if "k \<in> {n, 1}" for k
    unfolding xread_def using that assms by (subst restart.simps) auto
  then have "read_in_full read h n = Some (- 1, [], h)"
    unfolding read_in_full_def using assms(3) by (subst read_in_full_loop.simps) (simp add: read_end_def)
  then show ?thesis using x [of 1] by (simp add: read_file_def)
qed

end
