(* ===== verification/Disk_Image.thy ===== *)
theory Disk_Image
  imports Read_Write
begin

section \<open>Disk images: state and host interface (include/kvm/disk-image.h, hw/disk/core.c)\<close>

text \<open>
  A disk image is a record with the set of its operations and the private data of its format. The
  calls to the host on the descriptor of one image are collected in \<open>disk_host\<close>, over a state \<open>'h\<close> of the
  host; allocations succeed or not by size, \<open>host_garbage\<close> are the
  bytes of fresh memory, zlib is a pair of parameters. The development follows the
  build without \<^verbatim>\<open>CONFIG_HAS_AIO\<close>, in which the raw operations are synchronous.
\<close>

definition SECTOR_SHIFT :: nat where "SECTOR_SHIFT = 9"
definition SECTOR_SIZE :: nat where "SECTOR_SIZE = 512"

datatype z_status = Z_OK | Z_STREAM_END | Z_BUF_ERROR | Z_OTHER

record 'h disk_host =
  host_pread :: "'h pread_call"
  host_pwrite :: "'h pwrite_call"
  host_preadv :: "'h preadv_call"
  host_pwritev :: "'h pwritev_call"
  host_fdatasync :: "'h \<Rightarrow> int \<times> 'h"
  host_fsync :: "'h \<Rightarrow> int \<times> 'h"
  host_malloc :: "u64 \<Rightarrow> bool"
  host_garbage :: "nat \<Rightarrow> u8"
  host_mmap :: "'h \<Rightarrow> u64 \<Rightarrow> int + u8 list"
  host_inflateInit :: z_status
  host_inflate :: "nat \<Rightarrow> u8 list \<Rightarrow> z_status \<times> u8 list"

datatype disk_image_operations =
  raw_image_regular_ops | ro_ops | ro_ops_nowrite | blk_dev_ops | qcow_disk_readonly_ops | qcow_disk_ops

datatype 'q priv = No_priv | Priv_mmap "u8 list" | Priv_qcow 'q

datatype disk_mapping = DISK_IMAGE_REGULAR | DISK_IMAGE_MMAP

record 'q disk_image =
  disk_fd :: int
  disk_size :: u64
  disk_ops :: disk_image_operations
  disk_priv :: "'q priv"
  disk_async :: bool
  disk_req_cb :: bool
  disk_wwpn :: "string option"
  disk_tpgt :: "string option"
  disk_iodelay :: int

definition SIZEOF_DISK_IMAGE :: u64 where "SIZEOF_DISK_IMAGE = 80"

definition disk_image__new ::
    "'h disk_host \<Rightarrow> 'h \<Rightarrow> int \<Rightarrow> u64 \<Rightarrow> disk_image_operations \<Rightarrow> disk_mapping \<Rightarrow> int + 'q disk_image" where
  "disk_image__new H h fd sz ops use_mmap =
     (if \<not> host_malloc H SIZEOF_DISK_IMAGE then Inl (- ENOMEM)
      else
        let disk = \<lparr> disk_fd = fd, disk_size = sz, disk_ops = ops, disk_priv = No_priv, disk_async = False, disk_req_cb = False,
                      disk_wwpn = None, disk_tpgt = None, disk_iodelay = 0 \<rparr> in
        case use_mmap of
          DISK_IMAGE_MMAP \<Rightarrow>
            (case host_mmap H h sz of
               Inl errno \<Rightarrow> Inl (- errno)
             | Inr m \<Rightarrow> Inr (disk\<lparr> disk_priv := Priv_mmap m \<rparr>))
        | DISK_IMAGE_REGULAR \<Rightarrow> Inr disk)"

definition disk_image__set_callback :: "'q disk_image \<Rightarrow> 'q disk_image" where
  "disk_image__set_callback disk = disk\<lparr> disk_req_cb := True \<rparr>"

end
