(* ===== verification/Lru_Cache.thy ===== *)
theory Lru_Cache
  imports Index "HOL-Library.Monad_Syntax"
begin

section \<open>A cache of nodes with least-recently-used replacement\<close>

text \<open>
  hw/disk/qcow.c keeps two caches of the same shape, of L2 tables and of refcount blocks: a red-black tree
  of nodes by their file offset, the list of the nodes in the order of their last use, and their
  number, at most \<open>MAX_CACHE_NODES\<close>. This theory holds what the two share: the state, the comparison, the
  contract \<open>node_cache\<close> of the operations and the proof that they implement a list of nodes in the order
  of use. A node is identified by its offset, so the list is a list of offsets.
\<close>

definition MAX_CACHE_NODES :: int where "MAX_CACHE_NODES = 32"

record 'n lru =
  lru_root :: "'n rbt"
  lru_list :: "u64 list"
  nr_cached :: int

definition empty_lru :: "'n lru" where
  "empty_lru = \<lparr> lru_root = Leaf, lru_list = [], nr_cached = 0 \<rparr>"

definition key_dir :: "('n \<Rightarrow> u64) \<Rightarrow> u64 \<Rightarrow> 'n \<Rightarrow> dir" where
  "key_dir key offset t =
     (if key t > offset then Go_left else if key t < offset then Go_right else Here)"

text \<open>A store through a node pointer.\<close>

definition node_update :: "('n \<Rightarrow> u64) \<Rightarrow> u64 \<Rightarrow> ('n \<Rightarrow> 'n) \<Rightarrow> 'n rbt \<Rightarrow> 'n rbt" where
  "node_update key offset f t = map_rbt (\<lambda>n. if key n = offset then f n else n) t"

lemma key_dir_Here [simp]: "key_dir key k n = Here \<longleftrightarrow> key n = k"
  by (auto simp: key_dir_def)

lemma inorder_map_rbt: "inorder (map_rbt f t) = map f (inorder t)"
  by (induction t) auto

lemma rb_inv_map_rbt: "rb_inv (map_rbt f t) = rb_inv t"
proof -
  have red: "rb_is_red (map_rbt f t) = rb_is_red t" for t by (cases t) auto
  have bh: "black_height (map_rbt f t) = black_height t" for t by (induction t) auto
  have "balanced (map_rbt f t) = balanced t" "no_red_red (map_rbt f t) = no_red_red t"
    by (induction t) (auto simp: red bh)
  then show ?thesis by (simp add: rb_inv_def red)
qed

lemma length_filter_neq: "distinct xs \<Longrightarrow> k \<in> set xs \<Longrightarrow> length (filter (\<lambda>j. j \<noteq> k) xs) + 1 = length xs"
proof (induction xs)
  case (Cons x xs)
  show ?case
  proof (cases "x = k")
    case True
    then have "filter (\<lambda>j. j \<noteq> k) xs = xs" using Cons.prems by (intro filter_True) auto
    then show ?thesis using True by simp
  qed (use Cons in simp)
qed simp

subsection \<open>The list of nodes in the order of use\<close>

definition spec_search :: "('n \<Rightarrow> u64) \<Rightarrow> u64 \<Rightarrow> 'n list \<Rightarrow> 'n option \<times> 'n list" where
  "spec_search key k xs =
     (case List.find (\<lambda>n. key n = k) xs of
        None \<Rightarrow> (None, xs)
      | Some n \<Rightarrow> (Some n, filter (\<lambda>m. key m \<noteq> k) xs @ [n]))"

definition spec_add :: "'n \<Rightarrow> 'n list \<Rightarrow> 'n list" where
  "spec_add n xs = (if int (length xs) = MAX_CACHE_NODES then tl xs else xs) @ [n]"

subsection \<open>The contract\<close>

locale node_cache =
  fixes key :: "'n \<Rightarrow> u64"
    and lookup :: "'n rbt \<Rightarrow> u64 \<Rightarrow> 'n option"
    and insert :: "'n rbt \<Rightarrow> 'n \<Rightarrow> 'n rbt option"
    and erase :: "'n rbt \<Rightarrow> u64 \<Rightarrow> 'n rbt option"
    and search :: "'n lru \<Rightarrow> u64 \<Rightarrow> 'n option \<times> 'n lru"
    and add :: "'n lru \<Rightarrow> 'n \<Rightarrow> 'n lru option"
  assumes lookup_impl: "lookup t k = Option.bind (rb_find_by (key_dir key k) t) rb_elem"
    and insert_impl: "insert t n = rb_insert_by (key_dir key (key n)) n t"
    and erase_impl: "erase t k = Option.bind (rb_find_by (key_dir key k) t) rb_erase"
    and search_impl: "search c k =
      (case lookup (lru_root c) k of
         None \<Rightarrow> (None, c)
       | Some n \<Rightarrow> (Some n, c\<lparr> lru_list := filter (\<lambda>j. j \<noteq> k) (lru_list c) @ [k] \<rparr>))"
    and add_impl: "add c n =
      do {
        c \<leftarrow> (if nr_cached c = MAX_CACHE_NODES
             then (case lru_list c of
                     [] \<Rightarrow> None
                   | k # ks \<Rightarrow>
                       map_option (\<lambda>t. c\<lparr> lru_root := t, lru_list := ks, nr_cached := nr_cached c - 1 \<rparr>)
                         (erase (lru_root c) k))
             else Some c);
        t \<leftarrow> insert (lru_root c) n;
        Some (c\<lparr> lru_root := t, lru_list := lru_list c @ [key n], nr_cached := nr_cached c + 1 \<rparr>)
      }"

sublocale node_cache \<subseteq> nodes: tree_index "\<lambda>a b. key a < key b" "\<lambda>_. True" "key_dir key"
    "\<lambda>n. key_dir key (key n)" lookup insert
    "\<lambda>t k. case rb_find_by (key_dir key k) t of None \<Rightarrow> Some t | Some loc \<Rightarrow> rb_erase loc"
  by unfold_locales (auto simp: key_dir_def lookup_impl insert_impl split: if_splits)

context node_cache
begin

definition cache_inv :: "'n lru \<Rightarrow> bool" where
  "cache_inv c \<longleftrightarrow> nodes.tree_inv (lru_root c) \<and> distinct (lru_list c) \<and>
     set (lru_list c) = key ` set (inorder (lru_root c)) \<and> nr_cached c = int (length (lru_list c)) \<and>
     nr_cached c \<le> MAX_CACHE_NODES"

definition recency :: "'n lru \<Rightarrow> 'n list" where
  "recency c = map (\<lambda>k. the (lookup (lru_root c) k)) (lru_list c)"

lemma lookup_iff:
  "nodes.tree_inv t \<Longrightarrow> lookup t k = Some n \<longleftrightarrow> n \<in> set (inorder t) \<and> key n = k"
  using nodes.lookup_iff [of t k n] by simp

lemma lookup_listed:
  assumes "cache_inv c" "k \<in> set (lru_list c)"
  shows "\<exists>n. lookup (lru_root c) k = Some n \<and> key n = k \<and> n \<in> set (inorder (lru_root c))"
  using assms lookup_iff [of "lru_root c" k] by (auto simp: cache_inv_def)

lemma listed_key: "cache_inv c \<Longrightarrow> k \<in> set (lru_list c) \<Longrightarrow> key (the (lookup (lru_root c) k)) = k"
  using lookup_listed [of c k] by auto

lemma map_key_recency: "cache_inv c \<Longrightarrow> map key (recency c) = lru_list c"
  using lookup_listed [of c] by (force simp: recency_def intro!: map_idI)

lemma set_recency: "cache_inv c \<Longrightarrow> set (recency c) = set (inorder (lru_root c))"
proof -
  assume inv: "cache_inv c"
  have "n \<in> set (recency c)" if "n \<in> set (inorder (lru_root c))" for n
  proof -
    have "lookup (lru_root c) (key n) = Some n" "key n \<in> set (lru_list c)"
      using that inv lookup_iff by (auto simp: cache_inv_def)
    then show ?thesis by (force simp: recency_def)
  qed
  moreover have "n \<in> set (inorder (lru_root c))" if "n \<in> set (recency c)" for n
    using that lookup_listed [OF inv] by (force simp: recency_def)
  ultimately show ?thesis by blast
qed

lemma find_recency:
  assumes "cache_inv c"
  shows "List.find (\<lambda>n. key n = k) (recency c) = lookup (lru_root c) k"
proof (cases "lookup (lru_root c) k")
  case None
  then have "\<forall>n \<in> set (recency c). key n \<noteq> k"
    using assms lookup_iff [of "lru_root c" k] by (auto simp: set_recency cache_inv_def)
  then show ?thesis using None by (simp add: find_None_iff)
next
  case (Some n)
  have ti: "nodes.tree_inv (lru_root c)" using assms by (simp add: cache_inv_def)
  obtain m where m: "List.find (\<lambda>n. key n = k) (recency c) = Some m"
    using Some ti assms lookup_iff [OF ti, of k n] by (cases "List.find (\<lambda>n. key n = k) (recency c)") (auto simp: find_None_iff set_recency)
  then have "m \<in> set (recency c)" "key m = k" by (auto simp: find_Some_iff)
  then have "lookup (lru_root c) k = Some m" using ti assms by (simp add: lookup_iff set_recency)
  then show ?thesis using m by simp
qed

lemma search_refines:
  assumes "cache_inv c" "search c k = (r, c')"
  shows "cache_inv c' \<and> spec_search key k (recency c) = (r, recency c') \<and> lru_root c' = lru_root c"
proof (cases "lookup (lru_root c) k")
  case None
  then show ?thesis using assms find_recency [OF assms(1), of k] by (simp add: search_impl spec_search_def)
next
  case (Some n)
  then have c': "r = Some n" "c' = c\<lparr> lru_list := filter (\<lambda>j. j \<noteq> k) (lru_list c) @ [k] \<rparr>"
    using assms(2) by (simp_all add: search_impl)
  have n: "n \<in> set (inorder (lru_root c))" "key n = k"
    using Some assms(1) lookup_iff by (auto simp: cache_inv_def)
  then have k: "k \<in> set (lru_list c)" using assms(1) by (auto simp: cache_inv_def)
  have len: "length (filter (\<lambda>j. j \<noteq> k) (lru_list c)) + 1 = length (lru_list c)"
    using k assms(1) length_filter_neq [of "lru_list c" k] by (simp add: cache_inv_def)
  have "map (\<lambda>k. the (lookup (lru_root c) k)) (filter (\<lambda>j. j \<noteq> k) (lru_list c)) =
      filter (\<lambda>m. key m \<noteq> k) (recency c)"
    unfolding recency_def filter_map
    by (intro arg_cong2 [of _ _ _ _ map] filter_cong) (simp_all add: o_def listed_key [OF assms(1)])
  then have "recency c' = filter (\<lambda>m. key m \<noteq> k) (recency c) @ [n]"
    using Some by (simp add: c' recency_def)
  moreover have "cache_inv c'" using assms(1) k len by (auto simp: cache_inv_def c')
  ultimately show ?thesis
    using Some find_recency [OF assms(1), of k] c' by (simp add: spec_search_def)
qed

lemma evict_oldest:
  assumes "cache_inv c" "lru_list c = k # ks"
  shows "\<exists>t. erase (lru_root c) k = Some t \<and>
     cache_inv (c\<lparr> lru_root := t, lru_list := ks, nr_cached := nr_cached c - 1 \<rparr>) \<and>
     recency (c\<lparr> lru_root := t, lru_list := ks, nr_cached := nr_cached c - 1 \<rparr>) = tl (recency c)"
proof -
  have ti: "nodes.tree_inv (lru_root c)" and d: "k \<notin> set ks" using assms by (auto simp: cache_inv_def)
  obtain n where n: "lookup (lru_root c) k = Some n" using lookup_listed [OF assms(1), of k] assms(2) by auto
  from nodes.lookup_delete [OF ti, of k] obtain t where
    t: "(case rb_find_by (key_dir key k) (lru_root c) of None \<Rightarrow> Some (lru_root c) | Some loc \<Rightarrow> rb_erase loc) = Some t"
      "nodes.tree_inv t" "set (inorder t) = {b \<in> set (inorder (lru_root c)). key b \<noteq> k}"
      "\<And>j. j \<noteq> k \<Longrightarrow> lookup t j = lookup (lru_root c) j"
    using lookup_iff [OF ti] n by (auto split: option.splits)
  have e: "erase (lru_root c) k = Some t"
    using t(1) n by (auto simp: erase_impl lookup_impl split: option.splits)
  have "key ` set (inorder t) = set (lru_list c) - {k}"
    using assms(1) unfolding t(3) by (auto simp: cache_inv_def)
  then have ks: "key ` set (inorder t) = set ks" using assms(2) d by auto
  have "recency (c\<lparr> lru_root := t, lru_list := ks, nr_cached := nr_cached c - 1 \<rparr>) = tl (recency c)"
    using d assms(2) by (simp add: recency_def) (metis t(4))
  moreover have "cache_inv (c\<lparr> lru_root := t, lru_list := ks, nr_cached := nr_cached c - 1 \<rparr>)"
    using assms t(2) ks by (auto simp: cache_inv_def)
  ultimately show ?thesis using e by blast
qed

lemma insert_new:
  assumes "cache_inv c" "lookup (lru_root c) (key n) = None" "nr_cached c < MAX_CACHE_NODES"
  shows "\<exists>t. insert (lru_root c) n = Some t \<and>
     cache_inv (c\<lparr> lru_root := t, lru_list := lru_list c @ [key n], nr_cached := nr_cached c + 1 \<rparr>) \<and>
     recency (c\<lparr> lru_root := t, lru_list := lru_list c @ [key n], nr_cached := nr_cached c + 1 \<rparr>) = recency c @ [n]"
proof -
  have ti: "nodes.tree_inv (lru_root c)" using assms(1) by (simp add: cache_inv_def)
  have fresh: "key b \<noteq> key n" if "b \<in> set (inorder (lru_root c))" for b
    using that assms(2) lookup_iff [OF ti, of "key n" b] by auto
  then have "\<And>b k. b \<in> set (inorder (lru_root c)) \<Longrightarrow> key_dir key k n = Here \<Longrightarrow> key_dir key k b \<noteq> Here" by auto
  from nodes.lookup_insert [OF ti, of n, OF TrueI this] obtain t where
    t: "insert (lru_root c) n = Some t" "nodes.tree_inv t" "set (inorder t) = Set.insert n (set (inorder (lru_root c)))"
      "\<And>k. lookup t k = (if key n = k then Some n else lookup (lru_root c) k)"
    by auto
  have nl: "key n \<notin> set (lru_list c)" 
  proof
    assume "key n \<in> set (lru_list c)"
    then obtain b where "b \<in> set (inorder (lru_root c))" "key n = key b" using assms(1) by (auto simp: cache_inv_def)
    then show False using fresh [of b] by simp
  qed
  then have "recency (c\<lparr> lru_root := t, lru_list := lru_list c @ [key n], nr_cached := nr_cached c + 1 \<rparr>) = recency c @ [n]"
    by (auto simp: recency_def t(4))
  moreover have "cache_inv (c\<lparr> lru_root := t, lru_list := lru_list c @ [key n], nr_cached := nr_cached c + 1 \<rparr>)"
    using assms(1,3) t(2,3) nl by (auto simp: cache_inv_def)
  ultimately show ?thesis using t(1) by blast
qed

lemma add_refines:
  assumes "cache_inv c" "lookup (lru_root c) (key n) = None"
  shows "\<exists>c'. add c n = Some c' \<and> cache_inv c' \<and> recency c' = spec_add n (recency c)"
proof -
  have len: "int (length (recency c)) = nr_cached c" using assms(1) by (simp add: recency_def cache_inv_def)
  show ?thesis
  proof (cases "nr_cached c = MAX_CACHE_NODES")
    case True
    then have "lru_list c \<noteq> []" using assms(1) by (auto simp: cache_inv_def MAX_CACHE_NODES_def)
    then obtain k ks where l: "lru_list c = k # ks" by (cases "lru_list c") auto
    from evict_oldest [OF assms(1) l] obtain t where t: "erase (lru_root c) k = Some t"
      "cache_inv (c\<lparr> lru_root := t, lru_list := ks, nr_cached := nr_cached c - 1 \<rparr>)"
      "recency (c\<lparr> lru_root := t, lru_list := ks, nr_cached := nr_cached c - 1 \<rparr>) = tl (recency c)" by blast
    let ?c = "c\<lparr> lru_root := t, lru_list := ks, nr_cached := nr_cached c - 1 \<rparr>"
    have "find (\<lambda>m. key m = key n) (recency c) = None" using assms find_recency [OF assms(1)] by simp
    then have "find (\<lambda>m. key m = key n) (recency ?c) = None"
      unfolding t(3) find_None_iff by (metis list.sel(2) list.set_sel(2))
    then have "lookup (lru_root ?c) (key n) = None" using find_recency [OF t(2)] by simp
    from insert_new [OF t(2) this] True show ?thesis
      using t(1,3) l len by (auto simp: add_impl spec_add_def)
  next
    case False
    then have "nr_cached c < MAX_CACHE_NODES" using assms(1) by (simp add: cache_inv_def)
    from insert_new [OF assms this] False show ?thesis
      using len by (auto simp: add_impl spec_add_def)
  qed
qed

lemma empty_cache: "cache_inv empty_lru" "recency empty_lru = []"
  by (simp_all add: cache_inv_def recency_def empty_lru_def nodes.tree_inv_def rb_inv_def MAX_CACHE_NODES_def)

lemma search_lookup: "search c k = (r, c') \<Longrightarrow> r = lookup (lru_root c) k"
  by (auto simp: search_impl split: option.splits)

lemma tree_inv_update:
  assumes "nodes.tree_inv t" "\<And>n. key (f n) = key n"
  shows "nodes.tree_inv (node_update key k f t)"
  using assms
  by (auto simp: nodes.tree_inv_def node_update_def rb_inv_map_rbt inorder_map_rbt sorted_wrt_map
      intro: sorted_wrt_mono_rel [rotated])

lemma lookup_update:
  assumes "nodes.tree_inv t" "\<And>n. key (f n) = key n"
  shows "lookup (node_update key k f t) j = (if j = k then map_option f (lookup t j) else lookup t j)"
proof (rule option_eqI)
  fix a
  show "(lookup (node_update key k f t) j = Some a) = ((if j = k then map_option f (lookup t j) else lookup t j) = Some a)"
    using lookup_iff [OF tree_inv_update [OF assms]] lookup_iff [OF assms(1)] assms(2)
    by (auto simp: node_update_def inorder_map_rbt image_iff split: if_splits)
qed

lemma cache_inv_update:
  assumes "cache_inv c" "\<And>n. key (f n) = key n"
  shows "cache_inv (c\<lparr> lru_root := node_update key k f (lru_root c) \<rparr>)"
proof -
  have "key ` set (inorder (node_update key k f (lru_root c))) = key ` set (inorder (lru_root c))"
  proof -
    have e: "key (if key n = k then f n else n) = key n" for n using assms(2) by simp
    show ?thesis unfolding node_update_def inorder_map_rbt set_map image_image e ..
  qed
  then show ?thesis using assms tree_inv_update [of "lru_root c" f k] by (simp add: cache_inv_def)
qed

end

end
