(* ===== verification/Qcow.thy ===== *)
theory Qcow
  imports Disk_Image Lru_Cache
begin

section \<open>QCOW images (hw/disk/qcow.c, include/kvm/qcow.h)\<close>

text \<open>
  An image maps the sectors of a virtual disk to clusters of a file through two levels of tables. The L1
  and refcount tables are in memory as they are on disk (big-endian words read on a little-endian host, so
  every use swaps the bytes); L2 tables and refcount blocks are cached. A pointer to a cached node is its
  file offset; a pointer to a node that is no longer cached is dangling, and an access through it \<open>None\<close>.

  \<open>1 << n\<close> is an \<^verbatim>\<open>int\<close> of 32 bits that is extended to 64. Buffers filled by a short read keep their old
  contents behind it. The mutex makes each operation atomic and is left out. \<open>None\<close> is undefined
  behaviour (a NULL or dangling pointer, an overflow of a heap buffer, a corrupted list) or a loop that does not
  end.
\<close>

subsection \<open>Data\<close>

definition QCOW_MAGIC :: u32 where "QCOW_MAGIC = 0x514649fb"
definition QCOW1_VERSION :: u32 where "QCOW1_VERSION = 1"
definition QCOW2_VERSION :: u32 where "QCOW2_VERSION = 2"
definition QCOW1_OFLAG_COMPRESSED :: u64 where "QCOW1_OFLAG_COMPRESSED = push_bit 63 1"
definition QCOW2_OFLAG_COPIED :: u64 where "QCOW2_OFLAG_COPIED = push_bit 63 1"
definition QCOW2_OFLAG_COMPRESSED :: u64 where "QCOW2_OFLAG_COMPRESSED = push_bit 62 1"
definition QCOW2_OFLAGS_MASK :: u64 where "QCOW2_OFLAGS_MASK = QCOW2_OFLAG_COPIED OR QCOW2_OFLAG_COMPRESSED"
definition QCOW2_OFFSET_MASK :: u64 where "QCOW2_OFFSET_MASK = NOT QCOW2_OFLAGS_MASK"
definition QCOW_REFCOUNT_BLOCK_SHIFT :: nat where "QCOW_REFCOUNT_BLOCK_SHIFT = 1"

record qcow_l2_table =
  l2_offset :: u64
  l2_dirty :: bool
  l2_table :: "u64 list"

record qcow_l1_table =
  table_size :: u32
  l1_table :: "u64 list"
  l1_cache :: "qcow_l2_table lru"

record qcow_refcount_block =
  rfb_offset :: u64
  rfb_size :: u64
  rfb_dirty :: bool
  rfb_entries :: "u16 list"

record qcow_refcount_table =
  rf_size :: u32
  rf_table :: "u64 list"
  rf_cache :: "qcow_refcount_block lru"

record qcow_header =
  hdr_size :: u64
  l1_table_offset :: u64
  l1_size :: u32
  cluster_bits :: u8
  l2_bits :: u8
  refcount_table_offset :: u64
  refcount_table_size :: u32

record qcow =
  qheader :: qcow_header
  qtable :: qcow_l1_table
  qrefcount :: qcow_refcount_table
  csize_shift :: int
  csize_mask :: u32
  qversion :: u32
  cluster_size :: u64
  cluster_offset_mask :: u64
  free_clust_idx :: u64
  cluster_data :: "u8 list"
  copy_buff :: "u8 list"

definition int_shl1 :: "nat \<Rightarrow> u64" where
  "int_shl1 n = scast (push_bit n 1 :: u32)"

definition words64 :: "u8 list \<Rightarrow> u64 list" where
  "words64 bs = map (\<lambda>i. le_word (take 8 (drop (8 * i) bs))) [0..<length bs div 8]"

definition words16 :: "u8 list \<Rightarrow> u16 list" where
  "words16 bs = map (\<lambda>i. le_word (take 2 (drop (2 * i) bs))) [0..<length bs div 2]"

definition bytes64 :: "u64 list \<Rightarrow> u8 list" where
  "bytes64 ws = concat (map (le_bytes 8) ws)"

definition bytes16 :: "u16 list \<Rightarrow> u8 list" where
  "bytes16 ws = concat (map (le_bytes 2) ws)"

definition garbage :: "'h disk_host \<Rightarrow> nat \<Rightarrow> u8 list" where
  "garbage H n = map (host_garbage H) [0..<n]"

subsection \<open>The L2 cache\<close>

definition qcow_pwrite_sync :: "'h disk_host \<Rightarrow> 'h \<Rightarrow> u8 list \<Rightarrow> u64 \<Rightarrow> (int \<times> 'h) option" where
  "qcow_pwrite_sync H h bs offset =
     do {
       (r, h) \<leftarrow> pwrite_in_full (host_pwrite H) h bs offset;
       Some (if r < 0 then (- 1, h) else host_fdatasync H h)
     }"

definition l2_table_insert :: "qcow_l2_table rbt \<Rightarrow> qcow_l2_table \<Rightarrow> qcow_l2_table rbt option" where
  "l2_table_insert root new =
     (case rb_descend (key_dir l2_offset (l2_offset new)) root [] of
        (Leaf, link) \<Rightarrow> rb_insert_color new link
      | (Node _ _ _ _, _) \<Rightarrow> Some root)"

definition l2_table_lookup :: "qcow_l2_table rbt \<Rightarrow> u64 \<Rightarrow> qcow_l2_table option" where
  "l2_table_lookup root offset =
     (case rb_descend (key_dir l2_offset offset) root [] of
        (Leaf, _) \<Rightarrow> None
      | (Node _ _ t _, _) \<Rightarrow> Some t)"

definition l2_erase :: "qcow_l2_table rbt \<Rightarrow> u64 \<Rightarrow> qcow_l2_table rbt option" where
  "l2_erase root offset = Option.bind (rb_find_by (key_dir l2_offset offset) root) rb_erase"

fun l2_free_all :: "qcow_l2_table rbt \<Rightarrow> u64 list \<Rightarrow> qcow_l2_table rbt option" where
  "l2_free_all root [] = Some root"
| "l2_free_all root (pos # ps) = do { root \<leftarrow> l2_erase root pos; l2_free_all root ps }"

definition l1_table_free_cache :: "qcow_l1_table \<Rightarrow> qcow_l1_table option" where
  "l1_table_free_cache l1t =
     do {
       root \<leftarrow> l2_free_all (lru_root (l1_cache l1t)) (lru_list (l1_cache l1t));
       Some (l1t\<lparr> l1_cache := (l1_cache l1t)\<lparr> lru_root := root, lru_list := [] \<rparr> \<rparr>)
     }"

definition qcow_l2_cache_write ::
    "'h disk_host \<Rightarrow> qcow \<Rightarrow> 'h \<Rightarrow> qcow_l2_table \<Rightarrow> (int \<times> qcow_l2_table \<times> 'h) option" where
  "qcow_l2_cache_write H q h c =
     (if \<not> l2_dirty c then Some (0, c, h)
      else
        let size = int_shl1 (unat (l2_bits (qheader q))) in
        do {
          (r, h) \<leftarrow> qcow_pwrite_sync H h (take (unat (size * 8)) (bytes64 (l2_table c))) (l2_offset c);
          Some (if r < 0 then (- 1, c, h) else (0, c\<lparr> l2_dirty := False \<rparr>, h))
        })"

definition l2_cache_add :: "qcow_l2_table lru \<Rightarrow> qcow_l2_table \<Rightarrow> qcow_l2_table lru option" where
  "l2_cache_add c n =
     do {
       c \<leftarrow> (if nr_cached c = MAX_CACHE_NODES
            then (case lru_list c of
                    [] \<Rightarrow> None
                  | lru # rest \<Rightarrow>
                      map_option (\<lambda>t. c\<lparr> lru_root := t, lru_list := rest, nr_cached := nr_cached c - 1 \<rparr>)
                        (l2_erase (lru_root c) lru))
            else Some c);
       t \<leftarrow> l2_table_insert (lru_root c) n;
       Some (c\<lparr> lru_root := t, lru_list := lru_list c @ [l2_offset n], nr_cached := nr_cached c + 1 \<rparr>)
     }"

definition cache_table :: "qcow \<Rightarrow> qcow_l2_table \<Rightarrow> qcow option" where
  "cache_table q c =
     map_option (\<lambda>cache. q\<lparr> qtable := (qtable q)\<lparr> l1_cache := cache \<rparr> \<rparr>) (l2_cache_add (l1_cache (qtable q)) c)"

definition l2_cache_search :: "qcow_l2_table lru \<Rightarrow> u64 \<Rightarrow> qcow_l2_table option \<times> qcow_l2_table lru" where
  "l2_cache_search c offset =
     (case l2_table_lookup (lru_root c) offset of
        None \<Rightarrow> (None, c)
      | Some l2t \<Rightarrow> (Some l2t, c\<lparr> lru_list := filter (\<lambda>j. j \<noteq> offset) (lru_list c) @ [offset] \<rparr>))"

definition l2_table_search :: "qcow \<Rightarrow> u64 \<Rightarrow> qcow_l2_table option \<times> qcow" where
  "l2_table_search q offset =
     (case l2_cache_search (l1_cache (qtable q)) offset of
        (r, cache) \<Rightarrow> (r, q\<lparr> qtable := (qtable q)\<lparr> l1_cache := cache \<rparr> \<rparr>))"

definition SIZEOF_L2_TABLE :: u64 where "SIZEOF_L2_TABLE = 56"

definition new_cache_table :: "'h disk_host \<Rightarrow> qcow \<Rightarrow> u64 \<Rightarrow> qcow_l2_table option" where
  "new_cache_table H q offset =
     (let l2t_sz = int_shl1 (unat (l2_bits (qheader q))) in
      if \<not> host_malloc H (SIZEOF_L2_TABLE + l2t_sz * 8) then None
      else Some \<lparr> l2_offset = offset, l2_dirty = False, l2_table = replicate (unat l2t_sz) 0 \<rparr>)"

definition get_l1_index :: "qcow \<Rightarrow> u64 \<Rightarrow> u64" where
  "get_l1_index q offset = drop_bit (unat (l2_bits (qheader q)) + unat (cluster_bits (qheader q))) offset"

definition get_l2_index :: "qcow \<Rightarrow> u64 \<Rightarrow> u64" where
  "get_l2_index q offset =
     drop_bit (unat (cluster_bits (qheader q))) offset AND (int_shl1 (unat (l2_bits (qheader q))) - 1)"

definition get_cluster_offset :: "qcow \<Rightarrow> u64 \<Rightarrow> u64" where
  "get_cluster_offset q offset = offset AND (int_shl1 (unat (cluster_bits (qheader q))) - 1)"

definition qcow_read_l2_table ::
    "'h disk_host \<Rightarrow> qcow \<Rightarrow> 'h \<Rightarrow> u64 \<Rightarrow> (u64 option \<times> qcow \<times> 'h) option" where
  "qcow_read_l2_table H q h offset =
     (let size = int_shl1 (unat (l2_bits (qheader q))) in
      case l2_table_search q offset of
        (Some _, q) \<Rightarrow> Some (Some offset, q, h)
      | (None, q) \<Rightarrow>
          (case new_cache_table H q offset of
             None \<Rightarrow> Some (None, q, h)
           | Some l2t \<Rightarrow>
               do {
                 (r, bs, h) \<leftarrow> pread_in_full (host_pread H) h (unat (size * 8)) offset;
                 if r < 0 then Some (None, q, h)
                 else do {
                   q \<leftarrow> cache_table q (l2t\<lparr> l2_table := words64 (overlay (bytes64 (l2_table l2t)) bs) \<rparr>);
                   Some (Some offset, q, h)
                 }
               }))"

definition l2_entry :: "qcow \<Rightarrow> u64 \<Rightarrow> u64 \<Rightarrow> u64 option" where
  "l2_entry q l2t idx =
     (case l2_table_lookup (lru_root (l1_cache (qtable q))) l2t of
        None \<Rightarrow> None
      | Some t \<Rightarrow> if unat idx < length (l2_table t) then Some (bswap64 (l2_table t ! unat idx)) else None)"

subsection \<open>Reading\<close>

definition qcow_decompress_buffer :: "'h disk_host \<Rightarrow> nat \<Rightarrow> u8 list \<Rightarrow> u8 list option" where
  "qcow_decompress_buffer H out_size bs =
     (if host_inflateInit H \<noteq> Z_OK then None
      else
        case host_inflate H out_size bs of (ret, out) \<Rightarrow>
          if (ret \<noteq> Z_STREAM_END \<and> ret \<noteq> Z_BUF_ERROR) \<or> length out \<noteq> out_size then None else Some out)"

type_synonym 'h cluster_read = "(int \<times> u8 list \<times> qcow \<times> 'h) option"

definition zero_cluster :: "qcow \<Rightarrow> 'h \<Rightarrow> u64 \<Rightarrow> 'h cluster_read" where
  "zero_cluster q h len = Some (sint len, replicate (unat len) 0, q, h)"

definition read_extent :: "'h disk_host \<Rightarrow> qcow \<Rightarrow> 'h \<Rightarrow> u64 \<Rightarrow> u64 \<Rightarrow> 'h cluster_read" where
  "read_extent H q h len offset =
     do {
       (r, bs, h) \<leftarrow> pread_in_full (host_pread H) h (unat len) offset;
       Some (if r < 0 then - 1 else sint len, bs, q, h)
     }"

text \<open>
  The compressed cluster at \<open>coffset\<close>: \<open>count\<close> bytes are read to \<^verbatim>\<open>cluster_data\<close> and \<open>csize\<close> bytes from \<open>skip\<close> on
  are inflated.
\<close>

definition read_compressed ::
    "'h disk_host \<Rightarrow> qcow \<Rightarrow> 'h \<Rightarrow> nat \<Rightarrow> u64 \<Rightarrow> nat \<Rightarrow> nat \<Rightarrow> u64 \<Rightarrow> u64 \<Rightarrow> 'h cluster_read" where
  "read_compressed H q h count coffset skip csize clust_offset len =
     (if unat (cluster_size q) < count then None
      else do {
        (r, bs, h) \<leftarrow> pread_in_full (host_pread H) h count coffset;
        let q = q\<lparr> cluster_data := overlay (cluster_data q) bs \<rparr> in
        if r < 0 then Some (- 1, [], q, h)
        else
          case qcow_decompress_buffer H (unat (cluster_size q)) (take csize (drop skip (cluster_data q))) of
            None \<Rightarrow> Some (- 1, [], q, h)
          | Some out \<Rightarrow> Some (sint len, take (unat len) (drop (unat clust_offset) out), q, h)
      })"

definition qcow1_read_cluster :: "'h disk_host \<Rightarrow> qcow \<Rightarrow> 'h \<Rightarrow> u64 \<Rightarrow> u32 \<Rightarrow> 'h cluster_read" where
  "qcow1_read_cluster H q h offset dst_len =
     (let l1_idx = get_l1_index q offset;
          clust_offset = get_cluster_offset q offset;
          len = min (cluster_size q - clust_offset) (ucast dst_len) in
      if l1_idx \<ge> ucast (table_size (qtable q)) \<or> clust_offset \<ge> cluster_size q then Some (- 1, [], q, h)
      else if \<not> unat l1_idx < length (l1_table (qtable q)) then None
      else
        let l2t_offset = bswap64 (l1_table (qtable q) ! unat l1_idx) in
        if l2t_offset = 0 then zero_cluster q h len
        else do {
          (l2t, q, h) \<leftarrow> qcow_read_l2_table H q h l2t_offset;
          (case l2t of
             None \<Rightarrow> Some (- 1, [], q, h)
           | Some l2t \<Rightarrow>
               let l2_idx = get_l2_index q offset in
               if l2_idx \<ge> int_shl1 (unat (l2_bits (qheader q))) then Some (- 1, [], q, h)
               else do {
                 clust_start \<leftarrow> l2_entry q l2t l2_idx;
                 if clust_start AND QCOW1_OFLAG_COMPRESSED \<noteq> 0
                 then
                   let coffset = ucast (clust_start AND cluster_offset_mask q) :: u32;
                       csize = ucast (drop_bit (63 - unat (cluster_bits (qheader q))) clust_start) AND ucast (cluster_size q - 1) :: u32 in
                   read_compressed H q h (unat csize) (scast coffset) 0 (unat csize) clust_offset len
                 else if clust_start = 0 then zero_cluster q h len
                 else read_extent H q h len (clust_start + clust_offset)
               })
        })"

definition qcow2_read_cluster :: "'h disk_host \<Rightarrow> qcow \<Rightarrow> 'h \<Rightarrow> u64 \<Rightarrow> u32 \<Rightarrow> 'h cluster_read" where
  "qcow2_read_cluster H q h offset dst_len =
     (let l1_idx = get_l1_index q offset;
          clust_offset = get_cluster_offset q offset;
          len = min (cluster_size q - clust_offset) (ucast dst_len) in
      if l1_idx \<ge> ucast (table_size (qtable q)) \<or> clust_offset \<ge> cluster_size q then Some (- 1, [], q, h)
      else if \<not> unat l1_idx < length (l1_table (qtable q)) then None
      else
        let l2t_offset = bswap64 (l1_table (qtable q) ! unat l1_idx) AND NOT QCOW2_OFLAG_COPIED in
        if l2t_offset = 0 then zero_cluster q h len
        else do {
          (l2t, q, h) \<leftarrow> qcow_read_l2_table H q h l2t_offset;
          (case l2t of
             None \<Rightarrow> Some (- 1, [], q, h)
           | Some l2t \<Rightarrow>
               let l2_idx = get_l2_index q offset in
               if l2_idx \<ge> int_shl1 (unat (l2_bits (qheader q))) then Some (- 1, [], q, h)
               else do {
                 clust_start \<leftarrow> l2_entry q l2t l2_idx;
                 if clust_start AND QCOW2_OFLAG_COMPRESSED \<noteq> 0
                 then
                   let coffset = ucast (clust_start AND cluster_offset_mask q) :: u32;
                       nb_csectors = (ucast (drop_bit (nat (csize_shift q)) clust_start) AND csize_mask q) + 1;
                       sector_offset = coffset AND 511;
                       csize = nb_csectors * 512 - sector_offset in
                   read_compressed H q h (unat (nb_csectors * 512)) (scast coffset AND NOT 511) (unat sector_offset)
                     (unat csize) clust_offset len
                 else
                   let clust_start = clust_start AND QCOW2_OFFSET_MASK in
                   if clust_start = 0 then zero_cluster q h len
                   else read_extent H q h len (clust_start + clust_offset)
               })
        })"

partial_function (option) read_sector_loop ::
    "'h disk_host \<Rightarrow> qcow \<Rightarrow> 'h \<Rightarrow> mem \<Rightarrow> u64 \<Rightarrow> u64 \<Rightarrow> u32 \<Rightarrow> u32 \<Rightarrow> (int \<times> qcow \<times> 'h \<times> mem) option" where
  "read_sector_loop H q h m sector buf dst_len nr_read =
     (if nr_read < dst_len
      then
        let offset = push_bit SECTOR_SHIFT sector in
        if offset \<ge> hdr_size (qheader q) then Some (- 1, q, h, m)
        else do {
          (r, bs, q, h) \<leftarrow> (if qversion q = QCOW1_VERSION then qcow1_read_cluster H q h offset (dst_len - nr_read)
                           else qcow2_read_cluster H q h offset (dst_len - nr_read));
          let nr = word_of_int r :: u32; m = store m buf bs in
          if nr = 0 then Some (- 1, q, h, m)
          else read_sector_loop H q h m (sector + ucast (drop_bit SECTOR_SHIFT nr)) (buf + ucast nr) dst_len (nr_read + nr)
        }
      else Some (uint dst_len, q, h, m))"

definition qcow_read_sector_single ::
    "'h disk_host \<Rightarrow> qcow \<Rightarrow> 'h \<Rightarrow> mem \<Rightarrow> u64 \<Rightarrow> u64 \<Rightarrow> u32 \<Rightarrow> (int \<times> qcow \<times> 'h \<times> mem) option" where
  "qcow_read_sector_single H q h m sector dst dst_len = read_sector_loop H q h m sector dst dst_len 0"

fun qcow_read_sector ::
    "'h disk_host \<Rightarrow> qcow \<Rightarrow> 'h \<Rightarrow> mem \<Rightarrow> u64 \<Rightarrow> iovec list \<Rightarrow> int \<Rightarrow> (int \<times> qcow \<times> 'h \<times> mem) option" where
  "qcow_read_sector H q h m sector [] tot = Some (tot, q, h, m)"
| "qcow_read_sector H q h m sector (v # vs) tot =
     do {
       (nr, q, h, m) \<leftarrow> qcow_read_sector_single H q h m sector (iov_base v) (ucast (iov_len v));
       if nr \<noteq> sint (iov_len v) then Some (- 1, q, h, m)
       else qcow_read_sector H q h m (sector + drop_bit SECTOR_SHIFT (iov_len v)) vs (tot + nr)
     }"

subsection \<open>The refcount blocks\<close>

definition refcount_block_insert ::
    "qcow_refcount_block rbt \<Rightarrow> qcow_refcount_block \<Rightarrow> qcow_refcount_block rbt option" where
  "refcount_block_insert root new =
     (case rb_descend (key_dir rfb_offset (rfb_offset new)) root [] of
        (Leaf, link) \<Rightarrow> rb_insert_color new link
      | (Node _ _ _ _, _) \<Rightarrow> Some root)"

definition refcount_block_lookup :: "qcow_refcount_block rbt \<Rightarrow> u64 \<Rightarrow> qcow_refcount_block option" where
  "refcount_block_lookup root offset =
     (case rb_descend (key_dir rfb_offset offset) root [] of
        (Leaf, _) \<Rightarrow> None
      | (Node _ _ t _, _) \<Rightarrow> Some t)"

definition rfb_erase :: "qcow_refcount_block rbt \<Rightarrow> u64 \<Rightarrow> qcow_refcount_block rbt option" where
  "rfb_erase root offset = Option.bind (rb_find_by (key_dir rfb_offset offset) root) rb_erase"

fun rfb_free_all :: "qcow_refcount_block rbt \<Rightarrow> u64 list \<Rightarrow> qcow_refcount_block rbt option" where
  "rfb_free_all root [] = Some root"
| "rfb_free_all root (pos # ps) = do { root \<leftarrow> rfb_erase root pos; rfb_free_all root ps }"

definition refcount_table_free_cache :: "qcow_refcount_table \<Rightarrow> qcow_refcount_table option" where
  "refcount_table_free_cache rft =
     do {
       root \<leftarrow> rfb_free_all (lru_root (rf_cache rft)) (lru_list (rf_cache rft));
       Some (rft\<lparr> rf_cache := (rf_cache rft)\<lparr> lru_root := root, lru_list := [] \<rparr> \<rparr>)
     }"

definition write_refcount_block ::
    "'h disk_host \<Rightarrow> 'h \<Rightarrow> qcow_refcount_block \<Rightarrow> (int \<times> qcow_refcount_block \<times> 'h) option" where
  "write_refcount_block H h rfb =
     (if \<not> rfb_dirty rfb then Some (0, rfb, h)
      else do {
        (r, h) \<leftarrow> qcow_pwrite_sync H h (take (unat (rfb_size rfb * 2)) (bytes16 (rfb_entries rfb))) (rfb_offset rfb);
        Some (if r < 0 then (- 1, rfb, h) else (0, rfb\<lparr> rfb_dirty := False \<rparr>, h))
      })"

definition rfb_cache_add ::
    "qcow_refcount_block lru \<Rightarrow> qcow_refcount_block \<Rightarrow> qcow_refcount_block lru option" where
  "rfb_cache_add c n =
     do {
       c \<leftarrow> (if nr_cached c = MAX_CACHE_NODES
            then (case lru_list c of
                    [] \<Rightarrow> None
                  | lru # rest \<Rightarrow>
                      map_option (\<lambda>t. c\<lparr> lru_root := t, lru_list := rest, nr_cached := nr_cached c - 1 \<rparr>)
                        (rfb_erase (lru_root c) lru))
            else Some c);
       t \<leftarrow> refcount_block_insert (lru_root c) n;
       Some (c\<lparr> lru_root := t, lru_list := lru_list c @ [rfb_offset n], nr_cached := nr_cached c + 1 \<rparr>)
     }"

definition cache_refcount_block :: "qcow \<Rightarrow> qcow_refcount_block \<Rightarrow> qcow option" where
  "cache_refcount_block q c =
     map_option (\<lambda>cache. q\<lparr> qrefcount := (qrefcount q)\<lparr> rf_cache := cache \<rparr> \<rparr>) (rfb_cache_add (rf_cache (qrefcount q)) c)"

definition SIZEOF_REFCOUNT_BLOCK :: u64 where "SIZEOF_REFCOUNT_BLOCK = 64"

definition new_refcount_block :: "'h disk_host \<Rightarrow> qcow \<Rightarrow> u64 \<Rightarrow> qcow_refcount_block option" where
  "new_refcount_block H q offset =
     (if \<not> host_malloc H (SIZEOF_REFCOUNT_BLOCK + cluster_size q) then None
      else Some \<lparr> rfb_offset = offset, rfb_size = cluster_size q div 2, rfb_dirty = (host_garbage H 56 \<noteq> 0),
                  rfb_entries = words16 (garbage H (unat (cluster_size q))) \<rparr>)"

definition rfb_cache_search ::
    "qcow_refcount_block lru \<Rightarrow> u64 \<Rightarrow> qcow_refcount_block option \<times> qcow_refcount_block lru" where
  "rfb_cache_search c offset =
     (case refcount_block_lookup (lru_root c) offset of
        None \<Rightarrow> (None, c)
      | Some rfb \<Rightarrow> (Some rfb, c\<lparr> lru_list := filter (\<lambda>j. j \<noteq> offset) (lru_list c) @ [offset] \<rparr>))"

definition refcount_block_search :: "qcow \<Rightarrow> u64 \<Rightarrow> qcow_refcount_block option \<times> qcow" where
  "refcount_block_search q offset =
     (case rfb_cache_search (rf_cache (qrefcount q)) offset of
        (r, cache) \<Rightarrow> (r, q\<lparr> qrefcount := (qrefcount q)\<lparr> rf_cache := cache \<rparr> \<rparr>))"

text \<open>A pointer that may be an error.\<close>

datatype rfb_ptr = Rfb_enospc | Rfb_null | Rfb u64

definition rft_index :: "qcow \<Rightarrow> u64 \<Rightarrow> u64" where
  "rft_index q clust_idx = drop_bit (unat (cluster_bits (qheader q)) - QCOW_REFCOUNT_BLOCK_SHIFT) clust_idx"

definition qcow_read_refcount_block ::
    "'h disk_host \<Rightarrow> qcow \<Rightarrow> 'h \<Rightarrow> u64 \<Rightarrow> (rfb_ptr \<times> qcow \<times> 'h) option" where
  "qcow_read_refcount_block H q h clust_idx =
     (let rft_idx = rft_index q clust_idx in
      if rft_idx \<ge> ucast (rf_size (qrefcount q)) then Some (Rfb_enospc, q, h)
      else if \<not> unat rft_idx < length (rf_table (qrefcount q)) then None
      else
        let offset = bswap64 (rf_table (qrefcount q) ! unat rft_idx) in
        if offset = 0 then Some (Rfb_enospc, q, h)
        else
          case refcount_block_search q offset of
            (Some _, q) \<Rightarrow> Some (Rfb offset, q, h)
          | (None, q) \<Rightarrow>
              (case new_refcount_block H q offset of
                 None \<Rightarrow> Some (Rfb_null, q, h)
               | Some rfb \<Rightarrow>
                   do {
                     (r, bs, h) \<leftarrow> pread_in_full (host_pread H) h (unat (rfb_size rfb * 2)) offset;
                     if r < 0 then Some (Rfb_null, q, h)
                     else do {
                       q \<leftarrow> cache_refcount_block q (rfb\<lparr> rfb_entries := words16 (overlay (bytes16 (rfb_entries rfb)) bs) \<rparr>);
                       Some (Rfb offset, q, h)
                     }
                   }))"

definition rfb_index :: "qcow \<Rightarrow> u64 \<Rightarrow> u64" where
  "rfb_index q clust_idx =
     clust_idx AND (push_bit (unat (cluster_bits (qheader q)) - QCOW_REFCOUNT_BLOCK_SHIFT) 1 - 1)"

definition cached_rfb :: "qcow \<Rightarrow> u64 \<Rightarrow> qcow_refcount_block option" where
  "cached_rfb q rfb = refcount_block_lookup (lru_root (rf_cache (qrefcount q))) rfb"

definition qcow_get_refcount :: "'h disk_host \<Rightarrow> qcow \<Rightarrow> 'h \<Rightarrow> u64 \<Rightarrow> (u16 \<times> qcow \<times> 'h) option" where
  "qcow_get_refcount H q h clust_idx =
     do {
       (p, q, h) \<leftarrow> qcow_read_refcount_block H q h clust_idx;
       (case p of
          Rfb_enospc \<Rightarrow> Some (0, q, h)
        | Rfb_null \<Rightarrow> Some (- 1, q, h)
        | Rfb p \<Rightarrow>
            do {
              rfb \<leftarrow> cached_rfb q p;
              let idx = rfb_index q clust_idx in
              if idx \<ge> rfb_size rfb then Some (- 1, q, h)
              else if \<not> unat idx < length (rfb_entries rfb) then None
              else Some (bswap16 (rfb_entries rfb ! unat idx), q, h)
            })
     }"

subsection \<open>Allocation\<close>

text \<open>
  \<^verbatim>\<open>alloc_scan\<close> is the loop that looks for \<open>clust_num\<close> consecutive clusters with refcount zero, with the \<^verbatim>\<open>goto again\<close>
  of the code. A refcount of \<^verbatim>\<open>0xffff\<close> ends it, as the error value does.
\<close>

partial_function (option) alloc_scan ::
    "'h disk_host \<Rightarrow> qcow \<Rightarrow> 'h \<Rightarrow> u64 \<Rightarrow> u32 \<Rightarrow> u32 \<Rightarrow> (u32 option \<times> qcow \<times> 'h) option" where
  "alloc_scan H q h clust_num clust_idx i =
     (if ucast i < clust_num
      then
        let clust_idx = ucast (free_clust_idx q);
            q = q\<lparr> free_clust_idx := free_clust_idx q + 1 \<rparr> in
        do {
          (n, q, h) \<leftarrow> qcow_get_refcount H q h (ucast clust_idx);
          if n = - 1 then Some (None, q, h)
          else if 0 < n then alloc_scan H q h clust_num clust_idx 0
          else alloc_scan H q h clust_num clust_idx (i + 1)
        }
      else Some (Some clust_idx, q, h))"

type_synonym 'h refcount_update = "qcow \<Rightarrow> 'h \<Rightarrow> u64 \<Rightarrow> u16 \<Rightarrow> (int \<times> qcow \<times> 'h) option"

fun update_clusters :: "'h refcount_update \<Rightarrow> qcow \<Rightarrow> 'h \<Rightarrow> u64 \<Rightarrow> nat \<Rightarrow> (int \<times> qcow \<times> 'h) option" where
  "update_clusters upd q h idx 0 = Some (0, q, h)"
| "update_clusters upd q h idx (Suc n) =
     do {
       (r, q, h) \<leftarrow> upd q h idx 1;
       if r \<noteq> 0 then Some (- 1, q, h) else update_clusters upd q h (idx + 1) n
     }"

definition alloc_clusters ::
    "'h refcount_update \<Rightarrow> 'h disk_host \<Rightarrow> qcow \<Rightarrow> 'h \<Rightarrow> u64 \<Rightarrow> bool \<Rightarrow> (u64 \<times> qcow \<times> 'h) option" where
  "alloc_clusters upd H q h sz update_ref =
     (let clust_num = drop_bit (unat (cluster_bits (qheader q))) (sz + (cluster_size q - 1)) in
      do {
        (found, q, h) \<leftarrow> alloc_scan H q h clust_num 0 0;
        (case found of
           None \<Rightarrow> Some (- 1, q, h)
         | Some clust_idx \<Rightarrow>
             let first = ucast (clust_idx + 1) - clust_num in
             do {
               (r, q, h) \<leftarrow> (if update_ref then update_clusters upd q h first (unat clust_num) else Some (0, q, h));
               Some (if r \<noteq> 0 then - 1 else push_bit (unat (cluster_bits (qheader q))) first, q, h)
             })
      })"

definition qcow_write_refcount_table :: "'h disk_host \<Rightarrow> qcow \<Rightarrow> 'h \<Rightarrow> (int \<times> 'h) option" where
  "qcow_write_refcount_table H q h =
     qcow_pwrite_sync H h (take (unat (rf_size (qrefcount q)) * 8) (bytes64 (rf_table (qrefcount q))))
       (refcount_table_offset (qheader q))"

definition set_rf_entry :: "u64 \<Rightarrow> u64 \<Rightarrow> qcow \<Rightarrow> qcow" where
  "set_rf_entry idx w q = q\<lparr> qrefcount := (qrefcount q)\<lparr> rf_table := (rf_table (qrefcount q))[unat idx := w] \<rparr> \<rparr>"

text \<open>
  Growing and updating call each other: \<open>upd\<close> is the update. After a failed update of a cached block the
  block is freed while the cache still holds it, which is \<open>None\<close>.
\<close>

definition qcow_grow_refcount_block ::
    "'h refcount_update \<Rightarrow> 'h disk_host \<Rightarrow> qcow \<Rightarrow> 'h \<Rightarrow> u64 \<Rightarrow> (u64 option \<times> qcow \<times> 'h) option" where
  "qcow_grow_refcount_block upd H q h clust_idx =
     (let rft_idx = rft_index q clust_idx in
      if rft_idx \<ge> ucast (rf_size (qrefcount q)) then Some (None, q, h)
      else do {
        (new, q, h) \<leftarrow> alloc_clusters upd H q h (cluster_size q) False;
        if new = - 1 then Some (None, q, h)
        else
          case new_refcount_block H q new of
            None \<Rightarrow> Some (None, q, h)
          | Some rfb \<Rightarrow>
              do {
                (r, rfb, h) \<leftarrow> write_refcount_block H h
                   (rfb\<lparr> rfb_entries := words16 (replicate (unat (cluster_size q)) 0), rfb_dirty := True \<rparr>);
                if r < 0 then Some (None, q, h)
                else do {
                  q \<leftarrow> cache_refcount_block q rfb;
                  let q = set_rf_entry rft_idx (bswap64 new) q in
                  do {
                    (r, q, h) \<leftarrow> upd q h (drop_bit (unat (cluster_bits (qheader q))) new) 1;
                    if r < 0 then None
                    else do {
                      (r, h) \<leftarrow> qcow_write_refcount_table H q h;
                      if r < 0 then None else Some (Some new, q, h)
                    }
                  }
                }
              }
      })"

text \<open>The recursion between the two ends after one growth per missing block; the argument counts them.\<close>

fun update_refcount :: "nat \<Rightarrow> 'h disk_host \<Rightarrow> 'h refcount_update" where
  "update_refcount 0 H q h clust_idx incr = None"
| "update_refcount (Suc n) H q h clust_idx incr =
     do {
       (p, q, h) \<leftarrow> qcow_read_refcount_block H q h clust_idx;
       (p, q, h) \<leftarrow> (case p of
          Rfb_enospc \<Rightarrow> qcow_grow_refcount_block (update_refcount n H) H q h clust_idx
        | Rfb_null \<Rightarrow> Some (None, q, h)
        | Rfb p \<Rightarrow> Some (Some p, q, h));
       (case p of
          None \<Rightarrow> Some (- 1, q, h)
        | Some p \<Rightarrow>
            do {
              rfb \<leftarrow> cached_rfb q p;
              let idx = rfb_index q clust_idx in
              if idx \<ge> rfb_size rfb then Some (- 1, q, h)
              else if \<not> unat idx < length (rfb_entries rfb) then None
              else
                let refcount = bswap16 (rfb_entries rfb ! unat idx) + incr;
                    rfb = rfb\<lparr> rfb_entries := (rfb_entries rfb)[unat idx := bswap16 refcount], rfb_dirty := True \<rparr> in
                do {
                  (r, rfb, h) \<leftarrow> write_refcount_block H h rfb;
                  let q = q\<lparr> qrefcount := (qrefcount q)\<lparr> rf_cache := (rf_cache (qrefcount q))\<lparr>
                            lru_root := node_update rfb_offset p (\<lambda>_. rfb) (lru_root (rf_cache (qrefcount q))) \<rparr> \<rparr> \<rparr> in
                  if r < 0 then Some (- 1, q, h)
                  else Some (0, if refcount = 0 \<and> clust_idx < free_clust_idx q then q\<lparr> free_clust_idx := clust_idx \<rparr> else q, h)
                }
            })
     }"

definition update_cluster_refcount :: "'h disk_host \<Rightarrow> 'h refcount_update" where
  "update_cluster_refcount H q = update_refcount (unat (rf_size (qrefcount q)) + 3) H q"

definition qcow_alloc_clusters ::
    "'h disk_host \<Rightarrow> qcow \<Rightarrow> 'h \<Rightarrow> u64 \<Rightarrow> bool \<Rightarrow> (u64 \<times> qcow \<times> 'h) option" where
  "qcow_alloc_clusters H = alloc_clusters (update_cluster_refcount H) H"

partial_function (option) free_clusters_loop ::
    "'h disk_host \<Rightarrow> qcow \<Rightarrow> 'h \<Rightarrow> u64 \<Rightarrow> u64 \<Rightarrow> (qcow \<times> 'h) option" where
  "free_clusters_loop H q h offset stop =
     (if offset \<le> stop
      then do {
        (r, q, h) \<leftarrow> update_cluster_refcount H q h (drop_bit (unat (cluster_bits (qheader q))) offset) (- 1);
        free_clusters_loop H q h (offset + cluster_size q) stop
      }
      else Some (q, h))"

definition qcow_free_clusters :: "'h disk_host \<Rightarrow> qcow \<Rightarrow> 'h \<Rightarrow> u64 \<Rightarrow> u64 \<Rightarrow> (qcow \<times> 'h) option" where
  "qcow_free_clusters H q h clust_start sz =
     free_clusters_loop H q h (clust_start AND NOT (cluster_size q - 1))
       ((clust_start + sz - 1) AND NOT (cluster_size q - 1))"

subsection \<open>Writing\<close>

definition qcow_write_l1_table :: "'h disk_host \<Rightarrow> qcow \<Rightarrow> 'h \<Rightarrow> (int \<times> 'h) option" where
  "qcow_write_l1_table H q h =
     do {
       (r, h) \<leftarrow> qcow_pwrite_sync H h (take (unat (table_size (qtable q)) * 8) (bytes64 (l1_table (qtable q))))
                  (l1_table_offset (qheader q));
       Some (if r < 0 then - 1 else 0, h)
     }"

definition free_cluster :: "'h disk_host \<Rightarrow> qcow \<Rightarrow> 'h \<Rightarrow> u64 \<Rightarrow> (int \<times> u64 \<times> u64 \<times> qcow \<times> 'h) option" where
  "free_cluster H q h start =
     do { (q, h) \<leftarrow> qcow_free_clusters H q h start (cluster_size q); Some (- 1, 0, 0, q, h) }"

text \<open>
  The result, the table and the index in it. The table found under an L1 entry without the copied flag
  is linked into the cache a second time, and a cached table is freed when the L1 table cannot be written;
  both corrupt the cache and are \<open>None\<close>.
\<close>

definition get_cluster_table ::
    "'h disk_host \<Rightarrow> qcow \<Rightarrow> 'h \<Rightarrow> u64 \<Rightarrow> (int \<times> u64 \<times> u64 \<times> qcow \<times> 'h) option" where
  "get_cluster_table H q h offset =
     (let l2t_size = int_shl1 (unat (l2_bits (qheader q)));
          l1t_idx = get_l1_index q offset;
          l2t_idx = get_l2_index q offset in
      if l1t_idx \<ge> ucast (table_size (qtable q)) \<or> l2t_idx \<ge> l2t_size then Some (- 1, 0, 0, q, h)
      else if \<not> unat l1t_idx < length (l1_table (qtable q)) then None
      else
        let l2t_offset = bswap64 (l1_table (qtable q) ! unat l1t_idx) in
        if l2t_offset AND QCOW2_OFLAG_COPIED \<noteq> 0
        then do {
          (l2t, q, h) \<leftarrow> qcow_read_l2_table H q h (l2t_offset AND NOT QCOW2_OFLAG_COPIED);
          Some (case l2t of None \<Rightarrow> (- 1, 0, 0, q, h) | Some l2t \<Rightarrow> (0, l2t, l2t_idx, q, h))
        }
        else do {
          (new, q, h) \<leftarrow> qcow_alloc_clusters H q h (l2t_size * 8) True;
          if new \<noteq> - 1 then Some (- 1, 0, 0, q, h)
          else
            case new_cache_table H q new of
              None \<Rightarrow> free_cluster H q h new
            | Some l2t \<Rightarrow>
                if l2t_offset \<noteq> 0
                then do {
                  (p, q, h) \<leftarrow> qcow_read_l2_table H q h l2t_offset;
                  (case p of None \<Rightarrow> free_cluster H q h new | Some p \<Rightarrow> None)
                }
                else do {
                  (r, l2t, h) \<leftarrow> qcow_l2_cache_write H q h (l2t\<lparr> l2_dirty := True \<rparr>);
                  if r < 0 then free_cluster H q h new
                  else do {
                    q \<leftarrow> cache_table q l2t;
                    let q = q\<lparr> qtable := (qtable q)\<lparr> l1_table :=
                              (l1_table (qtable q))[unat l1t_idx := bswap64 (new OR QCOW2_OFLAG_COPIED)] \<rparr> \<rparr> in
                    do {
                      (r, h) \<leftarrow> qcow_write_l1_table H q h;
                      if r \<noteq> 0 then None
                      else do {
                        (q, h) \<leftarrow> qcow_free_clusters H q h l2t_offset (cluster_size q);
                        Some (0, new, l2t_idx, q, h)
                      }
                    }
                  }
                }
        })"

definition set_l2_entry :: "u64 \<Rightarrow> (qcow_l2_table \<Rightarrow> qcow_l2_table) \<Rightarrow> qcow \<Rightarrow> qcow" where
  "set_l2_entry l2t f q =
     q\<lparr> qtable := (qtable q)\<lparr> l1_cache := (l1_cache (qtable q))\<lparr>
        lru_root := node_update l2_offset l2t f (lru_root (l1_cache (qtable q))) \<rparr> \<rparr> \<rparr>"

definition write_fail :: "'h disk_host \<Rightarrow> qcow \<Rightarrow> 'h \<Rightarrow> u64 \<Rightarrow> (int \<times> qcow \<times> 'h) option" where
  "write_fail H q h start = map_option (\<lambda>(q, h). (- 1, q, h)) (qcow_free_clusters H q h start (cluster_size q))"

text \<open>The part of \<^verbatim>\<open>qcow_write_cluster\<close> that copies the cluster to a new place.\<close>

definition write_copied ::
    "'h disk_host \<Rightarrow> qcow \<Rightarrow> 'h \<Rightarrow> u64 \<Rightarrow> u64 \<Rightarrow> u64 \<Rightarrow> u64 \<Rightarrow> u64 \<Rightarrow> u64 \<Rightarrow> u64 \<Rightarrow> u8 list \<Rightarrow> (int \<times> qcow \<times> 'h) option" where
  "write_copied H q h offset l2t l2t_idx clust_start clust_flags clust_off new bs =
     do {
       (r, old, q, h) \<leftarrow> (if clust_start \<noteq> 0
          then qcow2_read_cluster H q h (offset AND NOT (cluster_size q - 1)) (ucast (cluster_size q))
          else Some (0, replicate (unat (cluster_size q)) 0, q, h));
       if r < 0 then write_fail H q h new
       else if copy_buff q = [] then None
       else
         let buff = overlay (copy_buff q) old;
             buff = take (unat clust_off) buff @ overlay (drop (unat clust_off) buff) bs;
             q = q\<lparr> copy_buff := buff \<rparr> in
         do {
           (r, h) \<leftarrow> pwrite_in_full (host_pwrite H) h (take (unat (cluster_size q)) buff) new;
           if r < 0 then write_fail H q h new
           else do {
             t \<leftarrow> l2_table_lookup (lru_root (l1_cache (qtable q))) l2t;
             let t = t\<lparr> l2_table := (l2_table t)[unat l2t_idx := bswap64 (new OR QCOW2_OFLAG_COPIED)], l2_dirty := True \<rparr> in
             do {
               (r, t, h) \<leftarrow> qcow_l2_cache_write H q h t;
               let q = set_l2_entry l2t (\<lambda>_. t) q in
               if r \<noteq> 0 then write_fail H q h new
               else if clust_flags AND QCOW2_OFLAG_COMPRESSED \<noteq> 0
               then
                 let sz = ((ucast (drop_bit (nat (csize_shift q)) clust_start) AND csize_mask q) + 1) * 512 :: u32 in
                 map_option (\<lambda>(q, h). (int (length bs), q, h))
                   (qcow_free_clusters H q h (clust_start AND cluster_offset_mask q AND NOT 511) (scast sz))
               else if clust_start \<noteq> 0
               then map_option (\<lambda>(q, h). (int (length bs), q, h)) (qcow_free_clusters H q h clust_start (cluster_size q))
               else Some (int (length bs), q, h)
             }
           }
         }
     }"

definition qcow_write_cluster ::
    "'h disk_host \<Rightarrow> qcow \<Rightarrow> 'h \<Rightarrow> u64 \<Rightarrow> u8 list \<Rightarrow> (int \<times> qcow \<times> 'h) option" where
  "qcow_write_cluster H q h offset src =
     (let clust_off = get_cluster_offset q offset;
          bs = take (unat (cluster_size q - clust_off)) src in
      if clust_off \<ge> cluster_size q then Some (- 1, q, h)
      else do {
        (r, l2t, l2t_idx, q, h) \<leftarrow> get_cluster_table H q h offset;
        if r \<noteq> 0 then Some (- 1, q, h)
        else do {
          clust \<leftarrow> l2_entry q l2t l2t_idx;
          let clust_flags = clust AND QCOW2_OFLAGS_MASK; clust_start = clust AND QCOW2_OFFSET_MASK in
          if clust_flags AND QCOW2_OFLAG_COPIED = 0
          then do {
            (new, q, h) \<leftarrow> qcow_alloc_clusters H q h (cluster_size q) True;
            if new \<noteq> - 1 then Some (- 1, q, h)
            else write_copied H q h offset l2t l2t_idx clust_start clust_flags clust_off new bs
          }
          else do {
            (r, h) \<leftarrow> pwrite_in_full (host_pwrite H) h bs (clust_start + clust_off);
            Some (if r < 0 then - 1 else int (length bs), q, h)
          }
        }
      })"

partial_function (option) write_sector_loop ::
    "'h disk_host \<Rightarrow> qcow \<Rightarrow> 'h \<Rightarrow> u64 \<Rightarrow> u8 list \<Rightarrow> nat \<Rightarrow> (int \<times> qcow \<times> 'h) option" where
  "write_sector_loop H q h offset src nr_written =
     (if src \<noteq> []
      then
        if offset \<ge> hdr_size (qheader q) then Some (- 1, q, h)
        else do {
          (nr, q, h) \<leftarrow> qcow_write_cluster H q h offset src;
          if nr < 0 then Some (- 1, q, h)
          else write_sector_loop H q h (offset + of_int nr) (drop (nat nr) src) (nr_written + nat nr)
        }
      else Some (int nr_written, q, h))"

definition qcow_write_sector_single ::
    "'h disk_host \<Rightarrow> qcow \<Rightarrow> 'h \<Rightarrow> u64 \<Rightarrow> u8 list \<Rightarrow> (int \<times> qcow \<times> 'h) option" where
  "qcow_write_sector_single H q h sector src = write_sector_loop H q h (push_bit SECTOR_SHIFT sector) src 0"

fun qcow_write_sector ::
    "'h disk_host \<Rightarrow> qcow \<Rightarrow> 'h \<Rightarrow> mem \<Rightarrow> u64 \<Rightarrow> iovec list \<Rightarrow> int \<Rightarrow> (int \<times> qcow \<times> 'h) option" where
  "qcow_write_sector H q h m sector [] tot = Some (tot, q, h)"
| "qcow_write_sector H q h m sector (v # vs) tot =
     do {
       (nr, q, h) \<leftarrow> qcow_write_sector_single H q h sector (load m (iov_base v) (unat (ucast (iov_len v) :: u32)));
       if nr \<noteq> sint (iov_len v) then Some (- 1, q, h)
       else qcow_write_sector H q h m (sector + drop_bit SECTOR_SHIFT (iov_len v)) vs (tot + nr)
     }"

subsection \<open>Flush and close\<close>

fun flush_blocks :: "'h disk_host \<Rightarrow> qcow \<Rightarrow> 'h \<Rightarrow> u64 list \<Rightarrow> (int \<times> qcow \<times> 'h) option" where
  "flush_blocks H q h [] = Some (0, q, h)"
| "flush_blocks H q h (pos # ps) =
     do {
       c \<leftarrow> cached_rfb q pos;
       (r, c, h) \<leftarrow> write_refcount_block H h c;
       let q = q\<lparr> qrefcount := (qrefcount q)\<lparr> rf_cache := (rf_cache (qrefcount q))\<lparr>
                 lru_root := node_update rfb_offset pos (\<lambda>_. c) (lru_root (rf_cache (qrefcount q))) \<rparr> \<rparr> \<rparr> in
       if r < 0 then Some (- 1, q, h) else flush_blocks H q h ps
     }"

fun flush_tables :: "'h disk_host \<Rightarrow> qcow \<Rightarrow> 'h \<Rightarrow> u64 list \<Rightarrow> (int \<times> qcow \<times> 'h) option" where
  "flush_tables H q h [] = Some (0, q, h)"
| "flush_tables H q h (pos # ps) =
     do {
       c \<leftarrow> l2_table_lookup (lru_root (l1_cache (qtable q))) pos;
       (r, c, h) \<leftarrow> qcow_l2_cache_write H q h c;
       let q = set_l2_entry pos (\<lambda>_. c) q in
       if r < 0 then Some (- 1, q, h) else flush_tables H q h ps
     }"

text \<open>The test \<^verbatim>\<open>qcow_write_l1_table < 0\<close> compares the function itself: the L1 table is not written.\<close>

definition qcow_disk_flush :: "'h disk_host \<Rightarrow> qcow \<Rightarrow> 'h \<Rightarrow> (int \<times> qcow \<times> 'h) option" where
  "qcow_disk_flush H q h =
     do {
       (r, q, h) \<leftarrow> flush_blocks H q h (lru_list (rf_cache (qrefcount q)));
       if r < 0 then Some (- 1, q, h)
       else do {
         (r, q, h) \<leftarrow> flush_tables H q h (lru_list (l1_cache (qtable q)));
         if r < 0 then Some (- 1, q, h)
         else case host_fsync H h of (r, h) \<Rightarrow> Some (r, q, h)
       }
     }"

definition qcow_disk_close :: "qcow \<Rightarrow> int option" where
  "qcow_disk_close q =
     do { rft \<leftarrow> refcount_table_free_cache (qrefcount q); l1t \<leftarrow> l1_table_free_cache (qtable q); Some 0 }"

subsection \<open>Opening\<close>

text \<open>The fields of the headers on disk, at the offsets that the C structures give them.\<close>

definition be32_at :: "u8 list \<Rightarrow> nat \<Rightarrow> u32" where
  "be32_at bs i = bswap32 (le_word (take 4 (drop i bs)))"

definition be64_at :: "u8 list \<Rightarrow> nat \<Rightarrow> u64" where
  "be64_at bs i = bswap64 (le_word (take 8 (drop i bs)))"

definition u8_at :: "u8 list \<Rightarrow> nat \<Rightarrow> u8" where
  "u8_at bs i = le_word (take 1 (drop i bs))"

definition SIZEOF_QCOW1_HEADER :: nat where "SIZEOF_QCOW1_HEADER = 48"
definition SIZEOF_QCOW2_HEADER :: nat where "SIZEOF_QCOW2_HEADER = 72"
definition SIZEOF_QCOW_HEADER :: u64 where "SIZEOF_QCOW_HEADER = 40"
definition SIZEOF_QCOW :: u64 where "SIZEOF_QCOW = 232"

definition read_disk_header :: "'h disk_host \<Rightarrow> 'h \<Rightarrow> nat \<Rightarrow> (u8 list option \<times> 'h) option" where
  "read_disk_header H h n =
     do {
       (r, bs, h) \<leftarrow> pread_in_full (host_pread H) h n 0;
       Some (if r < 0 then None else Some (overlay (garbage H n) bs), h)
     }"

definition qcow2_read_header :: "'h disk_host \<Rightarrow> 'h \<Rightarrow> (qcow_header option \<times> 'h) option" where
  "qcow2_read_header H h =
     (if \<not> host_malloc H SIZEOF_QCOW_HEADER then Some (None, h)
      else do {
        (f, h) \<leftarrow> read_disk_header H h SIZEOF_QCOW2_HEADER;
        Some (map_option (\<lambda>f.
          \<lparr> hdr_size = be64_at f 24, l1_table_offset = be64_at f 40, l1_size = be32_at f 36,
            cluster_bits = ucast (be32_at f 20), l2_bits = ucast (be32_at f 20 - 3),
            refcount_table_offset = be64_at f 48, refcount_table_size = be32_at f 56 \<rparr>) f, h)
      })"

definition qcow1_read_header :: "'h disk_host \<Rightarrow> 'h \<Rightarrow> (qcow_header option \<times> 'h) option" where
  "qcow1_read_header H h =
     (if \<not> host_malloc H SIZEOF_QCOW_HEADER then Some (None, h)
      else do {
        (f, h) \<leftarrow> read_disk_header H h SIZEOF_QCOW1_HEADER;
        (case f of
           None \<Rightarrow> Some (None, h)
         | Some f \<Rightarrow>
             let cb = u8_at f 32; lb = u8_at f 33;
                 span = scast (push_bit (unat lb) 1 * push_bit (unat cb) 1 :: u32) :: u64 in
             if span = 0 then None
             else Some (Some
               \<lparr> hdr_size = be64_at f 24, l1_table_offset = be64_at f 40, l1_size = ucast (be64_at f 24 div span),
                 cluster_bits = cb, l2_bits = lb, refcount_table_offset = 0, refcount_table_size = 0 \<rparr>, h))
      })"

definition qcow_read_l1_table :: "'h disk_host \<Rightarrow> qcow \<Rightarrow> 'h \<Rightarrow> (int \<times> qcow \<times> 'h) option" where
  "qcow_read_l1_table H q h =
     (let n = l1_size (qheader q);
          q = q\<lparr> qtable := (qtable q)\<lparr> table_size := n \<rparr> \<rparr> in
      if \<not> host_malloc H (ucast n * 8) then Some (- 1, q, h)
      else do {
        (r, bs, h) \<leftarrow> pread_in_full (host_pread H) h (8 * unat n) (l1_table_offset (qheader q));
        Some (r, q\<lparr> qtable := (qtable q)\<lparr> l1_table := words64 (overlay (replicate (8 * unat n) 0) bs) \<rparr> \<rparr>, h)
      })"

definition qcow_read_refcount_table :: "'h disk_host \<Rightarrow> qcow \<Rightarrow> 'h \<Rightarrow> (int \<times> qcow \<times> 'h) option" where
  "qcow_read_refcount_table H q h =
     (let n = ucast ((ucast (refcount_table_size (qheader q)) * cluster_size q) div 8) :: u32;
          q = q\<lparr> qrefcount := (qrefcount q)\<lparr> rf_size := n \<rparr> \<rparr> in
      if \<not> host_malloc H (ucast n * 8) then Some (- 1, q, h)
      else do {
        (r, bs, h) \<leftarrow> pread_in_full (host_pread H) h (8 * unat n) (refcount_table_offset (qheader q));
        Some (r, q\<lparr> qrefcount := (qrefcount q)\<lparr> rf_table := words64 (overlay (replicate (8 * unat n) 0) bs),
                     rf_cache := empty_lru \<rparr> \<rparr>, h)
      })"

definition new_qcow :: "qcow_header \<Rightarrow> qcow" where
  "new_qcow h =
     \<lparr> qheader = h, qtable = \<lparr> table_size = 0, l1_table = [], l1_cache = empty_lru \<rparr>,
       qrefcount = \<lparr> rf_size = 0, rf_table = [], rf_cache = empty_lru \<rparr>,
       csize_shift = 0, csize_mask = 0, qversion = 0, cluster_size = 0, cluster_offset_mask = 0,
       free_clust_idx = 0, cluster_data = [], copy_buff = [] \<rparr>"

definition make_disk :: "'h disk_host \<Rightarrow> 'h \<Rightarrow> int \<Rightarrow> qcow \<Rightarrow> bool \<Rightarrow> bool \<Rightarrow> qcow disk_image option" where
  "make_disk H h fd q readonly async =
     (case disk_image__new H h fd (hdr_size (qheader q)) (if readonly then qcow_disk_readonly_ops else qcow_disk_ops) DISK_IMAGE_REGULAR of
        Inl _ \<Rightarrow> None
      | Inr disk \<Rightarrow> Some (disk\<lparr> disk_async := async, disk_priv := Priv_qcow q \<rparr>))"

definition qcow2_probe :: "'h disk_host \<Rightarrow> 'h \<Rightarrow> int \<Rightarrow> bool \<Rightarrow> (qcow disk_image option \<times> 'h) option" where
  "qcow2_probe H h fd readonly =
     (if \<not> host_malloc H SIZEOF_QCOW then Some (None, h)
      else do {
        (hdr, h) \<leftarrow> qcow2_read_header H h;
        (case hdr of
           None \<Rightarrow> Some (None, h)
         | Some hdr \<Rightarrow>
             let cb = unat (cluster_bits hdr); sz = int_shl1 cb;
                 q = (new_qcow hdr)\<lparr> qversion := QCOW2_VERSION, csize_shift := 62 - (int cb - 8),
                       csize_mask := push_bit (cb - 8) 1 - 1,
                       cluster_offset_mask := push_bit (nat (62 - (int cb - 8))) 1 - 1, cluster_size := sz,
                       copy_buff := garbage H (unat sz), cluster_data := garbage H (unat sz) \<rparr> in
             if \<not> host_malloc H sz then Some (None, h)
             else do {
               (r, q, h) \<leftarrow> qcow_read_l1_table H q h;
               if r < 0 then Some (None, h)
               else do {
                 (r, q, h) \<leftarrow> qcow_read_refcount_table H q h;
                 Some (if r < 0 then None else make_disk H h fd q readonly False, h)
               }
             })
      })"

text \<open>An error pointer from \<^verbatim>\<open>disk_image__new\<close> passes the test for NULL here and is dereferenced.\<close>

definition qcow1_probe :: "'h disk_host \<Rightarrow> 'h \<Rightarrow> int \<Rightarrow> bool \<Rightarrow> (qcow disk_image option \<times> 'h) option" where
  "qcow1_probe H h fd readonly =
     (if \<not> host_malloc H SIZEOF_QCOW then Some (None, h)
      else do {
        (hdr, h) \<leftarrow> qcow1_read_header H h;
        (case hdr of
           None \<Rightarrow> Some (None, h)
         | Some hdr \<Rightarrow>
             let cb = unat (cluster_bits hdr); sz = int_shl1 cb;
                 q = (new_qcow hdr)\<lparr> qversion := QCOW1_VERSION, cluster_size := sz,
                       cluster_offset_mask := push_bit (63 - cb) 1 - 1, free_clust_idx := 0,
                       cluster_data := garbage H (unat sz) \<rparr> in
             if \<not> host_malloc H sz then Some (None, h)
             else do {
               (r, q, h) \<leftarrow> qcow_read_l1_table H q h;
               if r < 0 then Some (None, h)
               else map_option (\<lambda>disk. (Some disk, h)) (make_disk H h fd q readonly True)
             })
      })"

definition check_image :: "'h disk_host \<Rightarrow> 'h \<Rightarrow> nat \<Rightarrow> u32 \<Rightarrow> (bool \<times> 'h) option" where
  "check_image H h n version =
     do {
       (f, h) \<leftarrow> read_disk_header H h n;
       Some (case f of None \<Rightarrow> False | Some f \<Rightarrow> be32_at f 0 = QCOW_MAGIC \<and> be32_at f 4 = version, h)
     }"

definition qcow2_check_image :: "'h disk_host \<Rightarrow> 'h \<Rightarrow> (bool \<times> 'h) option" where
  "qcow2_check_image H h = check_image H h SIZEOF_QCOW2_HEADER QCOW2_VERSION"

definition qcow1_check_image :: "'h disk_host \<Rightarrow> 'h \<Rightarrow> (bool \<times> 'h) option" where
  "qcow1_check_image H h = check_image H h SIZEOF_QCOW1_HEADER QCOW1_VERSION"

definition qcow_probe :: "'h disk_host \<Rightarrow> 'h \<Rightarrow> int \<Rightarrow> bool \<Rightarrow> (qcow disk_image option \<times> 'h) option" where
  "qcow_probe H h fd readonly =
     do {
       (v1, h) \<leftarrow> qcow1_check_image H h;
       if v1 then qcow1_probe H h fd readonly
       else do {
         (v2, h) \<leftarrow> qcow2_check_image H h;
         if v2 then qcow2_probe H h fd readonly else Some (None, h)
       }
     }"

subsection \<open>The caches keep the most recently used nodes\<close>

lemma l2_find_by: "l2_table_lookup root k = Option.bind (rb_find_by (key_dir l2_offset k) root) rb_elem"
  by (auto simp: l2_table_lookup_def rb_find_by_def split: prod.splits rbt.splits)

lemma rfb_find_by: "refcount_block_lookup root k = Option.bind (rb_find_by (key_dir rfb_offset k) root) rb_elem"
  by (auto simp: refcount_block_lookup_def rb_find_by_def split: prod.splits rbt.splits)

interpretation l2c: node_cache l2_offset l2_table_lookup l2_table_insert l2_erase l2_cache_search l2_cache_add
  by unfold_locales
    (simp_all add: l2_find_by l2_table_insert_def rb_insert_by_def l2_erase_def l2_cache_search_def l2_cache_add_def
      split: prod.splits rbt.splits)

interpretation rfc: node_cache rfb_offset refcount_block_lookup refcount_block_insert rfb_erase rfb_cache_search rfb_cache_add
  by unfold_locales
    (simp_all add: rfb_find_by refcount_block_insert_def rb_insert_by_def rfb_erase_def rfb_cache_search_def rfb_cache_add_def
      split: prod.splits rbt.splits)

subsection \<open>Words and tables\<close>

lemma int_shl1_eq: "n < 31 \<Longrightarrow> int_shl1 n = 2 ^ n"
proof -
  assume n: "n < 31"
  then have lt: "(2 :: int) ^ n < 2 ^ 31" by (intro power_strict_increasing) auto
  have "uint (push_bit n 1 :: u32) = 2 ^ n"
    using unat_exp [of n, where 'a = 32] n by (simp add: push_bit_eq_mult uint_nat)
  then have "sint (push_bit n 1 :: u32) = 2 ^ n"
    using lt by (simp add: sint_uint signed_take_bit_eq_take_bit_shift take_bit_eq_mod)
  then show ?thesis unfolding int_shl1_def scast_eq by simp
qed

lemma unat_int_shl1: "n < 31 \<Longrightarrow> unat (int_shl1 n) = 2 ^ n"
  by (simp add: int_shl1_eq unat_exp)

lemma length_words64 [simp]: "length (words64 bs) = length bs div 8"
  by (simp add: words64_def)

lemma length_bytes64 [simp]: "length (bytes64 ws) = 8 * length ws"
  by (induction ws) (simp_all add: bytes64_def)

subsection \<open>The virtual disk\<close>

text \<open>
  What an image with the file contents \<open>D\<close> holds, as a function of the tables on disk alone: the cluster of
  an offset, \<open>None\<close> when its table, its data or its compressed form is not in the file. \<open>image_ok\<close> are the sizes
  the code can handle: clusters of 512 bytes to 1 GiB.
\<close>

definition l2_of :: "u8 list \<Rightarrow> qcow \<Rightarrow> u64 \<Rightarrow> u64 list" where
  "l2_of D q off =
     (let n = 8 * 2 ^ unat (l2_bits (qheader q)) in words64 (overlay (replicate n 0) (file_slice D off n)))"

definition cluster_bytes :: "'h disk_host \<Rightarrow> u8 list \<Rightarrow> qcow \<Rightarrow> u64 \<Rightarrow> u8 list option" where
  "cluster_bytes H D q offset =
     (let cs = unat (cluster_size q); n = 8 * 2 ^ unat (l2_bits (qheader q));
          l1_idx = unat (get_l1_index q offset);
          l2t = bswap64 (l1_table (qtable q) ! l1_idx) AND NOT QCOW2_OFLAG_COPIED;
          e = bswap64 (l2_of D q l2t ! unat (get_l2_index q offset)) in
      if l1_idx \<ge> length (l1_table (qtable q)) then None
      else if l2t = 0 then Some (replicate cs 0)
      else if file_slice D l2t n = [] then None
      else if e AND QCOW2_OFLAG_COMPRESSED \<noteq> 0
      then
        let coffset = ucast (e AND cluster_offset_mask q) :: u32;
            nb = (ucast (drop_bit (nat (csize_shift q)) e) AND csize_mask q) + 1;
            s = file_slice D (scast coffset AND NOT 511) (unat (nb * 512)) in
        if unat (nb * 512) < 512 \<or> cs < unat (nb * 512) \<or> length s \<noteq> unat (nb * 512) then None
        else qcow_decompress_buffer H cs (take (unat (nb * 512 - (coffset AND 511))) (drop (unat (coffset AND 511)) s))
      else
        let start = e AND QCOW2_OFFSET_MASK in
        if start = 0 then Some (replicate cs 0)
        else if unat start + cs \<le> length D then Some (file_slice D start cs) else None)"

definition image_ok :: "qcow \<Rightarrow> bool" where
  "image_ok q \<longleftrightarrow>
     9 \<le> unat (cluster_bits (qheader q)) \<and> unat (cluster_bits (qheader q)) < 31 \<and> unat (l2_bits (qheader q)) < 28 \<and>
     unat (l2_bits (qheader q)) + unat (cluster_bits (qheader q)) < 64 \<and>
     cluster_size q = int_shl1 (unat (cluster_bits (qheader q))) \<and> length (cluster_data q) = unat (cluster_size q) \<and>
     length (l1_table (qtable q)) = unat (table_size (qtable q)) \<and> qversion q = QCOW2_VERSION"

text \<open>The cached tables are those of the file.\<close>

definition coherent :: "u8 list \<Rightarrow> qcow \<Rightarrow> bool" where
  "coherent D q \<longleftrightarrow> image_ok q \<and> l2c.cache_inv (l1_cache (qtable q)) \<and>
     (\<forall>t \<in> set (inorder (lru_root (l1_cache (qtable q)))). l2_table t = l2_of D q (l2_offset t))"

definition same_image :: "qcow \<Rightarrow> qcow \<Rightarrow> bool" where
  "same_image q q' \<longleftrightarrow>
     qheader q' = qheader q \<and> table_size (qtable q') = table_size (qtable q) \<and> l1_table (qtable q') = l1_table (qtable q) \<and>
     csize_shift q' = csize_shift q \<and> csize_mask q' = csize_mask q \<and> qversion q' = qversion q \<and>
     cluster_size q' = cluster_size q \<and> cluster_offset_mask q' = cluster_offset_mask q"

definition good_disk :: "('h \<Rightarrow> u8 list) \<Rightarrow> ('h \<Rightarrow> nat) \<Rightarrow> 'h disk_host \<Rightarrow> bool" where
  "good_disk content delay H \<longleftrightarrow> good_pread content delay (host_pread H) \<and> (\<forall>n. host_malloc H n)"

lemma same_image_refl [simp]: "same_image q q"
  by (simp add: same_image_def)

lemma same_image_trans: "same_image a b \<Longrightarrow> same_image b c \<Longrightarrow> same_image a c"
  by (simp add: same_image_def)

lemma same_image_cluster: "same_image q q' \<Longrightarrow> cluster_bytes H D q' offset = cluster_bytes H D q offset"
  by (simp add: same_image_def cluster_bytes_def l2_of_def get_l1_index_def get_l2_index_def Let_def)

lemma same_image_l2 [simp]: "same_image q q' \<Longrightarrow> l2_of D q' off = l2_of D q off"
  by (simp add: same_image_def l2_of_def)

lemma image_ok_size: "image_ok q \<Longrightarrow> unat (cluster_size q) = 2 ^ unat (cluster_bits (qheader q))"
  by (simp add: image_ok_def unat_int_shl1)

lemma pread_ok:
  assumes "good_disk content delay H" "length (content h) < 2 ^ 63"
  shows "\<exists>h'. pread_in_full (host_pread H) h n offset =
      (let s = file_slice (content h) offset n in Some (if s = [] \<and> n \<noteq> 0 then - 1 else int (length s), s, h')) \<and>
      content h' = content h"
  using pread_in_full_loop_ok [of content delay "host_pread H" h n offset "[]"] assms
  by (simp add: pread_in_full_def good_disk_def)

lemma bytes64_zeros: "bytes64 (replicate k 0) = replicate (8 * k) 0"
proof -
  have "le_bytes 8 (0 :: u64) = replicate 8 0" by (rule nth_equalityI) simp_all
  then show ?thesis by (induction k) (simp_all add: bytes64_def replicate_add)
qed

lemma read_l2:
  assumes "good_disk content delay H" "length (content h) < 2 ^ 63" "coherent (content h) q"
    and "file_slice (content h) off (8 * 2 ^ unat (l2_bits (qheader q))) \<noteq> []"
  shows "\<exists>q' h' t. qcow_read_l2_table H q h off = Some (Some off, q', h') \<and> content h' = content h \<and>
     coherent (content h) q' \<and> same_image q q' \<and> cluster_data q' = cluster_data q \<and>
     l2_table_lookup (lru_root (l1_cache (qtable q'))) off = Some t \<and> l2_table t = l2_of (content h) q off"
proof -
  let ?n = "8 * 2 ^ unat (l2_bits (qheader q)) :: nat"
  have inv: "l2c.cache_inv (l1_cache (qtable q))" and ok: "image_ok q"
    and nodes: "\<And>t. t \<in> set (inorder (lru_root (l1_cache (qtable q)))) \<Longrightarrow> l2_table t = l2_of (content h) q (l2_offset t)"
    using assms(3) by (auto simp: coherent_def)
  obtain r c where s: "l2_cache_search (l1_cache (qtable q)) off = (r, c)" by fastforce
  note sr = l2c.search_refines [OF inv s] l2c.search_lookup [OF s]
  let ?q = "q\<lparr> qtable := (qtable q)\<lparr> l1_cache := c \<rparr> \<rparr>"
  have q1: "same_image q ?q" "image_ok ?q" using ok by (simp_all add: same_image_def image_ok_def)
  have co: "coherent (content h) ?q" using sr nodes q1 same_image_l2 [OF q1(1)] by (simp add: coherent_def)
  show ?thesis
  proof (cases r)
    case (Some t)
    then have l: "l2_table_lookup (lru_root (l1_cache (qtable ?q))) off = Some t" using sr by simp
    then have "t \<in> set (inorder (lru_root (l1_cache (qtable q))))" "l2_offset t = off"
      using inv sr l2c.lookup_iff [of "lru_root c" off t] by (auto simp: l2c.cache_inv_def)
    then show ?thesis using l Some s co q1 nodes by (auto simp: qcow_read_l2_table_def l2_table_search_def Let_def)
  next
    case None
    have sz: "unat (int_shl1 (unat (l2_bits (qheader q))) * 8) = ?n"
    proof -
      have l: "unat (l2_bits (qheader q)) < 28" using ok by (simp add: image_ok_def)
      have "(2 :: nat) ^ unat (l2_bits (qheader q)) < 2 ^ 28" using l by (intro power_strict_increasing) auto
      then show ?thesis using l by (simp add: unat_mult_lem [THEN iffD1] unat_int_shl1 unat_word_ariths)
    qed
    obtain h' where h': "pread_in_full (host_pread H) h ?n off =
        Some (int (length (file_slice (content h) off ?n)), file_slice (content h) off ?n, h')" "content h' = content h"
      using pread_ok [OF assms(1,2), of ?n off] assms(4) by (auto simp: Let_def)
    let ?t = "\<lparr> l2_offset = off, l2_dirty = False, l2_table = l2_of (content h) q off \<rparr>"
    have "l2_table_lookup (lru_root c) (l2_offset ?t) = None" using None sr by simp
    from l2c.add_refines [OF _ this] sr obtain c' where c': "l2_cache_add c ?t = Some c'" "l2c.cache_inv c'"
      "l2c.recency c' = spec_add ?t (l2c.recency c)" by blast
    let ?q' = "?q\<lparr> qtable := (qtable ?q)\<lparr> l1_cache := c' \<rparr> \<rparr>"
    have n: "unat (int_shl1 (unat (l2_bits (qheader q)))) = 2 ^ unat (l2_bits (qheader q))"
      using ok by (simp add: image_ok_def unat_int_shl1)
    have "qcow_read_l2_table H q h off = Some (Some off, ?q', h')"
      using s None h' c' assms(1) sz n
      by (simp add: qcow_read_l2_table_def l2_table_search_def new_cache_table_def cache_table_def good_disk_def Let_def l2_of_def bytes64_zeros)
    moreover have si: "same_image q ?q'" "image_ok ?q'" using ok by (simp_all add: same_image_def image_ok_def)
    moreover have tl: "set (tl xs) \<subseteq> set xs" for xs :: "qcow_l2_table list" by (cases xs) auto
    moreover have m: "set (l2c.recency c') \<subseteq> set (l2c.recency c) \<union> {?t}" "?t \<in> set (l2c.recency c')"
      unfolding c'(3) spec_add_def using tl [of "l2c.recency c"] by auto
    moreover have "coherent (content h) ?q'"
      using c'(2) si m nodes sr l2c.set_recency [OF c'(2)] l2c.set_recency [of c] same_image_l2 [OF si(1)]
      by (auto simp: coherent_def)
    moreover have "l2_table_lookup (lru_root c') off = Some ?t"
      using m(2) c'(2) l2c.lookup_iff [of "lru_root c'" off ?t] l2c.set_recency [OF c'(2)] by (auto simp: l2c.cache_inv_def)
    ultimately show ?thesis using h'(2) by auto
  qed
qed

lemma slice_sub:
  assumes "unat start + cs \<le> length D" "length D < 2 ^ 63" "unat co + len \<le> cs"
  shows "file_slice D (start + co) len = take len (drop (unat co) (file_slice D start cs))"
    "length (file_slice D (start + co) len) = len"
proof -
  have "unat (start + co) = unat start + unat co"
    using assms by (simp add: unat_word_ariths)
  then have e: "file_slice D (start + co) len = take len (drop (unat start + unat co) D)" by (simp add: file_slice_def)
  show "length (file_slice D (start + co) len) = len" unfolding e using assms by simp
  have "len \<le> cs - unat co" using assms by linarith
  then show "file_slice D (start + co) len = take len (drop (unat co) (file_slice D start cs))"
    unfolding e by (simp add: file_slice_def drop_take min_absorb1 add.commute)
qed

lemma overlay_part:
  assumes "length s = a + n"
  shows "take n (drop a (overlay old s)) = take n (drop a s)"
  using assms by (simp add: overlay_def)

lemma compressed_read:
  assumes "good_disk content delay H" "length (content h) < 2 ^ 63" "coherent (content h) q"
    and "length (file_slice (content h) coffset count) = count" "count \<noteq> 0" "count \<le> unat (cluster_size q)" "count = skip + csize"
    and "qcow_decompress_buffer H (unat (cluster_size q)) (take csize (drop skip (file_slice (content h) coffset count))) = Some out"
  shows "\<exists>q' h'. read_compressed H q h count coffset skip csize clust_offset len =
      Some (sint len, take (unat len) (drop (unat clust_offset) out), q', h') \<and> content h' = content h \<and>
      coherent (content h) q' \<and> same_image q q'"
proof -
  let ?s = "file_slice (content h) coffset count"
  let ?q = "q\<lparr> cluster_data := overlay (cluster_data q) ?s \<rparr>"
  have ne: "?s \<noteq> []" using assms(4,5) by auto
  obtain h' where "pread_in_full (host_pread H) h count coffset = Some (int (length ?s), ?s, h')" "content h' = content h"
    using pread_ok [OF assms(1,2), of count coffset] ne by (auto simp: Let_def)
  moreover have si: "same_image q ?q" by (simp add: same_image_def)
  moreover have "coherent (content h) ?q"
    using assms(3,4,6) same_image_l2 [OF si] by (simp add: coherent_def image_ok_def)
  moreover have "take csize (drop skip (overlay (cluster_data q) ?s)) = take csize (drop skip ?s)"
    using overlay_part assms(4,7) by simp
  ultimately show ?thesis using assms(6,8) by (auto simp: read_compressed_def Let_def)
qed

lemma sint_small:
  assumes "unat (w :: u64) < 2 ^ 63"
  shows "sint w = int (unat w)"
proof -
  have "int (unat w) < int (2 ^ 63)" using assms unfolding of_nat_less_iff .
  then have "uint w < 2 ^ 63" by simp
  then show ?thesis by (simp add: sint_uint signed_take_bit_eq_take_bit_shift take_bit_eq_mod)
qed

lemma extent_read:
  assumes "good_disk content delay H" "length (content h) < 2 ^ 63"
    and "unat start + cs \<le> length (content h)" "unat co + unat len \<le> cs"
  shows "\<exists>h'. read_extent H q h len (start + co) =
      Some (sint len, take (unat len) (drop (unat co) (file_slice (content h) start cs)), q, h') \<and> content h' = content h"
proof -
  note sl = slice_sub [OF assms(3,2,4)]
  obtain h' where h': "pread_in_full (host_pread H) h (unat len) (start + co) =
      Some (int (unat len), take (unat len) (drop (unat co) (file_slice (content h) start cs)), h')" "content h' = content h"
    using pread_ok [OF assms(1,2), of "unat len" "start + co"] sl by (auto simp: Let_def split: if_splits)
  then show ?thesis by (auto simp: read_extent_def)
qed

subsection \<open>Reading returns the virtual disk\<close>

lemma cluster_position:
  assumes "image_ok q"
  shows "unat (get_cluster_offset q offset) = unat offset mod unat (cluster_size q)"
    "get_cluster_offset q offset < cluster_size q"
    "unat (get_l2_index q offset) < 2 ^ unat (l2_bits (qheader q))"
proof -
  let ?c = "unat (cluster_bits (qheader q))" and ?l = "unat (l2_bits (qheader q))"
  have b: "?c < 31" "?l < 31" and cs: "cluster_size q = 2 ^ ?c" using assms by (simp_all add: image_ok_def int_shl1_eq)
  show o: "unat (get_cluster_offset q offset) = unat offset mod unat (cluster_size q)"
    using b by (simp add: get_cluster_offset_def int_shl1_eq and_mask_mod cs unat_exp)
  show "get_cluster_offset q offset < cluster_size q"
    unfolding word_less_nat_alt o using b by (simp add: cs unat_exp)
  have "unat (get_l2_index q offset) = unat (drop_bit ?c offset) mod 2 ^ ?l"
    using b by (simp add: get_l2_index_def int_shl1_eq and_mask_mod)
  then show "unat (get_l2_index q offset) < 2 ^ ?l" by simp
qed

lemma length_l2_of: "length (l2_of D q off) = 2 ^ unat (l2_bits (qheader q))"
  by (simp add: l2_of_def Let_def file_slice_def)

lemma cluster_bytes_length:
  assumes "cluster_bytes H D q offset = Some cb"
  shows "length cb = unat (cluster_size q)"
  using assms
  by (auto simp: cluster_bytes_def Let_def qcow_decompress_buffer_def file_slice_def split: if_splits prod.splits)

definition read_length :: "qcow \<Rightarrow> u64 \<Rightarrow> u32 \<Rightarrow> u64" where
  "read_length q offset dst_len = min (cluster_size q - get_cluster_offset q offset) (ucast dst_len)"

lemma read_length:
  assumes "image_ok q"
  shows "unat (read_length q offset dst_len) = min (unat (cluster_size q) - unat offset mod unat (cluster_size q)) (unat dst_len)"
    "sint (read_length q offset dst_len) = int (unat (read_length q offset dst_len))"
proof -
  note p = cluster_position [OF assms, of offset]
  have "unat (cluster_size q - get_cluster_offset q offset) = unat (cluster_size q) - unat offset mod unat (cluster_size q)"
    using p(1,2) by (simp add: unat_sub word_less_nat_alt word_le_nat_alt)
  then show u: "unat (read_length q offset dst_len) = min (unat (cluster_size q) - unat offset mod unat (cluster_size q)) (unat dst_len)"
    unfolding read_length_def by (simp add: min_def word_le_nat_alt unat_ucast_up)
  have "unat dst_len < 2 ^ 32" using unsigned_less [of dst_len, where 'a = nat] by simp
  then show "sint (read_length q offset dst_len) = int (unat (read_length q offset dst_len))"
    using u by (intro sint_small) simp
qed

lemma read_cluster:
  assumes "good_disk content delay H" "length (content h) < 2 ^ 63" "coherent (content h) q"
    and "cluster_bytes H (content h) q offset = Some cb"
  shows "\<exists>q' h'. qcow2_read_cluster H q h offset dst_len =
      Some (int (unat (read_length q offset dst_len)),
            take (unat (read_length q offset dst_len)) (drop (unat (get_cluster_offset q offset)) cb), q', h') \<and>
      content h' = content h \<and> coherent (content h) q' \<and> same_image q q'"
proof -
  let ?D = "content h" and ?len = "read_length q offset dst_len" and ?co = "get_cluster_offset q offset"
  let ?cs = "unat (cluster_size q)"
  have ok: "image_ok q" using assms(3) by (simp add: coherent_def)
  note p = cluster_position [OF ok, of offset]
  note rl = read_length [OF ok, of offset dst_len]
  have p2: "\<not> ?co \<ge> cluster_size q" using p(2) by simp
  have fit: "unat ?co + unat ?len \<le> ?cs" using p rl by (simp add: word_less_nat_alt)
  let ?i = "unat (get_l1_index q offset)"
  let ?l2t = "bswap64 (l1_table (qtable q) ! ?i) AND NOT QCOW2_OFLAG_COPIED"
  let ?e = "bswap64 (l2_of ?D q ?l2t ! unat (get_l2_index q offset))"
  note cb = assms(4) [unfolded cluster_bytes_def Let_def]
  have i: "?i < length (l1_table (qtable q))" using cb by (auto split: if_splits)
  then have i': "\<not> get_l1_index q offset \<ge> ucast (table_size (qtable q))"
    using ok by (simp add: image_ok_def word_le_nat_alt unat_ucast_up)
  have zero: "zero_cluster q' h' ?len = Some (int (unat ?len), take (unat ?len) (drop (unat ?co) (replicate ?cs 0)), q', h')" for q' h'
    using fit rl(2) by (simp add: zero_cluster_def min_absorb1)
  show ?thesis
  proof (cases "?l2t = 0")
    case True
    then have "cb = replicate ?cs 0" using cb i by simp
    moreover have "qcow2_read_cluster H q h offset dst_len = zero_cluster q h ?len"
      using True i i' p2 by (simp add: qcow2_read_cluster_def Let_def flip: read_length_def)
    ultimately show ?thesis unfolding zero using assms(3) by auto
  next
    case l2: False
    have sl: "file_slice ?D ?l2t (8 * 2 ^ unat (l2_bits (qheader q))) \<noteq> []" using cb i l2 by (auto split: if_splits)
    from read_l2 [OF assms(1-3) sl] obtain q1 h1 t where
      r: "qcow_read_l2_table H q h ?l2t = Some (Some ?l2t, q1, h1)" "content h1 = ?D" "coherent ?D q1" "same_image q q1"
        "cluster_data q1 = cluster_data q" "l2_table_lookup (lru_root (l1_cache (qtable q1))) ?l2t = Some t"
        "l2_table t = l2_of ?D q ?l2t" by blast
    have sm: "get_l2_index q1 offset = get_l2_index q offset" "qheader q1 = qheader q" "cluster_size q1 = cluster_size q"
      "cluster_offset_mask q1 = cluster_offset_mask q" "csize_shift q1 = csize_shift q" "csize_mask q1 = csize_mask q"
      using r(4) by (simp_all add: same_image_def get_l2_index_def)
    have idx: "\<not> get_l2_index q offset \<ge> int_shl1 (unat (l2_bits (qheader q)))"
      using p(3) ok by (simp add: word_le_nat_alt unat_int_shl1 image_ok_def)
    have ent: "l2_entry q1 ?l2t (get_l2_index q offset) = Some ?e"
      using r(6,7) p(3) by (simp add: l2_entry_def length_l2_of)
    define body where "body =
        (if ?e AND QCOW2_OFLAG_COMPRESSED \<noteq> 0
         then
           let coffset = ucast (?e AND cluster_offset_mask q) :: u32;
               nb_csectors = (ucast (drop_bit (nat (csize_shift q)) ?e) AND csize_mask q) + 1;
               sector_offset = coffset AND 511;
               csize = nb_csectors * 512 - sector_offset in
           read_compressed H q1 h1 (unat (nb_csectors * 512)) (scast coffset AND NOT 511) (unat sector_offset) (unat csize) ?co ?len
         else
           let clust_start = ?e AND QCOW2_OFFSET_MASK in
           if clust_start = 0 then zero_cluster q1 h1 ?len else read_extent H q1 h1 ?len (clust_start + ?co))"
    have eq: "qcow2_read_cluster H q h offset dst_len = body"
      using i i' p2 l2 r(1) sm idx ent
      by (simp add: qcow2_read_cluster_def Let_def body_def flip: read_length_def)
    have h1: "length (content h1) < 2 ^ 63" "coherent (content h1) q1" using assms(2) r(2,3) by simp_all
    show ?thesis
    proof (cases "?e AND QCOW2_OFLAG_COMPRESSED = 0")
      case True
      show ?thesis
      proof (cases "?e AND QCOW2_OFFSET_MASK = 0")
        case z: True
        then have "cb = replicate ?cs 0" using cb i l2 sl True by simp
        moreover have "qcow2_read_cluster H q h offset dst_len = zero_cluster q1 h1 ?len"
          using eq True z by (simp add: body_def)
        ultimately show ?thesis unfolding zero using r(2,3,4) by auto
      next
        case nz: False
        have c: "cb = file_slice ?D (?e AND QCOW2_OFFSET_MASK) ?cs" "unat (?e AND QCOW2_OFFSET_MASK) + ?cs \<le> length ?D"
          using cb i l2 sl True nz by (auto split: if_splits)
        from extent_read [OF assms(1) h1(1), of "?e AND QCOW2_OFFSET_MASK" ?cs ?co ?len q1] c(2) fit r(2)
        obtain h2 where "read_extent H q1 h1 ?len ((?e AND QCOW2_OFFSET_MASK) + ?co) =
            Some (sint ?len, take (unat ?len) (drop (unat ?co) cb), q1, h2)" "content h2 = ?D"
          by (auto simp: c(1))
        then show ?thesis using eq True nz r(3,4) rl(2) by (auto simp: body_def)
      qed
    next
      case comp: False
      define coff where "coff = (ucast (?e AND cluster_offset_mask q) :: u32)"
      define sec where "sec = coff AND 511"
      define nb where "nb = ((ucast (drop_bit (nat (csize_shift q)) ?e) AND csize_mask q) + 1 :: u32) * 512"
      let ?s = "file_slice ?D (scast coff AND NOT 511) (unat nb)"
      have c: "512 \<le> unat nb" "unat nb \<le> ?cs" "length ?s = unat nb"
        "qcow_decompress_buffer H ?cs (take (unat (nb - sec)) (drop (unat sec) ?s)) = Some cb"
        using cb i l2 sl comp unfolding coff_def [symmetric] sec_def [symmetric] nb_def [symmetric]
        by (auto simp: not_less split: if_splits)
      have so: "unat sec < 512"
        using and_mask_mod [of 9 coff] by (simp add: sec_def)
      then have "sec \<le> nb" using c(1) by (simp add: word_le_nat_alt)
      then have sum: "unat nb = unat sec + unat (nb - sec)"
        by (simp add: unat_sub word_le_nat_alt)
      have "length (file_slice (content h1) (scast coff AND NOT 511) (unat nb)) = unat nb" "unat nb \<noteq> 0" "unat nb \<le> unat (cluster_size q1)"
        "qcow_decompress_buffer H (unat (cluster_size q1))
           (take (unat (nb - sec)) (drop (unat sec) (file_slice (content h1) (scast coff AND NOT 511) (unat nb)))) = Some cb"
        using c r(2) sm(3) by simp_all
      from compressed_read [OF assms(1) h1 this(1-3) sum this(4), of ?co ?len] r(2)
      obtain q2 h2 where "read_compressed H q1 h1 (unat nb) (scast coff AND NOT 511) (unat sec) (unat (nb - sec)) ?co ?len =
            Some (sint ?len, take (unat ?len) (drop (unat ?co) cb), q2, h2)"
          "content h2 = ?D" "coherent ?D q2" "same_image q1 q2"
        by auto
      moreover have "body = read_compressed H q1 h1 (unat nb) (scast coff AND NOT 511) (unat sec) (unat (nb - sec)) ?co ?len"
        unfolding body_def Let_def coff_def [symmetric] sec_def [symmetric] nb_def [symmetric] using comp by simp
      ultimately show ?thesis using eq rl(2) same_image_trans [OF r(4)] by auto
    qed
  qed
qed

text \<open>The bytes of the virtual disk from an offset on, and that they are all there.\<close>

definition disk_bytes :: "'h disk_host \<Rightarrow> u8 list \<Rightarrow> qcow \<Rightarrow> nat \<Rightarrow> nat \<Rightarrow> u8 list" where
  "disk_bytes H D q off n =
     map (\<lambda>i. the (cluster_bytes H D q (of_nat i)) ! (i mod unat (cluster_size q))) [off..<off + n]"

definition readable :: "'h disk_host \<Rightarrow> u8 list \<Rightarrow> qcow \<Rightarrow> nat \<Rightarrow> nat \<Rightarrow> bool" where
  "readable H D q off n \<longleftrightarrow> off + n \<le> unat (hdr_size (qheader q)) \<and>
     (\<forall>i \<in> {off..<off + n}. cluster_bytes H D q (of_nat i) \<noteq> None)"

lemma same_cluster:
  assumes "image_ok q" "unat a div unat (cluster_size q) = unat b div unat (cluster_size q)"
  shows "cluster_bytes H D q a = cluster_bytes H D q b"
proof -
  let ?c = "unat (cluster_bits (qheader q))" and ?l = "unat (l2_bits (qheader q))"
  have d: "drop_bit ?c a = drop_bit ?c b"
    using assms(2) by (simp add: word_unat_eq_iff unat_drop_bit_div image_ok_size [OF assms(1)])
  then have "drop_bit ?l (drop_bit ?c a) = drop_bit ?l (drop_bit ?c b)" by simp
  then have "get_l1_index q a = get_l1_index q b" by (simp add: get_l1_index_def)
  moreover have "get_l2_index q a = get_l2_index q b" using d by (simp add: get_l2_index_def)
  ultimately show ?thesis by (simp add: cluster_bytes_def)
qed

lemma store_append: "store (store m a bs) (a + of_nat (length bs)) cs = store m a (bs @ cs)"
proof (induction bs arbitrary: m a)
  case (Cons b bs)
  have e: "a + of_nat (length (b # bs)) = (a + 1) + of_nat (length bs)" by simp
  show ?case unfolding e store.simps append_Cons Cons.IH ..
qed simp

lemma disk_bytes_append: "disk_bytes H D q off a @ disk_bytes H D q (off + a) b = disk_bytes H D q off (a + b)"
proof -
  have "[off..<off + a + b] = [off..<off + a] @ [off + a..<off + a + b]" by (rule upt_add_eq_append) simp
  then show ?thesis by (simp add: disk_bytes_def add.assoc)
qed

lemma mod_div_step:
  assumes "(a :: nat) mod c + i < c"
  shows "(a + i) mod c = a mod c + i" "(a + i) div c = a div c"
proof -
  show "(a + i) mod c = a mod c + i" using assms mod_add_left_eq [of a c i] by simp
  have "i div c = 0" "i mod c = i" "(a mod c + i) div c = 0" using assms by simp_all
  then show "(a + i) div c = a div c" using div_add1_eq [of a i c] by simp
qed

lemma disk_bytes_cluster:
  assumes "image_ok q" "cluster_bytes H D q (of_nat off) = Some cb" "off mod unat (cluster_size q) + n \<le> unat (cluster_size q)"
    and "off + n \<le> 2 ^ 64"
  shows "disk_bytes H D q off n = take n (drop (off mod unat (cluster_size q)) cb)"
proof (rule nth_equalityI)
  let ?cs = "unat (cluster_size q)"
  have l: "length cb = ?cs" using cluster_bytes_length [OF assms(2)] .
  show "length (disk_bytes H D q off n) = length (take n (drop (off mod ?cs) cb))"
    using assms(3) l by (simp add: disk_bytes_def)
  fix i assume "i < length (disk_bytes H D q off n)"
  then have i: "i < n" by (simp add: disk_bytes_def)
  have m: "(off + i) mod ?cs = off mod ?cs + i" "(off + i) div ?cs = off div ?cs"
    using mod_div_step [of off ?cs i] assms(3) i by auto
  have u: "unat (of_nat (off + i) :: u64) = off + i" "unat (of_nat off :: u64) = off"
    using assms(4) i by (intro unat_of_nat64; simp)+
  have "cluster_bytes H D q (of_nat (off + i)) = Some cb"
    using same_cluster [OF assms(1), of "of_nat (off + i)" "of_nat off" H D] m(2) assms(2) unfolding u by simp
  then show "disk_bytes H D q off n ! i = take n (drop (off mod ?cs) cb) ! i"
    using i m(1) assms(3) l by (simp add: disk_bytes_def)
qed

text \<open>One round of the loop reads to the end of the cluster or of the request.\<close>

lemma sector_step:
  assumes "good_disk content delay H" "length (content h) < 2 ^ 63" "coherent (content h) q"
    and "readable H (content h) q off n" "n = unat dst_len - unat nr_read" "n \<noteq> 0" "off = 512 * unat sector"
  defines "k \<equiv> min (unat (cluster_size q) - off mod unat (cluster_size q)) n"
  shows "\<exists>q' h'. read_sector_loop H q h m sector buf dst_len nr_read =
      read_sector_loop H q' h' (store m buf (disk_bytes H (content h) q off k)) (sector + of_nat (k div 512)) (buf + of_nat k)
        dst_len (nr_read + of_nat k) \<and>
      content h' = content h \<and> coherent (content h) q' \<and> same_image q q'"
proof -
  let ?D = "content h" and ?cs = "unat (cluster_size q)" and ?o = "push_bit SECTOR_SHIFT sector"
  have ok: "image_ok q" using assms(3) by (simp add: coherent_def)
  have lt: "nr_read < dst_len" using assms(5,6) by (simp add: word_less_nat_alt)
  have bound: "off + n \<le> unat (hdr_size (qheader q))" using assms(4) by (simp add: readable_def)
  have b64: "off + n < 2 ^ 64"
    using bound unsigned_less [of "hdr_size (qheader q)", where 'a = nat] by simp
  then have "512 * unat sector < 2 ^ 64" using assms(7) by simp
  then have o: "unat ?o = off"
    by (simp add: SECTOR_SHIFT_def push_bit_eq_mult unat_word_ariths mult.commute assms(7))
  then have o': "?o = of_nat off" using unat_of_nat64 [of off] b64 by (simp add: word_unat_eq_iff)
  have in_size: "\<not> ?o \<ge> hdr_size (qheader q)"
    unfolding word_le_nat_alt o using bound assms(6) by simp
  have "off \<in> {off..<off + n}" using assms(6) by simp
  then obtain cb where cb: "cluster_bytes H ?D q (of_nat off) = Some cb"
    using assms(4) unfolding readable_def by blast
  have d: "unat (dst_len - nr_read) = n" using lt assms(5) by (simp add: unat_sub word_less_nat_alt word_le_nat_alt)
  have len: "unat (read_length q ?o (dst_len - nr_read)) = k"
    using read_length(1) [OF ok, of ?o "dst_len - nr_read"] by (simp add: d o k_def)
  have co: "unat (get_cluster_offset q ?o) = off mod ?cs" using cluster_position(1) [OF ok, of ?o] by (simp add: o)
  have mod: "off mod ?cs < ?cs" using image_ok_size [OF ok] by simp
  then have k: "0 < k" "k \<le> n" "off mod ?cs + k \<le> ?cs" using assms(6) by (auto simp: k_def)
  have "n < 2 ^ 32" using assms(5) unsigned_less [of dst_len, where 'a = nat] by simp
  then have k32: "k < 2 ^ 32" using k(2) by simp
  let ?nr = "of_nat k :: u32"
  have nr: "unat ?nr = k" using k32 by (simp add: unat_of_nat)
  then have nz: "?nr \<noteq> 0" using k(1) by auto
  have uc: "(ucast ?nr :: u64) = of_nat k" "(ucast (drop_bit SECTOR_SHIFT ?nr) :: u64) = of_nat (k div 512)"
    using k32 nr by (simp_all add: word_unat_eq_iff unat_ucast_up unat_of_nat unat_drop_bit_div SECTOR_SHIFT_def)
  have bytes: "disk_bytes H ?D q off k = take k (drop (off mod ?cs) cb)"
    using disk_bytes_cluster [OF ok cb k(3)] b64 k(2) by simp
  from read_cluster [OF assms(1-3) cb [folded o'], of "dst_len - nr_read"] obtain q' h' where
    r: "qcow2_read_cluster H q h ?o (dst_len - nr_read) = Some (int k, disk_bytes H ?D q off k, q', h')"
      "content h' = ?D" "coherent ?D q'" "same_image q q'"
    unfolding len co bytes by blast
  have v: "qversion q \<noteq> QCOW1_VERSION" using ok by (simp add: image_ok_def QCOW1_VERSION_def QCOW2_VERSION_def)
  have "read_sector_loop H q h m sector buf dst_len nr_read =
      read_sector_loop H q' h' (store m buf (disk_bytes H ?D q off k)) (sector + of_nat (k div 512)) (buf + of_nat k)
        dst_len (nr_read + of_nat k)"
    using lt in_size v r(1) nz uc by (subst read_sector_loop.simps) (simp add: Let_def)
  then show ?thesis using r(2-) by blast
qed

lemma readable_rest: "readable H D q off n \<Longrightarrow> k \<le> n \<Longrightarrow> readable H D q (off + k) (n - k)"
  by (auto simp: readable_def)

lemma same_image_bytes:
  assumes "same_image q q'"
  shows "disk_bytes H D q' off n = disk_bytes H D q off n" "readable H D q' off n = readable H D q off n"
  using assms by (simp_all add: disk_bytes_def readable_def same_image_cluster [OF assms] same_image_def)

lemma read_sector_loop_ok:
  assumes "good_disk content delay H" "length (content h) < 2 ^ 63" "coherent (content h) q"
    and "readable H (content h) q off n" "n = unat dst_len - unat nr_read" "nr_read \<le> dst_len" "off = 512 * unat sector"
  shows "\<exists>q' h'. read_sector_loop H q h m sector buf dst_len nr_read =
      Some (uint dst_len, q', h', store m buf (disk_bytes H (content h) q off n)) \<and>
      content h' = content h \<and> coherent (content h) q' \<and> same_image q q'"
  using assms(2-)
proof (induction n arbitrary: q h m sector buf nr_read off rule: less_induct)
  case (less n)
  let ?D = "content h" and ?cs = "unat (cluster_size q)"
  have ok: "image_ok q" using less.prems(2) by (simp add: coherent_def)
  show ?case
  proof (cases "n = 0")
    case True
    then have "\<not> nr_read < dst_len" using less.prems(4) by (simp add: word_less_nat_alt)
    then show ?thesis using less.prems True
      by (subst read_sector_loop.simps) (auto simp: disk_bytes_def)
  next
    case False
    define k where "k = min (?cs - off mod ?cs) n"
    from sector_step [OF assms(1) less.prems(1-4) False less.prems(6), of m buf] obtain q1 h1 where
      s: "read_sector_loop H q h m sector buf dst_len nr_read =
          read_sector_loop H q1 h1 (store m buf (disk_bytes H ?D q off k)) (sector + of_nat (k div 512)) (buf + of_nat k)
            dst_len (nr_read + of_nat k)"
        "content h1 = ?D" "coherent ?D q1" "same_image q q1"
      unfolding k_def by blast
    have cs: "?cs = 2 ^ unat (cluster_bits (qheader q))" by (rule image_ok_size [OF ok])
    have "off mod ?cs < ?cs" by (simp add: cs)
    then have k: "0 < k" "k \<le> n" using False by (auto simp: k_def)
    have n32: "n < 2 ^ 32" using less.prems(4) unsigned_less [of dst_len, where 'a = nat] by simp
    have nr: "unat (nr_read + of_nat k) = unat nr_read + k"
      using k(2) less.prems(4,5) n32 unsigned_less [of dst_len, where 'a = nat]
      by (simp add: unat_word_ariths unat_of_nat word_le_nat_alt)
    have n': "n - k = unat dst_len - unat (nr_read + of_nat k)" "nr_read + of_nat k \<le> dst_len"
      using nr k(2) less.prems(4,5) by (simp_all add: word_le_nat_alt)
    show ?thesis
    proof (cases "k = n")
      case True
      then have "\<not> nr_read + of_nat k < dst_len" using nr less.prems(4,5) by (simp add: word_less_nat_alt word_le_nat_alt)
      then show ?thesis using s True by (subst s(1), subst read_sector_loop.simps) auto
    next
      case kn: False
      then have kc: "k = ?cs - off mod ?cs" by (auto simp: k_def min_def split: if_splits)
      have "512 dvd ?cs"
        using le_imp_power_dvd [of 9 "unat (cluster_bits (qheader q))" "2 :: nat"] ok unfolding cs by (simp add: image_ok_def)
      then have "512 dvd k" using less.prems(6) kc by (auto simp: dvd_mod_iff intro: dvd_diff_nat)
      then have kk: "512 * (k div 512) = k" by simp
      have "off + n < 2 ^ 64"
        using less.prems(3) unsigned_less [of "hdr_size (qheader q)", where 'a = nat] by (simp add: readable_def)
      then have "unat (sector + of_nat (k div 512)) = unat sector + k div 512"
        using less.prems(6) k(2) by (simp add: unat_word_ariths unat_of_nat)
      then have o: "off + k = 512 * unat (sector + of_nat (k div 512))" using less.prems(6) kk by simp
      have "n - k < n" using k kn by simp
      from less.IH [OF this, of h1 q1 "off + k" "nr_read + of_nat k" "sector + of_nat (k div 512)"
          "store m buf (disk_bytes H ?D q off k)" "buf + of_nat k"]
      obtain q2 h2 where "read_sector_loop H q1 h1 (store m buf (disk_bytes H ?D q off k)) (sector + of_nat (k div 512)) (buf + of_nat k)
            dst_len (nr_read + of_nat k) =
          Some (uint dst_len, q2, h2, store (store m buf (disk_bytes H ?D q off k)) (buf + of_nat k) (disk_bytes H ?D q (off + k) (n - k)))"
          "content h2 = ?D" "coherent ?D q2" "same_image q1 q2"
        using s n' o less.prems(1) readable_rest [OF less.prems(3) k(2)] by (auto simp: same_image_bytes [OF s(4)])
      moreover have "store (store m buf (disk_bytes H ?D q off k)) (buf + of_nat k) (disk_bytes H ?D q (off + k) (n - k)) =
          store m buf (disk_bytes H ?D q off n)"
        using store_append [of m buf "disk_bytes H ?D q off k"] disk_bytes_append [of H ?D q off k "n - k"] k(2)
        by (simp add: disk_bytes_def)
      ultimately show ?thesis using s(1) same_image_trans [OF s(4)] by auto
    qed
  qed
qed

lemma read_sectors_ok:
  assumes "good_disk content delay H" "length (content h) < 2 ^ 63" "coherent (content h) q"
    and "readable H (content h) q off (length (iov_addrs vs))" "off = 512 * unat sector"
    and "iov_small vs" "\<forall>v \<in> set (butlast vs). 512 dvd unat (iov_len v)"
  shows "\<exists>q' h'. qcow_read_sector H q h m sector vs tot =
      Some (tot + int (length (iov_addrs vs)), q', h',
            write_at m (iov_addrs vs) (disk_bytes H (content h) q off (length (iov_addrs vs)))) \<and>
      content h' = content h \<and> coherent (content h) q' \<and> same_image q q'"
  using assms(2-)
proof (induction vs arbitrary: q h m sector tot off)
  case Nil
  then show ?case by (auto simp: iov_addrs_def)
next
  case (Cons v vs)
  let ?D = "content h" and ?n = "unat (iov_len v)" and ?k = "length (iov_addrs vs)"
  have n32: "?n < 2 ^ 32" using Cons.prems(5) by (simp add: iov_small_def)
  have len: "length (iov_addrs (v # vs)) = ?n + ?k" by (simp add: iov_addrs_Cons)
  have uc: "unat (ucast (iov_len v) :: u32) = ?n" using n32 by (simp add: unsigned_ucast_eq take_bit_nat_eq_self)
  have d: "uint (ucast (iov_len v) :: u32) = int ?n" unfolding uc [symmetric] by simp
  have sn: "sint (iov_len v) = int ?n" using n32 by (intro sint_small) simp
  have r: "readable H ?D q off ?n" using Cons.prems(3) by (simp add: readable_def len)
  from read_sector_loop_ok [OF assms(1) Cons.prems(1,2) r _ _ Cons.prems(4), of "ucast (iov_len v)" 0 m "iov_base v"]
  obtain q1 h1 where s: "qcow_read_sector_single H q h m sector (iov_base v) (ucast (iov_len v)) =
        Some (int ?n, q1, h1, store m (iov_base v) (disk_bytes H ?D q off ?n))"
      "content h1 = ?D" "coherent ?D q1" "same_image q q1"
    unfolding qcow_read_sector_single_def d uc by auto
  have st: "store m (iov_base v) (disk_bytes H ?D q off ?n) =
      write_at m (seg_addrs (iov_base v) ?n) (disk_bytes H ?D q off ?n)"
    by (simp add: store_write_at disk_bytes_def)
  show ?case
  proof (cases vs)
    case Nil
    then show ?thesis using s sn st by (simp add: iov_addrs_def)
  next
    case (Cons w ws)
    then have dv: "512 dvd ?n" and rest: "\<forall>v \<in> set (butlast vs). 512 dvd unat (iov_len v)"
      using Cons.prems(6) by simp_all
    have "off + (?n + ?k) < 2 ^ 64"
      using Cons.prems(3) unsigned_less [of "hdr_size (qheader q)", where 'a = nat] by (simp add: readable_def len)
    then have "512 * (unat sector + ?n div 512) < 2 ^ 64" using Cons.prems(4) dv by (simp add: distrib_left)
    then have sec: "off + ?n = 512 * unat (sector + drop_bit SECTOR_SHIFT (iov_len v))"
      using Cons.prems(4) dv by (simp add: unat_word_ariths unat_drop_bit_div SECTOR_SHIFT_def)
    have r': "readable H ?D q1 (off + ?n) ?k"
      using readable_rest [OF Cons.prems(3), of ?n] by (simp add: len same_image_bytes [OF s(4)])
    have sm: "iov_small vs" using Cons.prems(5) by (simp add: iov_small_def)
    from Cons.IH [of h1 q1 "off + ?n" "sector + drop_bit SECTOR_SHIFT (iov_len v)", unfolded s(2), OF Cons.prems(1) s(3) r' sec sm rest]
    obtain q2 h2 where "qcow_read_sector H q1 h1 (store m (iov_base v) (disk_bytes H ?D q off ?n))
          (sector + drop_bit SECTOR_SHIFT (iov_len v)) vs (tot + int ?n) =
        Some (tot + int ?n + int ?k, q2, h2,
              write_at (store m (iov_base v) (disk_bytes H ?D q off ?n)) (iov_addrs vs) (disk_bytes H ?D q1 (off + ?n) ?k))"
      "content h2 = ?D" "coherent ?D q2" "same_image q1 q2" by blast
    moreover have "write_at m (iov_addrs (v # vs)) (disk_bytes H ?D q off (?n + ?k)) =
        write_at (store m (iov_base v) (disk_bytes H ?D q off ?n)) (iov_addrs vs) (disk_bytes H ?D q (off + ?n) ?k)"
      unfolding st disk_bytes_append [symmetric] iov_addrs_Cons by (rule write_at_append) (simp add: disk_bytes_def)
    ultimately show ?thesis
      using s(1) sn same_image_trans [OF s(4)] by (simp add: len same_image_bytes [OF s(4)])
  qed
qed


text \<open>An image with one raw cluster at byte 16 of the file, found through the L2 table at byte 8.\<close>

definition small_host :: "(u8 list \<times> nat) disk_host" where
  "small_host =
     \<lparr> host_pread = trickle_read, host_pwrite = trickle_write,
       host_preadv = (\<lambda>h vs off. (Inr (file_slice (fst h) off (length (iov_addrs vs))), h)),
       host_pwritev = (\<lambda>h bs off. (Inr (length bs), (file_splice (fst h) (unat off) bs, snd h))),
       host_fdatasync = (\<lambda>h. (0, h)), host_fsync = (\<lambda>h. (0, h)), host_malloc = (\<lambda>_. True), host_garbage = (\<lambda>_. 0),
       host_mmap = (\<lambda>h n. Inr (fst h)), host_inflateInit = Z_OK, host_inflate = (\<lambda>n bs. (Z_STREAM_END, bs)) \<rparr>"

definition small_file :: "u8 list" where
  "small_file = [0, 0, 0, 0, 0, 0, 0, 0, 0, 0, 0, 0, 0, 0, 0, 16] @ [1, 2, 3] @ replicate 509 4"

definition small_image :: qcow where
  "small_image = (new_qcow \<lparr> hdr_size = 512, l1_table_offset = 0, l1_size = 1, cluster_bits = 9, l2_bits = 6,
      refcount_table_offset = 0, refcount_table_size = 0 \<rparr>)
    \<lparr> qtable := \<lparr> table_size = 1, l1_table = [0x0800000000000000], l1_cache = empty_lru \<rparr>, qversion := QCOW2_VERSION,
      cluster_size := 512, cluster_data := replicate 512 0 \<rparr>"

lemma small_cluster:
  assumes "i < 512"
  shows "cluster_bytes small_host small_file small_image (of_nat i) = Some ([1, 2, 3] @ replicate 509 4)"
proof -
  have "drop_bit 9 (of_nat i :: u64) = 0" "drop_bit 15 (of_nat i :: u64) = 0"
    using assms by (simp_all add: word_unat_eq_iff unat_drop_bit_div unat_of_nat)
  then have i: "get_l1_index small_image (of_nat i) = 0" "get_l2_index small_image (of_nat i) = 0"
    by (simp_all add: get_l1_index_def get_l2_index_def small_image_def new_qcow_def)
  have b: "bswap64 0x0800000000000000 AND NOT QCOW2_OFLAG_COPIED = 8" "bswap64 0x1000000000000000 = 16"
    "16 AND QCOW2_OFLAG_COMPRESSED = 0" "16 AND QCOW2_OFFSET_MASK = 16" "le_word [0, 0, 0, 0, 0, 0, 0, 16] = (0x1000000000000000 :: u64)"
    by code_simp+
  have s: "file_slice small_file 8 512 = [0, 0, 0, 0, 0, 0, 0, 16] @ [1, 2, 3] @ replicate 501 4"
    by (simp add: file_slice_def small_file_def)
  have "l2_of small_file small_image 8 = words64 ([0, 0, 0, 0, 0, 0, 0, 16] @ [1, 2, 3] @ replicate 501 4)"
    by (simp add: l2_of_def small_image_def new_qcow_def s overlay_full)
  then have e: "l2_of small_file small_image 8 ! 0 = 0x1000000000000000" by (simp add: words64_def b(5))
  have d: "file_slice small_file 16 512 = [1, 2, 3] @ replicate 509 4" "length small_file = 528"
    by (simp_all add: file_slice_def small_file_def)
  have q: "l1_table (qtable small_image) = [0x0800000000000000]" "unat (cluster_size small_image) = 512"
    "8 * 2 ^ unat (l2_bits (qheader small_image)) = (512 :: nat)"
    by (simp_all add: small_image_def new_qcow_def)
  show ?thesis unfolding cluster_bytes_def i Let_def q using b e d s by simp
qed

lemma small_coherent: "coherent small_file small_image"
  using l2c.empty_cache(1)
  by (simp add: coherent_def image_ok_def small_image_def new_qcow_def int_shl1_def empty_lru_def scast_eq)


fun l2_cache_requests :: "qcow_l2_table list \<Rightarrow> qcow_l2_table lru \<Rightarrow> (qcow_l2_table option list \<times> qcow_l2_table lru) option" where
  "l2_cache_requests [] c = Some ([], c)"
| "l2_cache_requests (t # ts) c =
     (case l2_cache_search c (l2_offset t) of
        (Some r, c) \<Rightarrow> map_option (\<lambda>(rs, c). (Some r # rs, c)) (l2_cache_requests ts c)
      | (None, c) \<Rightarrow> do { c \<leftarrow> l2_cache_add c t; map_option (\<lambda>(rs, c). (None # rs, c)) (l2_cache_requests ts c) })"

fun spec_requests :: "qcow_l2_table list \<Rightarrow> qcow_l2_table list \<Rightarrow> qcow_l2_table option list \<times> qcow_l2_table list" where
  "spec_requests [] xs = ([], xs)"
| "spec_requests (t # ts) xs =
     (case spec_search l2_offset (l2_offset t) xs of
        (Some r, xs) \<Rightarrow> (let (rs, ys) = spec_requests ts xs in (Some r # rs, ys))
      | (None, xs) \<Rightarrow> (let (rs, ys) = spec_requests ts (spec_add t xs) in (None # rs, ys)))"

lemma l2_requests_refine:
  assumes "l2c.cache_inv c"
  shows "\<exists>c'. l2_cache_requests ts c = Some (fst (spec_requests ts (l2c.recency c)), c') \<and> l2c.cache_inv c' \<and>
    l2c.recency c' = snd (spec_requests ts (l2c.recency c))"
  using assms
proof (induction ts arbitrary: c)
  case (Cons t ts)
  obtain r c1 where s: "l2_cache_search c (l2_offset t) = (r, c1)" by fastforce
  note sr = l2c.search_refines [OF Cons.prems s] l2c.search_lookup [OF s]
  show ?case
  proof (cases r)
    case None
    then obtain c2 where a: "l2_cache_add c1 t = Some c2" "l2c.cache_inv c2" "l2c.recency c2 = spec_add t (l2c.recency c1)"
      using l2c.add_refines [of c1 t] sr by auto
    then show ?thesis using Cons.IH [of c2] s sr None by (auto split: prod.splits)
  next
    case (Some x)
    then show ?thesis using Cons.IH [of c1] s sr by (auto split: prod.splits)
  qed
qed simp

text \<open>
  C22: The cache of L2 tables is a least-recently-used cache of 32 tables. For every sequence of
  requests from the empty cache, the code's red-black tree with its list never corrupts, and it answers exactly
  as the obvious model does: a list of tables in order of last use, from which a hit moves the table to the end and a miss
  drops the first of 32 before the new one is appended.
\<close>

theorem l2_cache_lru:
  "\<exists>c. l2_cache_requests ts empty_lru = Some (fst (spec_requests ts []), c) \<and> l2c.cache_inv c \<and>
     l2c.recency c = snd (spec_requests ts [])"
  using l2_requests_refine [OF l2c.empty_cache(1), of ts] by (simp add: l2c.empty_cache(2))

subsection \<open>Opening an image\<close>

text \<open>
  An image that \<^verbatim>\<open>qcow2_probe\<close> opens is coherent with its file when the header names a cluster size the
  code can handle; the header itself is not checked.
\<close>

lemma pread_bound:
  assumes "good_disk content delay H" "length (content h) < 2 ^ 63"
    and "pread_in_full (host_pread H) h n offset = Some (r, bs, h')"
  shows "length bs \<le> n \<and> content h' = content h"
  using pread_ok [OF assms(1,2), of n offset] assms(3) by (auto simp: Let_def file_slice_def)

lemma read_header_content:
  assumes "good_disk content delay H" "length (content h) < 2 ^ 63" "qcow2_read_header H h = Some (hdr, h')"
  shows "content h' = content h"
  using assms(3) pread_bound [OF assms(1,2)]
  by (auto simp: qcow2_read_header_def read_disk_header_def split: if_splits bind_splits)

lemma read_l1_length:
  assumes "good_disk content delay H" "length (content h) < 2 ^ 63" "qcow_read_l1_table H q h = Some (r, q', h')" "0 \<le> r"
  shows "\<exists>t. length t = unat (l1_size (qheader q)) \<and>
    q' = q\<lparr> qtable := (qtable q)\<lparr> table_size := l1_size (qheader q), l1_table := t \<rparr> \<rparr>"
proof -
  from assms(3,4) obtain bs where
    "pread_in_full (host_pread H) h (8 * unat (l1_size (qheader q))) (l1_table_offset (qheader q)) = Some (r, bs, h')"
    and q': "q' = q\<lparr> qtable := (qtable q)\<lparr> table_size := l1_size (qheader q),
      l1_table := words64 (overlay (replicate (8 * unat (l1_size (qheader q))) 0) bs) \<rparr> \<rparr>"
    by (auto simp: qcow_read_l1_table_def Let_def split: if_splits bind_splits)
  then have "length bs \<le> 8 * unat (l1_size (qheader q))" using pread_bound [OF assms(1,2)] by blast
  then show ?thesis unfolding q' by (intro exI conjI, rule_tac [2] refl) simp
qed

lemma read_refcounts_frame:
  assumes "qcow_read_refcount_table H q h = Some (r, q', h')"
  shows "\<exists>t. q' = q\<lparr> qrefcount := t \<rparr>"
  using assms by (auto simp: qcow_read_refcount_table_def Let_def split: if_splits bind_splits)

lemma qcow2_probe_coherent:
  assumes "good_disk content delay H" "length (content h) < 2 ^ 63"
    and "qcow2_probe H h fd readonly = Some (Some disk, h')"
  shows "\<exists>q. disk_priv disk = Priv_qcow q \<and> disk_size disk = hdr_size (qheader q) \<and>
    (9 \<le> unat (cluster_bits (qheader q)) \<and> unat (cluster_bits (qheader q)) < 31 \<and>
     unat (l2_bits (qheader q)) < 28 \<longrightarrow> coherent D q)"
proof -
  define init where "init hdr =
    (new_qcow hdr)\<lparr> qversion := QCOW2_VERSION, csize_shift := 62 - (int (unat (cluster_bits hdr)) - 8),
       csize_mask := push_bit (unat (cluster_bits hdr) - 8) 1 - 1,
       cluster_offset_mask := push_bit (nat (62 - (int (unat (cluster_bits hdr)) - 8))) 1 - 1,
       cluster_size := int_shl1 (unat (cluster_bits hdr)), copy_buff := garbage H (unat (int_shl1 (unat (cluster_bits hdr)))),
       cluster_data := garbage H (unat (int_shl1 (unat (cluster_bits hdr)))) \<rparr>" for hdr
  note init = init_def [symmetric]
  from assms(3) obtain hdr h1 r1 q1 h2 r2 q2 where
    hdr: "qcow2_read_header H h = Some (Some hdr, h1)"
    and l1: "qcow_read_l1_table H (init hdr) h1 = Some (r1, q1, h2)" "0 \<le> r1"
    and rf: "qcow_read_refcount_table H q1 h2 = Some (r2, q2, h')"
    and d: "make_disk H h' fd q2 readonly False = Some disk"
    unfolding qcow2_probe_def Let_def init
    by (auto split: if_splits option.splits bind_splits prod.splits)
  have q0: "qheader (init hdr) = hdr" "qversion (init hdr) = QCOW2_VERSION"
      "cluster_size (init hdr) = int_shl1 (unat (cluster_bits hdr))"
      "length (cluster_data (init hdr)) = unat (cluster_size (init hdr))" "l1_cache (qtable (init hdr)) = empty_lru"
    by (simp_all add: init_def new_qcow_def garbage_def)
  have "length (content h1) < 2 ^ 63" using read_header_content [OF assms(1,2) hdr] assms(2) by simp
  from read_l1_length [OF assms(1) this l1] read_refcounts_frame [OF rf] q0 have
    "length (l1_table (qtable q2)) = unat (table_size (qtable q2))" "qheader q2 = hdr" "qversion q2 = QCOW2_VERSION"
    "cluster_size q2 = int_shl1 (unat (cluster_bits hdr))" "length (cluster_data q2) = unat (cluster_size q2)"
    "l1_cache (qtable q2) = empty_lru"
    by auto
  then have "9 \<le> unat (cluster_bits hdr) \<and> unat (cluster_bits hdr) < 31 \<and> unat (l2_bits hdr) < 28 \<longrightarrow> coherent D q2"
    "qheader q2 = hdr"
    using l2c.empty_cache(1) by (simp_all add: coherent_def image_ok_def) (simp add: empty_lru_def)
  moreover have "disk_priv disk = Priv_qcow q2" "disk_size disk = hdr_size (qheader q2)"
    using d by (auto simp: make_disk_def disk_image__new_def split: if_splits)
  ultimately show ?thesis by auto
qed

text \<open>
  The test of the allocation is inverted: a cluster that was allocated is an error, so only clusters
  and tables with the copied flag can be written.
\<close>

lemma write_allocated_fails:
  assumes "get_cluster_offset q offset < cluster_size q"
    and "get_cluster_table H q h offset = Some (0, l2t, i, q1, h1)" "l2_entry q1 l2t i = Some e"
    and "(e AND QCOW2_OFLAGS_MASK) AND QCOW2_OFLAG_COPIED = 0"
    and "qcow_alloc_clusters H q1 h1 (cluster_size q1) True = Some (new, q2, h2)" "new \<noteq> - 1"
  shows "qcow_write_cluster H q h offset src = Some (- 1, q2, h2)"
  using assms(2-) assms(1) [unfolded not_le [symmetric]] by (simp add: qcow_write_cluster_def Let_def)

end
