(* ===== verification/Disk.thy ===== *)
theory Disk
  imports Qcow
begin

section \<open>Disk images (hw/disk/core.c, hw/disk/raw.c, hw/disk/blk.c)\<close>

text \<open>
  The options of a disk, the probing of an image file, and the operations that the block device calls, dispatched to
  the format of the image. \<open>disk_sys\<close> are the calls that open and inspect files; \<open>sys_files fd\<close> are those on the
  open file \<open>fd\<close>. A private mapping is the list of its bytes; an access past its end is \<open>None\<close>, as is a
  negative count of vector elements. The callback that ends a request is a result of the operation: \<open>Some len\<close>
  when the code calls it.
\<close>

subsection \<open>Options\<close>

definition MAX_DISK_IMAGES :: nat where "MAX_DISK_IMAGES = 4"

record disk_image_params =
  par_filename :: "string option"
  par_wwpn :: "string option"
  par_tpgt :: "string option"
  par_readonly :: bool
  par_direct :: bool

record disk_config =
  cfg_disk_image :: "nat \<Rightarrow> disk_image_params"
  image_count :: u8

definition COMMA :: char where "COMMA = CHR '',''"
definition COLON :: char where "COLON = CHR '':''"

text \<open>The loop over the commas: each one ends the string before it and starts an option.\<close>

fun parse_options :: "disk_image_params \<Rightarrow> string \<Rightarrow> disk_image_params" where
  "parse_options p [] = p"
| "parse_options p (c # cs) =
     parse_options
       (if c \<noteq> COMMA then p
        else if take 2 cs = ''ro'' then p\<lparr> par_readonly := True \<rparr>
        else if take 6 cs = ''direct'' then p\<lparr> par_direct := True \<rparr>
        else p) cs"

definition disk_img_name_parser :: "string \<Rightarrow> disk_config \<Rightarrow> disk_config outcome option" where
  "disk_img_name_parser arg cfg =
     (let i = unat (image_count cfg);
          p = cfg_disk_image cfg i;
          finish = (\<lambda>p. Some (Returned
             (cfg\<lparr> cfg_disk_image := (cfg_disk_image cfg)(i := p), image_count := image_count cfg + 1 \<rparr>))) in
      if i \<ge> MAX_DISK_IMAGES then Some Died
      else if take 5 arg = ''scsi:''
      then
        let w = takeWhile (\<lambda>c. c \<noteq> COLON) (drop 5 arg) in
        (case drop (length w) (drop 5 arg) of
           [] \<Rightarrow> None
         | _ # cur \<Rightarrow>
             finish (parse_options
               (p\<lparr> par_filename := Some (''scsi:'' @ w), par_wwpn := Some w,
                   par_tpgt := Some (takeWhile (\<lambda>c. c \<noteq> COMMA) cur) \<rparr>) cur))
      else finish (parse_options (p\<lparr> par_filename := Some (takeWhile (\<lambda>c. c \<noteq> COMMA) arg) \<rparr>) arg))"

subsection \<open>Opening an image\<close>

record file_stat =
  st_blk :: bool
  st_size :: u64
  st_dev :: u64
  st_rdev :: u64
  st_ino :: u64

record open_flags =
  o_rdonly :: bool
  o_direct :: bool

record 'h disk_sys =
  sys_stat :: "'h \<Rightarrow> string \<Rightarrow> int + file_stat"
  sys_fstat :: "'h \<Rightarrow> int \<Rightarrow> int + file_stat"
  sys_open :: "'h \<Rightarrow> string \<Rightarrow> open_flags \<Rightarrow> int \<times> 'h"
  sys_close :: "'h \<Rightarrow> int \<Rightarrow> 'h"
  sys_munmap :: "'h \<Rightarrow> int"
  sys_blksize :: "'h \<Rightarrow> int \<Rightarrow> int + u64"
  sys_mounts :: "'h \<Rightarrow> string list option"
  sys_files :: "int \<Rightarrow> 'h disk_host"

type_synonym disk_ptr = "int + qcow disk_image"

definition is_mounted :: "'h disk_sys \<Rightarrow> 'h \<Rightarrow> file_stat \<Rightarrow> bool" where
  "is_mounted S h st =
     (case sys_mounts S h of
        None \<Rightarrow> False
      | Some names \<Rightarrow>
          list_ex (\<lambda>fsname. case sys_stat S h fsname of
             Inl _ \<Rightarrow> False | Inr b \<Rightarrow> st_blk b \<and> st_rdev st = st_rdev b) names)"

definition blkdev__probe :: "'h disk_sys \<Rightarrow> 'h \<Rightarrow> string \<Rightarrow> open_flags \<Rightarrow> file_stat \<Rightarrow> disk_ptr \<times> 'h" where
  "blkdev__probe S h filename flags st =
     (if \<not> st_blk st then (Inl (- EINVAL), h)
      else if is_mounted S h st then (Inl (- EINVAL), h)
      else case sys_open S h filename flags of (fd, h) \<Rightarrow>
        if fd < 0 then (Inl fd, h)
        else case sys_blksize S h fd of
            Inl errno \<Rightarrow> (Inl (- errno), sys_close S h fd)
          | Inr sz \<Rightarrow> (disk_image__new (sys_files S fd) h fd sz blk_dev_ops DISK_IMAGE_REGULAR, h))"

definition raw_image__probe :: "'h disk_sys \<Rightarrow> 'h \<Rightarrow> int \<Rightarrow> file_stat \<Rightarrow> bool \<Rightarrow> disk_ptr" where
  "raw_image__probe S h fd st readonly =
     (if readonly
      then case disk_image__new (sys_files S fd) h fd (st_size st) ro_ops DISK_IMAGE_MMAP of
          Inr disk \<Rightarrow> Inr disk
        | Inl _ \<Rightarrow> disk_image__new (sys_files S fd) h fd (st_size st) ro_ops_nowrite DISK_IMAGE_REGULAR
      else disk_image__new (sys_files S fd) h fd (st_size st) raw_image_regular_ops DISK_IMAGE_REGULAR)"

definition disk_image__open ::
    "'h disk_sys \<Rightarrow> 'h \<Rightarrow> string \<Rightarrow> bool \<Rightarrow> bool \<Rightarrow> (disk_ptr \<times> 'h) option" where
  "disk_image__open S h filename readonly direct =
     (let flags = \<lparr> o_rdonly = readonly, o_direct = direct \<rparr> in
      case sys_stat S h filename of
        Inl errno \<Rightarrow> Some (Inl (- errno), h)
      | Inr st \<Rightarrow>
          (case blkdev__probe S h filename flags st of
             (Inr disk, h) \<Rightarrow> Some (Inr disk, h)
           | (Inl _, h) \<Rightarrow>
               (case sys_open S h filename flags of (fd, h) \<Rightarrow>
                  if fd < 0 then Some (Inl fd, h)
                  else do {
                    (disk, h) \<leftarrow> qcow_probe (sys_files S fd) h fd True;
                    (case disk of
                       Some disk \<Rightarrow> Some (Inr disk, h)
                     | None \<Rightarrow>
                         Some (case raw_image__probe S h fd st readonly of
                             Inr disk \<Rightarrow> (Inr disk, h)
                           | Inl _ \<Rightarrow> (Inl (- ENOSYS), sys_close S h fd)))
                  })))"

subsection \<open>Closing\<close>

text \<open>
  In this build the field \<open>evt\<close> is never set, so \<^verbatim>\<open>raw_image__close\<close> closes descriptor 0. A slot of the table of disks is
  empty, a disk, or the block that \<^verbatim>\<open>malloc\<close> returned for a SCSI target, of which only the two names are set:
  closing it follows the operations pointer of uninitialised memory.
\<close>

datatype disk_slot = No_disk | Scsi_disk string "string option" | Opened "qcow disk_image"

definition raw_image__close :: "'h disk_sys \<Rightarrow> 'h \<Rightarrow> qcow disk_image \<Rightarrow> int \<times> 'h" where
  "raw_image__close S h disk = (sys_munmap S h, sys_close S h 0)"

fun disk_image__close :: "'h disk_sys \<Rightarrow> 'h \<Rightarrow> disk_slot \<Rightarrow> (int \<times> 'h) option" where
  "disk_image__close S h No_disk = Some (0, h)"
| "disk_image__close S h (Scsi_disk wwpn tpgt) = None"
| "disk_image__close S h (Opened disk) =
     (case disk_ops disk of
        ro_ops \<Rightarrow> Some (raw_image__close S h disk)
      | qcow_disk_readonly_ops \<Rightarrow>
          (case disk_priv disk of Priv_qcow q \<Rightarrow> map_option (\<lambda>r. (r, h)) (qcow_disk_close q) | _ \<Rightarrow> None)
      | qcow_disk_ops \<Rightarrow>
          (case disk_priv disk of Priv_qcow q \<Rightarrow> map_option (\<lambda>r. (r, h)) (qcow_disk_close q) | _ \<Rightarrow> None)
      | _ \<Rightarrow> Some (0, sys_close S h (disk_fd disk)))"

fun close_disks :: "'h disk_sys \<Rightarrow> 'h \<Rightarrow> disk_slot list \<Rightarrow> 'h option" where
  "close_disks S h [] = Some h"
| "close_disks S h (d # ds) = do { (_, h) \<leftarrow> disk_image__close S h d; close_disks S h ds }"

definition disk_image__close_all :: "'h disk_sys \<Rightarrow> 'h \<Rightarrow> disk_slot list \<Rightarrow> (int \<times> 'h) option" where
  "disk_image__close_all S h disks = map_option (Pair 0) (close_disks S h (rev disks))"

subsection \<open>All images\<close>

text \<open>\<open>malloc\<close> tells whether the allocations of the table and of a SCSI target succeed.\<close>

datatype open_result = Opened_all "disk_slot list" | Open_error int "disk_slot list" | Open_nomem

fun open_loop ::
    "'h disk_sys \<Rightarrow> bool \<Rightarrow> int \<Rightarrow> disk_image_params list \<Rightarrow> 'h \<Rightarrow> disk_slot list \<Rightarrow> (open_result \<times> 'h) option" where
  "open_loop S malloc iodelay [] h done' = Some (Opened_all done', h)"
| "open_loop S malloc iodelay (p # ps) h done' =
     (case par_wwpn p of
        Some wwpn \<Rightarrow>
          if \<not> malloc then Some (Open_nomem, h)
          else open_loop S malloc iodelay ps h (done' @ [Scsi_disk wwpn (par_tpgt p)])
      | None \<Rightarrow>
          (case par_filename p of
             None \<Rightarrow> open_loop S malloc iodelay ps h (done' @ [No_disk])
           | Some filename \<Rightarrow> do {
               (r, h) \<leftarrow> disk_image__open S h filename (par_readonly p) (par_direct p);
               (case r of
                  Inl err \<Rightarrow> Some (Open_error err done', h)
                | Inr disk \<Rightarrow> open_loop S malloc iodelay ps h (done' @ [Opened (disk\<lparr> disk_iodelay := iodelay \<rparr>)]))
             }))"

definition disk_image__open_all ::
    "'h disk_sys \<Rightarrow> bool \<Rightarrow> int \<Rightarrow> 'h \<Rightarrow> disk_config \<Rightarrow> ((int + disk_slot list) \<times> 'h) option" where
  "disk_image__open_all S malloc iodelay h cfg =
     (let count = unat (image_count cfg) in
      if count = 0 then Some (Inl (- EINVAL), h)
      else if count > MAX_DISK_IMAGES then Some (Inl (- ENOSPC), h)
      else if \<not> malloc then Some (Inl (- ENOMEM), h)
      else do {
        (r, h) \<leftarrow> open_loop S malloc iodelay (map (cfg_disk_image cfg) [0..<count]) h [];
        (case r of
           Opened_all disks \<Rightarrow> Some (Inr disks, h)
         | Open_nomem \<Rightarrow> Some (Inl (- ENOMEM), h)
         | Open_error err disks \<Rightarrow> map_option (Pair (Inl err)) (close_disks S h disks))
      })"

definition disk_image__init ::
    "'h disk_sys \<Rightarrow> bool \<Rightarrow> int \<Rightarrow> 'h \<Rightarrow> disk_config \<Rightarrow> (int \<times> disk_slot list \<times> 'h) option" where
  "disk_image__init S malloc iodelay h cfg =
     (if image_count cfg = 0 then Some (0, [], h)
      else map_option (\<lambda>(r, h). case r of Inl err \<Rightarrow> (err, [], h) | Inr disks \<Rightarrow> (0, disks, h))
             (disk_image__open_all S malloc iodelay h cfg))"

definition disk_image__exit :: "'h disk_sys \<Rightarrow> 'h \<Rightarrow> disk_slot list \<Rightarrow> (int \<times> 'h) option" where
  "disk_image__exit = disk_image__close_all"

subsection \<open>Requests\<close>

type_synonym 'h disk_transfer = "(int \<times> qcow disk_image \<times> 'h \<times> mem) option"

definition raw_image__read ::
    "'h disk_sys \<Rightarrow> qcow disk_image \<Rightarrow> 'h \<Rightarrow> mem \<Rightarrow> u64 \<Rightarrow> iov_array \<Rightarrow> int \<Rightarrow> 'h disk_transfer" where
  "raw_image__read S disk h m sector iov iovcount =
     map_option (\<lambda>(r, m, h). (r, disk, h, m))
       (preadv_in_full (host_preadv (sys_files S (disk_fd disk))) h m iov iovcount (push_bit SECTOR_SHIFT sector))"

definition raw_image__write ::
    "'h disk_sys \<Rightarrow> qcow disk_image \<Rightarrow> 'h \<Rightarrow> mem \<Rightarrow> u64 \<Rightarrow> iov_array \<Rightarrow> int \<Rightarrow> 'h disk_transfer" where
  "raw_image__write S disk h m sector iov iovcount =
     map_option (\<lambda>(r, h). (r, disk, h, m))
       (pwritev_in_full (host_pwritev (sys_files S (disk_fd disk))) h m iov iovcount (push_bit SECTOR_SHIFT sector))"

fun read_mmap_loop :: "u8 list \<Rightarrow> mem \<Rightarrow> u64 \<Rightarrow> iovec list \<Rightarrow> int \<Rightarrow> (int \<times> mem) option" where
  "read_mmap_loop bytes m offset [] tot = Some (tot, m)"
| "read_mmap_loop bytes m offset (v # vs) tot =
     (let n = unat (iov_len v) in
      if unat offset + n > length bytes then None
      else read_mmap_loop bytes (store m (iov_base v) (take n (drop (unat offset) bytes))) (offset + iov_len v) vs
             (tot + sint (iov_len v)))"

definition raw_image__read_mmap ::
    "qcow disk_image \<Rightarrow> 'h \<Rightarrow> mem \<Rightarrow> u64 \<Rightarrow> iov_array \<Rightarrow> int \<Rightarrow> 'h disk_transfer" where
  "raw_image__read_mmap disk h m sector iov iovcount =
     (case disk_priv disk of
        Priv_mmap bytes \<Rightarrow>
          map_option (\<lambda>(tot, m). (tot, disk, h, m))
            (read_mmap_loop bytes m (push_bit SECTOR_SHIFT sector) (iov_elems iov 0 iovcount) 0)
      | _ \<Rightarrow> None)"

fun write_mmap_loop :: "u8 list \<Rightarrow> mem \<Rightarrow> u64 \<Rightarrow> iovec list \<Rightarrow> int \<Rightarrow> (int \<times> u8 list) option" where
  "write_mmap_loop bytes m offset [] tot = Some (tot, bytes)"
| "write_mmap_loop bytes m offset (v # vs) tot =
     (let n = unat (iov_len v) in
      if unat offset + n > length bytes then None
      else write_mmap_loop (file_splice bytes (unat offset) (load m (iov_base v) n)) m (offset + iov_len v) vs
             (tot + sint (iov_len v)))"

definition raw_image__write_mmap ::
    "qcow disk_image \<Rightarrow> 'h \<Rightarrow> mem \<Rightarrow> u64 \<Rightarrow> iov_array \<Rightarrow> int \<Rightarrow> 'h disk_transfer" where
  "raw_image__write_mmap disk h m sector iov iovcount =
     (case disk_priv disk of
        Priv_mmap bytes \<Rightarrow>
          map_option (\<lambda>(tot, bytes). (tot, disk\<lparr> disk_priv := Priv_mmap bytes \<rparr>, h, m))
            (write_mmap_loop bytes m (push_bit SECTOR_SHIFT sector) (iov_elems iov 0 iovcount) 0)
      | _ \<Rightarrow> None)"

definition ops_read ::
    "'h disk_sys \<Rightarrow> qcow disk_image \<Rightarrow> 'h \<Rightarrow> mem \<Rightarrow> u64 \<Rightarrow> iov_array \<Rightarrow> int \<Rightarrow> 'h disk_transfer" where
  "ops_read S disk h m sector iov iovcount =
     (let qcow = (case disk_priv disk of
          Priv_qcow q \<Rightarrow>
            map_option (\<lambda>(r, q, h, m). (r, disk\<lparr> disk_priv := Priv_qcow q \<rparr>, h, m))
              (qcow_read_sector (sys_files S (disk_fd disk)) q h m sector (iov_elems iov 0 iovcount) 0)
        | _ \<Rightarrow> None) in
      if iovcount < 0 then None
      else case disk_ops disk of
          ro_ops \<Rightarrow> raw_image__read_mmap disk h m sector iov iovcount
        | qcow_disk_readonly_ops \<Rightarrow> qcow
        | qcow_disk_ops \<Rightarrow> qcow
        | _ \<Rightarrow> raw_image__read S disk h m sector iov iovcount)"

text \<open>The write operation of the format, if it has one.\<close>

definition ops_write ::
    "'h disk_sys \<Rightarrow> qcow disk_image \<Rightarrow> 'h \<Rightarrow> mem \<Rightarrow> u64 \<Rightarrow> iov_array \<Rightarrow> int \<Rightarrow> 'h disk_transfer option" where
  "ops_write S disk h m sector iov iovcount =
     (case disk_ops disk of
        ro_ops_nowrite \<Rightarrow> None
      | qcow_disk_readonly_ops \<Rightarrow> None
      | raw_image_regular_ops \<Rightarrow>
          Some (if iovcount < 0 then None else raw_image__write S disk h m sector iov iovcount)
      | blk_dev_ops \<Rightarrow> Some (if iovcount < 0 then None else raw_image__write S disk h m sector iov iovcount)
      | ro_ops \<Rightarrow> Some (if iovcount < 0 then None else raw_image__write_mmap disk h m sector iov iovcount)
      | qcow_disk_ops \<Rightarrow>
          Some (case disk_priv disk of
             Priv_qcow q \<Rightarrow>
               if iovcount < 0 then None
               else map_option (\<lambda>(r, q, h). (r, disk\<lparr> disk_priv := Priv_qcow q \<rparr>, h, m))
                 (qcow_write_sector (sys_files S (disk_fd disk)) q h m sector (iov_elems iov 0 iovcount) 0)
           | _ \<Rightarrow> None))"

definition disk_callback :: "qcow disk_image \<Rightarrow> int \<Rightarrow> int option" where
  "disk_callback disk tot = (if \<not> disk_async disk \<and> disk_req_cb disk then Some tot else None)"

definition disk_image__read ::
    "'h disk_sys \<Rightarrow> qcow disk_image \<Rightarrow> 'h \<Rightarrow> mem \<Rightarrow> u64 \<Rightarrow> iov_array \<Rightarrow> int
       \<Rightarrow> (int \<times> int option \<times> qcow disk_image \<times> 'h \<times> mem) option" where
  "disk_image__read S disk h m sector iov iovcount =
     do {
       (tot, disk, h, m) \<leftarrow> ops_read S disk h m sector iov iovcount;
       Some (tot, if tot < 0 then None else disk_callback disk tot, disk, h, m)
     }"

definition disk_image__write ::
    "'h disk_sys \<Rightarrow> qcow disk_image \<Rightarrow> 'h \<Rightarrow> mem \<Rightarrow> u64 \<Rightarrow> iov_array \<Rightarrow> int
       \<Rightarrow> (int \<times> int option \<times> qcow disk_image \<times> 'h \<times> mem) option" where
  "disk_image__write S disk h m sector iov iovcount =
     (case ops_write S disk h m sector iov iovcount of
        None \<Rightarrow> Some (0, disk_callback disk 0, disk, h, m)
      | Some r \<Rightarrow> do {
          (tot, disk, h, m) \<leftarrow> r;
          Some (tot, if tot < 0 then None else disk_callback disk tot, disk, h, m)
        })"

definition disk_image__flush ::
    "'h disk_sys \<Rightarrow> qcow disk_image \<Rightarrow> 'h \<Rightarrow> (int \<times> qcow disk_image \<times> 'h) option" where
  "disk_image__flush S disk h =
     (case disk_ops disk of
        qcow_disk_ops \<Rightarrow>
          (case disk_priv disk of
             Priv_qcow q \<Rightarrow>
               map_option (\<lambda>(r, q, h). (r, disk\<lparr> disk_priv := Priv_qcow q \<rparr>, h))
                 (qcow_disk_flush (sys_files S (disk_fd disk)) q h)
           | _ \<Rightarrow> None)
      | _ \<Rightarrow> (case host_fsync (sys_files S (disk_fd disk)) h of (r, h) \<Rightarrow> Some (r, disk, h)))"

text \<open>
  \<^verbatim>\<open>snprintf\<close> writes at most \<open>len\<close> bytes with the final zero and returns the length of the whole text, which
  becomes the new length.
\<close>

fun decimal :: "nat \<Rightarrow> u8 list" where
  "decimal n = (if n < 10 then [of_nat (48 + n)] else decimal (n div 10) @ [of_nat (48 + n mod 10)])"

declare decimal.simps [simp del]

definition disk_image__get_serial ::
    "'h disk_sys \<Rightarrow> qcow disk_image \<Rightarrow> 'h \<Rightarrow> mem \<Rightarrow> u64 \<Rightarrow> nat \<Rightarrow> int \<times> nat \<times> mem" where
  "disk_image__get_serial S disk h m buffer len =
     (case sys_fstat S h (disk_fd disk) of
        Inl _ \<Rightarrow> (- 1, len, m)
      | Inr st \<Rightarrow>
          let text = decimal (unat (st_dev st)) @ decimal (unat (st_rdev st)) @ decimal (unat (st_ino st)) in
          (int (length text), length text, store m buffer (if len = 0 then [] else take (len - 1) text @ [0])))"

subsection \<open>Raw images are arrays of bytes\<close>

text \<open>
  The abstract content of an image without a format of its own: the file, or the private mapping of a read-only
  image, to which its writes go.
\<close>

definition plain_image :: "qcow disk_image \<Rightarrow> bool" where
  "plain_image disk \<longleftrightarrow>
     (disk_ops disk = raw_image_regular_ops \<or> disk_ops disk = blk_dev_ops) \<and> disk_priv disk = No_priv \<or>
     disk_ops disk = ro_ops \<and> (\<exists>bytes. disk_priv disk = Priv_mmap bytes)"

definition image_bytes :: "('h \<Rightarrow> u8 list) \<Rightarrow> qcow disk_image \<Rightarrow> 'h \<Rightarrow> u8 list" where
  "image_bytes content disk h = (case disk_priv disk of Priv_mmap bytes \<Rightarrow> bytes | _ \<Rightarrow> content h)"

definition same_disk :: "qcow disk_image \<Rightarrow> qcow disk_image \<Rightarrow> bool" where
  "same_disk d d' \<longleftrightarrow> (\<exists>p. d' = d\<lparr> disk_priv := p \<rparr>)"

definition good_file :: "('h \<Rightarrow> u8 list) \<Rightarrow> ('h \<Rightarrow> nat) \<Rightarrow> 'h disk_sys \<Rightarrow> int \<Rightarrow> bool" where
  "good_file content delay S fd \<longleftrightarrow>
     good_preadv content delay (host_preadv (sys_files S fd)) \<and> good_pwritev content delay (host_pwritev (sys_files S fd))"

lemma iov_elems_int: "iov_elems iov 0 (int n) = map iov [0..<n]"
  by (simp add: iov_elems_def)

lemma length_file_splice_in:
  "off + length bs \<le> length c \<Longrightarrow> length (file_splice c off bs) = length c"
  by (simp add: length_file_splice)

lemma sector_offset: "512 * unat sector < 2 ^ 64 \<Longrightarrow> unat (push_bit SECTOR_SHIFT (sector :: u64)) = 512 * unat sector"
  by (simp add: SECTOR_SHIFT_def push_bit_eq_mult unat_word_ariths mult.commute)

lemma small_len:
  assumes "length (iov_addrs (v # vs)) < 2 ^ 63"
  shows "sint (iov_len v) = int (unat (iov_len v))" "length (iov_addrs vs) < 2 ^ 63"
proof -
  have n: "unat (iov_len v) + length (iov_addrs vs) < 2 ^ 63" using assms by (simp add: iov_addrs_Cons)
  show "sint (iov_len v) = int (unat (iov_len v))" by (rule sint_small) (use n in simp)
  show "length (iov_addrs vs) < 2 ^ 63" using n by simp
qed

lemma offset_step:
  assumes "unat offset + unat (len :: u64) \<le> n" "n < 2 ^ 63"
  shows "unat (offset + len) = unat offset + unat len"
  using assms by (simp add: unat_word_ariths)

lemma read_mmap_ok:
  assumes "unat offset + length (iov_addrs vs) \<le> length bytes" "length bytes < 2 ^ 63"
  shows "read_mmap_loop bytes m offset vs tot =
    Some (tot + int (length (iov_addrs vs)), write_at m (iov_addrs vs) (file_slice bytes offset (length (iov_addrs vs))))"
  using assms
proof (induction vs arbitrary: m offset tot)
  case Nil
  then show ?case by (simp add: iov_addrs_def)
next
  case (Cons v vs)
  let ?n = "unat (iov_len v)" and ?k = "length (iov_addrs vs)"
  have len: "length (iov_addrs (v # vs)) = ?n + ?k" by (simp add: iov_addrs_Cons)
  have sm: "length (iov_addrs (v # vs)) < 2 ^ 63" using Cons.prems by simp
  have st: "unat (offset + iov_len v) = unat offset + ?n"
    using offset_step [of offset "iov_len v" "length bytes"] Cons.prems by (simp add: len)
  let ?a = "take ?n (drop (unat offset) bytes)"
  have a: "length ?a = ?n" using Cons.prems by (simp add: len)
  have "file_slice bytes offset (?n + ?k) = ?a @ file_slice bytes (offset + iov_len v) ?k"
    unfolding file_slice_def st take_add drop_drop by (simp add: add.commute)
  then have "write_at m (iov_addrs (v # vs)) (file_slice bytes offset (?n + ?k)) =
      write_at (store m (iov_base v) ?a) (iov_addrs vs) (file_slice bytes (offset + iov_len v) ?k)"
    using write_at_append [of "seg_addrs (iov_base v) ?n" ?a] a by (simp add: iov_addrs_Cons store_write_at)
  then show ?case using Cons.IH [of "offset + iov_len v"] Cons.prems st small_len(1) [OF sm] by (simp add: len Let_def)
qed

lemma write_mmap_ok:
  assumes "unat offset + length (iov_addrs vs) \<le> length bytes" "length bytes < 2 ^ 63"
  shows "write_mmap_loop bytes m offset vs tot =
    Some (tot + int (length (iov_addrs vs)), file_splice bytes (unat offset) (map m (iov_addrs vs)))"
  using assms
proof (induction vs arbitrary: bytes offset tot)
  case Nil
  then show ?case by (simp add: iov_addrs_def file_splice_def)
next
  case (Cons v vs)
  let ?n = "unat (iov_len v)" and ?k = "length (iov_addrs vs)"
  have len: "length (iov_addrs (v # vs)) = ?n + ?k" by (simp add: iov_addrs_Cons)
  have sm: "length (iov_addrs (v # vs)) < 2 ^ 63" using Cons.prems by simp
  have st: "unat (offset + iov_len v) = unat offset + ?n"
    using offset_step [of offset "iov_len v" "length bytes"] Cons.prems by (simp add: len)
  let ?a = "load m (iov_base v) ?n"
  have a: "length ?a = ?n" "?a = map m (seg_addrs (iov_base v) ?n)" by (simp_all add: load_seg)
  have fit: "unat offset + length ?a \<le> length bytes" using Cons.prems by (simp add: len a(1))
  note sp = length_file_splice_in [OF fit] file_splice_append [of bytes "unat offset" ?a "map m (iov_addrs vs)"]
  have "write_mmap_loop (file_splice bytes (unat offset) ?a) m (offset + iov_len v) vs (tot + sint (iov_len v)) =
      Some (tot + sint (iov_len v) + int ?k, file_splice bytes (unat offset) (map m (iov_addrs (v # vs))))"
    using Cons.IH [of "offset + iov_len v" "file_splice bytes (unat offset) ?a"] Cons.prems sp st a
    by (simp add: len iov_addrs_Cons)
  then show ?case using Cons.prems small_len(1) [OF sm] by (simp add: len Let_def)
qed

lemma pwritev_empty:
  assumes "iov_ok iov n" "iov_addrs (map iov [0..<n]) = []"
  shows "pwritev_in_full pwritev h m iov (int n) offset = Some (0, h)"
proof -
  have "get_iov_size iov (int n) = 0" using get_iov_size_ok [OF assms(1)] assms(2) by (simp add: word_unat_eq_iff)
  then show ?thesis by (simp add: pwritev_in_full_def pwritev_in_full_loop.simps)
qed

text \<open>The contract of the two operations on an image of \<open>n\<close> bytes.\<close>

lemma plain_read:
  assumes "plain_image disk" "good_file content delay S (disk_fd disk)" "iov_ok iov n"
    and "A = iov_addrs (map iov [0..<n])" "bytes = image_bytes content disk h"
    and "512 * unat sector + length A \<le> length bytes" "length bytes < 2 ^ 63"
  shows "\<exists>h'. disk_image__read S disk h m sector iov (int n) =
      Some (int (length A), disk_callback disk (int (length A)), disk, h',
            write_at m A (take (length A) (drop (512 * unat sector) bytes))) \<and> content h' = content h"
proof -
  have o: "unat (push_bit SECTOR_SHIFT sector) = 512 * unat sector" using assms(6,7) by (intro sector_offset) simp
  show ?thesis
  proof (cases "disk_ops disk = ro_ops")
    case True
    then obtain b where b: "disk_priv disk = Priv_mmap b" using assms(1) by (auto simp: plain_image_def)
    then have "bytes = b" using assms(5) by (simp add: image_bytes_def)
    then have "ops_read S disk h m sector iov (int n) =
        Some (int (length A), disk, h, write_at m A (file_slice b (push_bit SECTOR_SHIFT sector) (length A)))"
      using True b read_mmap_ok [of "push_bit SECTOR_SHIFT sector" "map iov [0..<n]" b m 0] assms(4,6,7) o
      by (simp add: ops_read_def raw_image__read_mmap_def iov_elems_int Let_def)
    then show ?thesis using \<open>bytes = b\<close> by (auto simp: disk_image__read_def file_slice_def o)
  next
    case False
    then have p: "disk_priv disk = No_priv" "disk_ops disk = raw_image_regular_ops \<or> disk_ops disk = blk_dev_ops"
      using assms(1) by (auto simp: plain_image_def)
    then have bc: "bytes = content h" using assms(5) by (simp add: image_bytes_def)
    obtain h' where "preadv_in_full (host_preadv (sys_files S (disk_fd disk))) h m iov (int n) (push_bit SECTOR_SHIFT sector) =
        Some (int (length A), write_at m A (file_slice bytes (push_bit SECTOR_SHIFT sector) (length A)), h')" "content h' = content h"
      using preadv_in_full_ok [of content delay "host_preadv (sys_files S (disk_fd disk))" iov n "push_bit SECTOR_SHIFT sector" h m]
        assms(2,3,4,6) o bc by (auto simp: good_file_def Let_def)
    then have "ops_read S disk h m sector iov (int n) =
        Some (int (length A), disk, h', write_at m A (take (length A) (drop (512 * unat sector) bytes)))"
      using p by (auto simp: ops_read_def raw_image__read_def file_slice_def o)
    then show ?thesis using \<open>content h' = content h\<close> by (auto simp: disk_image__read_def)
  qed
qed

lemma plain_write:
  assumes "plain_image disk" "good_file content delay S (disk_fd disk)" "iov_ok iov n"
    and "A = iov_addrs (map iov [0..<n])" "bytes = image_bytes content disk h"
    and "512 * unat sector + length A \<le> length bytes" "length bytes < 2 ^ 63"
  shows "\<exists>h' disk'. disk_image__write S disk h m sector iov (int n) =
      Some (int (length A), disk_callback disk (int (length A)), disk', h', m) \<and> same_disk disk disk' \<and> plain_image disk' \<and>
      image_bytes content disk' h' = file_splice bytes (512 * unat sector) (map m A) \<and> (disk_ops disk = ro_ops \<longrightarrow> h' = h)"
proof -
  have o: "unat (push_bit SECTOR_SHIFT sector) = 512 * unat sector" using assms(6,7) by (intro sector_offset) simp
  show ?thesis
  proof (cases "disk_ops disk = ro_ops")
    case True
    then obtain b where b: "disk_priv disk = Priv_mmap b" using assms(1) by (auto simp: plain_image_def)
    then have "bytes = b" using assms(5) by (simp add: image_bytes_def)
    then have "ops_write S disk h m sector iov (int n) =
        Some (Some (int (length A), disk\<lparr> disk_priv := Priv_mmap (file_splice b (512 * unat sector) (map m A)) \<rparr>, h, m))"
      using True b write_mmap_ok [of "push_bit SECTOR_SHIFT sector" "map iov [0..<n]" b m 0] assms(4,6,7) o
      by (simp add: ops_write_def raw_image__write_mmap_def iov_elems_int Let_def)
    then show ?thesis using \<open>bytes = b\<close> True
      by (auto simp: disk_image__write_def disk_callback_def same_disk_def plain_image_def image_bytes_def)
  next
    case False
    then have p: "disk_priv disk = No_priv" "disk_ops disk = raw_image_regular_ops \<or> disk_ops disk = blk_dev_ops"
      using assms(1) by (auto simp: plain_image_def)
    then have bc: "bytes = content h" using assms(5) by (simp add: image_bytes_def)
    let ?w = "pwritev_in_full (host_pwritev (sys_files S (disk_fd disk))) h m iov (int n) (push_bit SECTOR_SHIFT sector)"
    obtain h' where w: "?w = Some (int (length A), h')" "content h' = file_splice bytes (512 * unat sector) (map m A)"
    proof (cases "A = []")
      case True
      then have "?w = Some (0, h)" using pwritev_empty [OF assms(3)] assms(4) by simp
      then show ?thesis using that [of h] True assms(6) by (simp add: bc file_splice_def)
    next
      case False
      then show ?thesis
        using that pwritev_in_full_ok [of content delay "host_pwritev (sys_files S (disk_fd disk))" iov n h m "push_bit SECTOR_SHIFT sector"]
          assms(2-4) o by (auto simp: good_file_def bc)
    qed
    then have "ops_write S disk h m sector iov (int n) = Some (Some (int (length A), disk, h', m))"
      using p by (auto simp: ops_write_def raw_image__write_def)
    then show ?thesis using w(2) p assms(1) False
      by (auto simp: disk_image__write_def same_disk_def image_bytes_def intro: exI [of _ "disk_priv disk"])
  qed
qed


definition ram_sys :: "u8 list disk_sys" where
  "ram_sys =
     \<lparr> sys_stat = (\<lambda>h name. Inl ENOENT), sys_fstat = (\<lambda>h fd. Inl EINVAL), sys_open = (\<lambda>h name fl. (3, h)), sys_close = (\<lambda>h fd. h),
       sys_munmap = (\<lambda>h. 0), sys_blksize = (\<lambda>h fd. Inl EINVAL), sys_mounts = (\<lambda>h. None),
       sys_files = (\<lambda>fd.
         \<lparr> host_pread = (\<lambda>h n off. (Inr (file_slice h off n), h)),
           host_pwrite = (\<lambda>h bs off. (Inr (length bs), file_splice h (unat off) bs)),
           host_preadv = (\<lambda>h vs off. (Inr (file_slice h off (length (iov_addrs vs))), h)),
           host_pwritev = (\<lambda>h bs off. (Inr (length bs), file_splice h (unat off) bs)),
           host_fdatasync = (\<lambda>h. (0, h)), host_fsync = (\<lambda>h. (0, h)), host_malloc = (\<lambda>_. True), host_garbage = (\<lambda>_. 0),
           host_mmap = (\<lambda>h n. Inr h), host_inflateInit = Z_OK, host_inflate = (\<lambda>n bs. (Z_STREAM_END, bs)) \<rparr>) \<rparr>"

lemma ram_file: "good_file id (\<lambda>_. 0) ram_sys fd"
  by (simp add: good_file_def good_preadv_def good_pwritev_def ram_sys_def)

definition mapped_disk :: "qcow disk_image" where
  "mapped_disk = \<lparr> disk_fd = 3, disk_size = 4, disk_ops = ro_ops, disk_priv = Priv_mmap [1, 2, 3, 4], disk_async = False,
     disk_req_cb = True, disk_wwpn = None, disk_tpgt = None, disk_iodelay = 0 \<rparr>"


text \<open>A device that is mounted is refused by the block probe, but then opened as a raw file all the same.\<close>

lemma mounted_opened:
  assumes "sys_stat S h filename = Inr st" "st_blk st" "is_mounted S h st" "sys_open S h filename \<lparr> o_rdonly = False, o_direct = False \<rparr> = (fd, h)"
    and "0 \<le> fd" "qcow_probe (sys_files S fd) h fd True = Some (None, h)" "host_malloc (sys_files S fd) SIZEOF_DISK_IMAGE"
  shows "\<exists>disk. disk_image__open S h filename False False = Some (Inr disk, h) \<and> disk_ops disk = raw_image_regular_ops"
  using assms by (simp add: disk_image__open_def blkdev__probe_def raw_image__probe_def disk_image__new_def)



text \<open>Every option after a comma is recognised by its prefix.\<close>

lemma parse_options_name: "COMMA \<notin> set name \<Longrightarrow> parse_options p (name @ cs) = parse_options p cs"
  by (induction name) auto

lemma name_parser_readonly:
  assumes "COMMA \<notin> set name" "take 5 (name @ '',ro'') \<noteq> ''scsi:''" "unat (image_count cfg) < MAX_DISK_IMAGES"
  shows "\<exists>cfg'. disk_img_name_parser (name @ '',ro'') cfg = Some (Returned cfg') \<and>
    image_count cfg' = image_count cfg + 1 \<and>
    cfg_disk_image cfg' (unat (image_count cfg)) =
      (cfg_disk_image cfg (unat (image_count cfg)))\<lparr> par_filename := Some name, par_readonly := True \<rparr>"
proof -
  have "takeWhile (\<lambda>c. c \<noteq> COMMA) (name @ '',ro'') = name"
    using assms(1) by (subst takeWhile_append2) (auto simp: COMMA_def)
  then show ?thesis using assms(2,3) parse_options_name [OF assms(1)]
    by (simp add: disk_img_name_parser_def Let_def) (simp add: COMMA_def)
qed

end
