(* ===== verification/Virtio_Blk.thy ===== *)
theory Virtio_Blk
  imports Disk Virt_Queue
begin

section \<open>The virtio block device (hw/virtio/blk.c)\<close>

text \<open>
  One device serves the requests of its queue from a disk image. \<open>blk_env\<close> is what the device calls: the translation of guest
  addresses, the files of the images, the interrupt of the transport, the event counter of the I/O
  thread, the ring that \<^verbatim>\<open>vring_init\<close> of the system header lays over the memory of the guest, and
  \<^verbatim>\<open>vring_need_event\<close> of the same header. The arrays of the device have 256 entries; an index past them is \<open>None\<close>.
\<close>

definition VIRTIO_BLK_QUEUE_SIZE :: nat where "VIRTIO_BLK_QUEUE_SIZE = 256"
definition DISK_SEG_MAX :: u32 where "DISK_SEG_MAX = 254"
definition VIRTIO_BLK_T_IN :: u32 where "VIRTIO_BLK_T_IN = 0"
definition VIRTIO_BLK_T_OUT :: u32 where "VIRTIO_BLK_T_OUT = 1"
definition VIRTIO_BLK_T_FLUSH :: u32 where "VIRTIO_BLK_T_FLUSH = 4"
definition VIRTIO_BLK_T_GET_ID :: u32 where "VIRTIO_BLK_T_GET_ID = 8"
definition VIRTIO_BLK_S_OK :: u8 where "VIRTIO_BLK_S_OK = 0"
definition VIRTIO_BLK_S_IOERR :: u8 where "VIRTIO_BLK_S_IOERR = 1"
definition VIRTIO_BLK_ID_BYTES :: nat where "VIRTIO_BLK_ID_BYTES = 20"
definition VIRTIO_BLK_F_SEG_MAX :: nat where "VIRTIO_BLK_F_SEG_MAX = 2"
definition VIRTIO_BLK_F_FLUSH :: nat where "VIRTIO_BLK_F_FLUSH = 9"
definition VIRTIO_RING_F_INDIRECT_DESC :: nat where "VIRTIO_RING_F_INDIRECT_DESC = 28"

record blk_dev_req =
  req_iov :: iov_array
  req_out :: u16
  req_in :: u16
  req_head :: u16

record virtio_blk_config =
  capacity :: u64
  seg_max :: u32

record blk_dev =
  blk_vdev :: virtio_device
  blk_config :: virtio_blk_config
  blk_disk :: "qcow disk_image"
  blk_features :: u32
  blk_vq :: virt_queue
  blk_reqs :: "nat \<Rightarrow> blk_dev_req"

record 'h blk_env =
  env_sys :: "'h disk_sys"
  env_host :: "u64 \<Rightarrow> u64"
  env_signal_vq :: "nat \<Rightarrow> 'h \<Rightarrow> 'h"
  env_efd_write :: "'h \<Rightarrow> int \<times> 'h"
  env_need_event :: "u16 \<Rightarrow> u16 \<Rightarrow> u16 \<Rightarrow> bool"
  env_vring_init :: "nat \<Rightarrow> u64 \<Rightarrow> u32 \<Rightarrow> vring"

text \<open>A descriptor of an indirect table in memory.\<close>

definition desc_at :: "mem \<Rightarrow> u64 \<Rightarrow> nat \<Rightarrow> vring_desc" where
  "desc_at m a i =
     (let b = a + 16 * of_nat i in
      \<lparr> desc_addr = le_word (load m b 8), desc_len = le_word (load m (b + 8) 4),
        desc_flags = le_word (load m (b + 12) 2), desc_next = le_word (load m (b + 14) 2) \<rparr>)"

definition virtio_blk_complete ::
    "'h blk_env \<Rightarrow> blk_dev \<Rightarrow> 'h \<Rightarrow> mem \<Rightarrow> blk_dev_req \<Rightarrow> int \<Rightarrow> (blk_dev \<times> 'h \<times> mem) option" where
  "virtio_blk_complete E bdev h m req len =
     (let n = unat (req_out req) + unat (req_in req) in
      if n = 0 then None
      else
        let m = m(iov_base (req_iov req (n - 1)) := (if len < 0 then VIRTIO_BLK_S_IOERR else VIRTIO_BLK_S_OK));
            vq = virt_queue__set_used_elem (blk_vq bdev) (ucast (req_head req)) (word_of_int len) in
        case virtio_queue__should_signal (env_need_event E) vq of (sig, vq) \<Rightarrow>
          Some (bdev\<lparr> blk_vq := vq \<rparr>, if sig then env_signal_vq E 0 h else h, m))"

definition virtio_blk_do_io_request ::
    "'h blk_env \<Rightarrow> blk_dev \<Rightarrow> 'h \<Rightarrow> mem \<Rightarrow> blk_dev_req \<Rightarrow> (blk_dev \<times> 'h \<times> mem) option" where
  "virtio_blk_do_io_request E bdev h m req =
     (let iov = req_iov req;
          iovcount = int (unat (req_in req)) + int (unat (req_out req)) - 2;
          req_hdr = iov_base (iov 0);
          type = le_word (load m req_hdr 4) :: u32;
          sector = le_word (load m (req_hdr + 8) 8) :: u64;
          finish = (\<lambda>(_, cb, disk, h, m).
            case cb of
              None \<Rightarrow> Some (bdev\<lparr> blk_disk := disk \<rparr>, h, m)
            | Some len \<Rightarrow> virtio_blk_complete E (bdev\<lparr> blk_disk := disk \<rparr>) h m req len) in
      if type = VIRTIO_BLK_T_IN
      then do {
        r \<leftarrow> disk_image__read (env_sys E) (blk_disk bdev) h m sector (\<lambda>i. iov (i + 1)) iovcount;
        finish r
      }
      else if type = VIRTIO_BLK_T_OUT
      then do {
        r \<leftarrow> disk_image__write (env_sys E) (blk_disk bdev) h m sector (\<lambda>i. iov (i + 1)) iovcount;
        finish r
      }
      else if type = VIRTIO_BLK_T_FLUSH
      then do {
        (block_cnt, disk, h) \<leftarrow> disk_image__flush (env_sys E) (blk_disk bdev) h;
        virtio_blk_complete E (bdev\<lparr> blk_disk := disk \<rparr>) h m req block_cnt
      }
      else if type = VIRTIO_BLK_T_GET_ID
      then
        case disk_image__get_serial (env_sys E) (blk_disk bdev) h m (iov_base (iov 1)) VIRTIO_BLK_ID_BYTES of
          (_, block_cnt, m) \<Rightarrow> virtio_blk_complete E bdev h m req (int block_cnt)
      else Some (bdev, h, m))"

partial_function (option) virtio_blk_do_io ::
    "'h blk_env \<Rightarrow> blk_dev \<Rightarrow> 'h \<Rightarrow> mem \<Rightarrow> (blk_dev \<times> 'h \<times> mem) option" where
  "virtio_blk_do_io E bdev h m =
     (case virt_queue__available (blk_vq bdev) of (avail, vq) \<Rightarrow>
      if \<not> avail then Some (bdev\<lparr> blk_vq := vq \<rparr>, h, m)
      else
        case virt_queue__pop vq of (head, vq) \<Rightarrow>
        if unat head \<ge> VIRTIO_BLK_QUEUE_SIZE then None
        else do {
          (hd', iov, out, inn) \<leftarrow> virt_queue__get_head_iov (env_host E) (desc_at m) vq (req_iov (blk_reqs bdev (unat head))) head;
          let req = \<lparr> req_iov = iov, req_out = out, req_in = inn, req_head = hd' \<rparr> in
          if unat out + unat inn > VIRTIO_BLK_QUEUE_SIZE then None
          else do {
            (bdev, h, m) \<leftarrow> virtio_blk_do_io_request E
               (bdev\<lparr> blk_vq := vq, blk_reqs := (blk_reqs bdev)(unat head := req) \<rparr>) h m req;
            virtio_blk_do_io E bdev h m
          }
        })"

text \<open>The callbacks of the transport. On x86 the conversions of \<^verbatim>\<open>set_guest_features\<close> are identities.\<close>

definition get_config :: "blk_dev \<Rightarrow> virtio_blk_config" where
  "get_config bdev = blk_config bdev"

definition get_host_features :: u32 where
  "get_host_features =
     push_bit VIRTIO_BLK_F_SEG_MAX 1 OR push_bit VIRTIO_BLK_F_FLUSH 1 OR push_bit (unat VIRTIO_RING_F_EVENT_IDX) 1 OR
     push_bit VIRTIO_RING_F_INDIRECT_DESC 1"

definition set_guest_features :: "blk_dev \<Rightarrow> u32 \<Rightarrow> blk_dev" where
  "set_guest_features bdev fs = bdev\<lparr> blk_features := fs \<rparr>"

definition init_vq :: "'h blk_env \<Rightarrow> blk_dev \<Rightarrow> u32 \<Rightarrow> u32 \<Rightarrow> u32 \<Rightarrow> u32 \<Rightarrow> (int \<times> blk_dev) option" where
  "init_vq E bdev vq page_size align p =
     (if vq \<noteq> 0 then None
      else
        let queue = (blk_vq bdev)\<lparr> pfn := p \<rparr>;
            a = virtio_get_vq (env_host E) (pfn queue) page_size;
            queue = queue\<lparr> vring := env_vring_init E VIRTIO_BLK_QUEUE_SIZE a align, avail_mapped := True \<rparr> in
        Some (0, bdev\<lparr> blk_vq := virtio_init_device_vq (blk_vdev bdev) queue \<rparr>))"

definition notify_vq :: "'h blk_env \<Rightarrow> 'h \<Rightarrow> int \<times> 'h" where
  "notify_vq E h = (case env_efd_write E h of (r, h) \<Rightarrow> (if r < 0 then r else 0, h))"

definition get_pfn_vq :: "blk_dev \<Rightarrow> u32 \<Rightarrow> u32 option" where
  "get_pfn_vq bdev vq = (if vq \<noteq> 0 then None else Some (pfn (blk_vq bdev)))"

definition get_size_vq :: "blk_dev \<Rightarrow> u32 \<Rightarrow> nat" where
  "get_size_vq bdev vq = VIRTIO_BLK_QUEUE_SIZE"

definition set_size_vq :: "blk_dev \<Rightarrow> u32 \<Rightarrow> int \<Rightarrow> int" where
  "set_size_vq bdev vq sz = sz"

text \<open>One round of the I/O thread, after the event counter has returned \<open>r\<close>.\<close>

definition virtio_blk_thread :: "'h blk_env \<Rightarrow> int \<Rightarrow> blk_dev \<Rightarrow> 'h \<Rightarrow> mem \<Rightarrow> (blk_dev \<times> 'h \<times> mem) option" where
  "virtio_blk_thread E r bdev h m = (if r < 0 then Some (bdev, h, m) else virtio_blk_do_io E bdev h m)"

subsection \<open>Start-up\<close>

text \<open>
  \<open>calloc\<close> tells whether the device can be allocated; \<open>vdev\<close> is what \<^verbatim>\<open>virtio_init\<close>, whose result is ignored, makes of the
  zeroed transport part.
\<close>

definition zero_vring :: vring where
  "zero_vring =
     \<lparr> num = 0, desc = (\<lambda>_. \<lparr> desc_addr = 0, desc_len = 0, desc_flags = 0, desc_next = 0 \<rparr>), avail_flags = 0, avail_idx = 0,
       avail_ring = (\<lambda>_. 0), used_idx = 0, used_ring = (\<lambda>_. \<lparr> used_id = 0, used_len = 0 \<rparr>), avail_event = 0 \<rparr>"

definition zero_vq :: virt_queue where
  "zero_vq = \<lparr> vring = zero_vring, avail_mapped = False, pfn = 0, last_avail_idx = 0, last_used_signalled = 0, endian = 0,
     use_event_idx = False \<rparr>"

definition virtio_blk__init_one ::
    "virtio_device \<Rightarrow> bool \<Rightarrow> blk_dev list \<Rightarrow> disk_slot \<Rightarrow> int \<times> blk_dev list" where
  "virtio_blk__init_one vdev calloc bdevs disk =
     (case disk of
        Opened disk \<Rightarrow>
          if \<not> calloc then (- ENOMEM, bdevs)
          else (0, bdevs @ [
            \<lparr> blk_vdev = vdev, blk_config = \<lparr> capacity = disk_size disk div 512, seg_max = DISK_SEG_MAX \<rparr>,
              blk_disk = disk_image__set_callback disk, blk_features = 0, blk_vq = zero_vq,
              blk_reqs = (\<lambda>_. \<lparr> req_iov = (\<lambda>_. \<lparr> iov_base = 0, iov_len = 0 \<rparr>), req_out = 0, req_in = 0, req_head = 0 \<rparr>) \<rparr>])
      | _ \<Rightarrow> (- EINVAL, bdevs))"

definition virtio_blk__exit_one :: "blk_dev list \<Rightarrow> blk_dev list" where
  "virtio_blk__exit_one bdevs = tl bdevs"

function virtio_blk__exit :: "blk_dev list \<Rightarrow> int \<times> blk_dev list" where
  "virtio_blk__exit bdevs = (if bdevs = [] then (0, bdevs) else virtio_blk__exit (virtio_blk__exit_one bdevs))"
  by auto
termination by (relation "measure length") (auto simp: virtio_blk__exit_one_def)

declare virtio_blk__exit.simps [simp del]

fun virtio_blk__init :: "virtio_device \<Rightarrow> bool \<Rightarrow> blk_dev list \<Rightarrow> disk_slot list \<Rightarrow> (int \<times> blk_dev list) option" where
  "virtio_blk__init vdev calloc bdevs [] = Some (0, bdevs)"
| "virtio_blk__init vdev calloc bdevs (No_disk # ds) = None"
| "virtio_blk__init vdev calloc bdevs (Scsi_disk wwpn tpgt # ds) = virtio_blk__init vdev calloc bdevs ds"
| "virtio_blk__init vdev calloc bdevs (Opened disk # ds) =
     (if disk_wwpn disk \<noteq> None then virtio_blk__init vdev calloc bdevs ds
      else case virtio_blk__init_one vdev calloc bdevs (Opened disk) of (r, bdevs) \<Rightarrow>
        if r < 0 then Some (virtio_blk__exit bdevs) else virtio_blk__init vdev calloc bdevs ds)"

subsection \<open>Every request is completed\<close>

text \<open>
  A request is a vector: the header, the data and the status byte. \<open>blk_stores\<close> are the addresses that serving it writes, apart
  from the status.
\<close>

definition blk_type :: "mem \<Rightarrow> iovec list \<Rightarrow> u32" where
  "blk_type m vs = le_word (load m (iov_base (vs ! 0)) 4)"

definition blk_sector :: "mem \<Rightarrow> iovec list \<Rightarrow> u64" where
  "blk_sector m vs = le_word (load m (iov_base (vs ! 0) + 8) 8)"

definition blk_data :: "iovec list \<Rightarrow> iovec list" where
  "blk_data vs = butlast (tl vs)"

definition blk_status :: "iovec list \<Rightarrow> u64" where
  "blk_status vs = iov_base (last vs)"

definition blk_header :: "iovec list \<Rightarrow> u64 set" where
  "blk_header vs = set (seg_addrs (iov_base (vs ! 0)) 16)"

definition blk_stores :: "mem \<Rightarrow> iovec list \<Rightarrow> u64 set" where
  "blk_stores m vs =
     (if blk_type m vs = VIRTIO_BLK_T_IN then set (iov_addrs (blk_data vs))
      else if blk_type m vs = VIRTIO_BLK_T_GET_ID then set (seg_addrs (iov_base (vs ! 1)) VIRTIO_BLK_ID_BYTES) else {})"

definition request_ok :: "mem \<Rightarrow> nat \<Rightarrow> iovec list \<Rightarrow> bool" where
  "request_ok m n vs \<longleftrightarrow>
     2 \<le> length vs \<and> length vs \<le> VIRTIO_BLK_QUEUE_SIZE \<and> iov_len (last vs) \<noteq> 0 \<and>
     blk_type m vs \<in> {VIRTIO_BLK_T_IN, VIRTIO_BLK_T_OUT, VIRTIO_BLK_T_FLUSH, VIRTIO_BLK_T_GET_ID} \<and>
     512 * unat (blk_sector m vs) + length (iov_addrs (blk_data vs)) \<le> n"

definition env_ok :: "('h \<Rightarrow> u8 list) \<Rightarrow> ('h \<Rightarrow> nat) \<Rightarrow> 'h blk_env \<Rightarrow> int \<Rightarrow> bool" where
  "env_ok content delay E fd \<longleftrightarrow>
     good_file content delay (env_sys E) fd \<and> (\<forall>h. content (env_signal_vq E 0 h) = content h) \<and>
     (\<forall>h. \<exists>h'. host_fsync (sys_files (env_sys E) fd) h = (0, h') \<and> content h' = content h)"

definition disk_ok :: "('h \<Rightarrow> u8 list) \<Rightarrow> nat \<Rightarrow> qcow disk_image \<Rightarrow> 'h \<Rightarrow> bool" where
  "disk_ok content n disk h \<longleftrightarrow>
     plain_image disk \<and> \<not> disk_async disk \<and> disk_req_cb disk \<and> length (image_bytes content disk h) = n"

definition completed :: "virt_queue \<Rightarrow> virt_queue \<Rightarrow> u32 \<Rightarrow> u32 \<Rightarrow> bool" where
  "completed q q' head len \<longleftrightarrow> (\<exists>s. q' = (virt_queue__set_used_elem q head len)\<lparr> last_used_signalled := s \<rparr>)"

lemma should_signal_frame:
  "virtio_queue__should_signal need q = (sig, q') \<Longrightarrow> \<exists>s. q' = q\<lparr> last_used_signalled := s \<rparr>"
  by (auto simp: virtio_queue__should_signal_def Let_def split: if_splits intro: exI [of _ "last_used_signalled q"])

lemma complete_ok:
  assumes "env_ok content delay E fd" "0 \<le> len" "unat (req_out req) + unat (req_in req) = length vs" "vs \<noteq> []"
    and "\<forall>i < length vs. req_iov req i = vs ! i"
  shows "\<exists>q' h'. virtio_blk_complete E bdev h m req len = Some (bdev\<lparr> blk_vq := q' \<rparr>, h', m(blk_status vs := VIRTIO_BLK_S_OK)) \<and>
    content h' = content h \<and> completed (blk_vq bdev) q' (ucast (req_head req)) (word_of_int len)"
proof -
  have st: "iov_base (req_iov req (length vs - 1)) = blk_status vs"
    using assms(4,5) by (simp add: blk_status_def last_conv_nth)
  obtain sig q' where s: "virtio_queue__should_signal (env_need_event E)
      (virt_queue__set_used_elem (blk_vq bdev) (ucast (req_head req)) (word_of_int len)) = (sig, q')" by fastforce
  then show ?thesis using assms(1-4) should_signal_frame [OF s] st
    by (auto simp: virtio_blk_complete_def Let_def completed_def env_ok_def)
qed

lemma image_bytes_cong: "content h = content h' \<Longrightarrow> image_bytes content disk h = image_bytes content disk h'"
  by (simp add: image_bytes_def split: priv.splits)

lemma same_disk_refl [simp]: "same_disk d d"
  by (auto simp: same_disk_def intro: exI [of _ "disk_priv d"])

lemma map_data:
  assumes "\<forall>i < length vs. iov i = vs ! i" "2 \<le> length vs"
  shows "map (\<lambda>i. iov (i + 1)) [0..<length vs - 2] = blk_data vs"
  using assms by (intro nth_equalityI) (simp_all add: blk_data_def nth_butlast nth_tl)

lemma serial_frame:
  assumes "disk_image__get_serial S disk h m a n = (r, len, m')" "x \<notin> set (seg_addrs a n)"
  shows "m' x = m x"
proof -
  have "store m a bs x = m x" if "length bs \<le> n" for bs
    using that assms(2) unfolding store_write_at
    by (intro write_at_other) (auto simp: seg_addrs_def)
  then show ?thesis using assms(1)
    by (auto simp: disk_image__get_serial_def Let_def split: sum.splits if_splits)
qed

lemma request_served:
  assumes "env_ok content delay E (disk_fd (blk_disk bdev))" "disk_ok content n (blk_disk bdev) h" "n < 2 ^ 63"
    and "request_ok m n vs" "blk_status vs \<notin> blk_stores m vs"
    and "unat (req_out req) + unat (req_in req) = length vs" "\<forall>i < length vs. req_iov req i = vs ! i"
  shows "\<exists>disk' q' h' m' len. virtio_blk_do_io_request E bdev h m req = Some (bdev\<lparr> blk_disk := disk', blk_vq := q' \<rparr>, h', m') \<and>
    same_disk (blk_disk bdev) disk' \<and> disk_ok content n disk' h' \<and> completed (blk_vq bdev) q' (ucast (req_head req)) len \<and>
    m' (blk_status vs) = VIRTIO_BLK_S_OK \<and> (\<forall>a. a \<notin> blk_stores m vs \<and> a \<noteq> blk_status vs \<longrightarrow> m' a = m a)"
proof -
  let ?d = "blk_disk bdev" and ?iov = "\<lambda>i. req_iov req (i + 1)" and ?k = "length vs - 2"
  let ?A = "iov_addrs (blk_data vs)" and ?s = "blk_sector m vs"
  have vs: "2 \<le> length vs" "iov_len (last vs) \<noteq> 0" "vs \<noteq> []" "512 * unat ?s + length ?A \<le> n"
    using assms(4) by (auto simp: request_ok_def)
  note done' = complete_ok [OF assms(1) _ assms(6) vs(3) assms(7)]
  have d: "plain_image ?d" "good_file content delay (env_sys E) (disk_fd ?d)" "length (image_bytes content ?d h) = n"
    "disk_callback ?d x = Some x" for x
    using assms(1,2) by (auto simp: disk_ok_def env_ok_def disk_callback_def)
  have A: "?A = iov_addrs (map ?iov [0..<?k])" using map_data [OF assms(7) vs(1)] by simp
  have "?k + 1 = length vs - 1" using vs(1) by simp
  then have "?iov ?k = last vs" using vs(1,3) assms(7) by (simp add: last_conv_nth)
  moreover have "length ?A < 2 ^ 63" using vs(4) assms(3) by simp
  ultimately have iov: "iov_ok ?iov ?k" unfolding iov_ok_def A [symmetric] using vs(2) by simp
  have hdr: "iov_base (req_iov req 0) = iov_base (vs ! 0)" "req_iov req 1 = vs ! 1"
    using assms(7) [rule_format, of 0] assms(7) [rule_format, of 1] vs(1,3) by simp_all
  have cnt: "int (unat (req_in req)) + int (unat (req_out req)) - 2 = int ?k"
    using arg_cong [OF assms(6), of int] vs(1) by (simp add: add.commute)
  note run = virtio_blk_do_io_request_def [of E bdev h m req, unfolded Let_def cnt hdr, folded blk_type_def blk_sector_def]
  have neq: "VIRTIO_BLK_T_IN \<noteq> VIRTIO_BLK_T_OUT" "VIRTIO_BLK_T_FLUSH \<notin> {VIRTIO_BLK_T_IN, VIRTIO_BLK_T_OUT}"
    "VIRTIO_BLK_T_GET_ID \<notin> {VIRTIO_BLK_T_IN, VIRTIO_BLK_T_OUT, VIRTIO_BLK_T_FLUSH}"
    by (simp_all add: VIRTIO_BLK_T_IN_def VIRTIO_BLK_T_OUT_def VIRTIO_BLK_T_FLUSH_def VIRTIO_BLK_T_GET_ID_def)
  consider "blk_type m vs = VIRTIO_BLK_T_IN" | "blk_type m vs = VIRTIO_BLK_T_OUT" | "blk_type m vs = VIRTIO_BLK_T_FLUSH"
    | "blk_type m vs = VIRTIO_BLK_T_GET_ID" using assms(4) by (auto simp: request_ok_def)
  then show ?thesis
  proof cases
    case 1
    let ?m = "write_at m ?A (take (length ?A) (drop (512 * unat ?s) (image_bytes content ?d h)))"
    from plain_read [OF d(1,2) iov A refl, of ?s h m] vs(4) assms(3) d(3,4) obtain h1 where
      r: "disk_image__read (env_sys E) ?d h m ?s ?iov (int ?k) = Some (int (length ?A), Some (int (length ?A)), ?d, h1, ?m)"
        "content h1 = content h" by auto
    from done' [of "int (length ?A)" bdev h1 ?m] obtain q' h2 where
      c: "virtio_blk_complete E bdev h1 ?m req (int (length ?A)) = Some (bdev\<lparr> blk_vq := q' \<rparr>, h2, ?m(blk_status vs := VIRTIO_BLK_S_OK))"
        "content h2 = content h1" "completed (blk_vq bdev) q' (ucast (req_head req)) (word_of_int (int (length ?A)))" by auto
    have "virtio_blk_do_io_request E bdev h m req = Some (bdev\<lparr> blk_disk := ?d, blk_vq := q' \<rparr>, h2, ?m(blk_status vs := VIRTIO_BLK_S_OK))"
      unfolding run using 1 r(1) c(1) by simp
    moreover have "disk_ok content n ?d h2" using assms(2) image_bytes_cong [of content h2 h ?d] r(2) c(2) by (simp add: disk_ok_def)
    ultimately show ?thesis using c(3) 1
      by (intro exI [of _ ?d] exI [of _ q'] exI [of _ h2] exI [of _ "?m(blk_status vs := VIRTIO_BLK_S_OK)"]
            exI [of _ "word_of_int (int (length ?A))"]) (auto simp: blk_stores_def write_at_other)
  next
    case 2
    from plain_write [OF d(1,2) iov A refl, of ?s h m] vs(4) assms(3) d(3,4) obtain h1 disk1 where
      w: "disk_image__write (env_sys E) ?d h m ?s ?iov (int ?k) = Some (int (length ?A), Some (int (length ?A)), disk1, h1, m)"
        "same_disk ?d disk1" "plain_image disk1"
        "image_bytes content disk1 h1 = file_splice (image_bytes content ?d h) (512 * unat ?s) (map m ?A)" by auto
    let ?b = "bdev\<lparr> blk_disk := disk1 \<rparr>"
    from done' [of "int (length ?A)" ?b h1 m] obtain q' h2 where
      c: "virtio_blk_complete E ?b h1 m req (int (length ?A)) = Some (?b\<lparr> blk_vq := q' \<rparr>, h2, m(blk_status vs := VIRTIO_BLK_S_OK))"
        "content h2 = content h1" "completed (blk_vq bdev) q' (ucast (req_head req)) (word_of_int (int (length ?A)))" by auto
    have "virtio_blk_do_io_request E bdev h m req = Some (bdev\<lparr> blk_disk := disk1, blk_vq := q' \<rparr>, h2, m(blk_status vs := VIRTIO_BLK_S_OK))"
      unfolding run using 2 w(1) c(1) neq by simp
    moreover have "disk_ok content n disk1 h2"
    proof -
      have "image_bytes content disk1 h2 = image_bytes content disk1 h1" using c(2) by (rule image_bytes_cong)
      then show ?thesis using w(2-) assms(2) length_file_splice_in [of "512 * unat ?s" "map m ?A" "image_bytes content ?d h"] vs(4) d(3)
        by (auto simp: disk_ok_def same_disk_def)
    qed
    ultimately show ?thesis using c(3) w(2)
      by (intro exI [of _ disk1] exI [of _ q'] exI [of _ h2] exI [of _ "m(blk_status vs := VIRTIO_BLK_S_OK)"]
            exI [of _ "word_of_int (int (length ?A))"]) auto
  next
    case 3
    from assms(1) obtain h1 where f: "host_fsync (sys_files (env_sys E) (disk_fd ?d)) h = (0, h1)" "content h1 = content h"
      by (auto simp: env_ok_def)
    have fl: "disk_image__flush (env_sys E) ?d h = Some (0, ?d, h1)"
      using d(1) f(1) by (auto simp: disk_image__flush_def plain_image_def)
    from done' [of 0 bdev h1 m] obtain q' h2 where
      c: "virtio_blk_complete E bdev h1 m req 0 = Some (bdev\<lparr> blk_vq := q' \<rparr>, h2, m(blk_status vs := VIRTIO_BLK_S_OK))"
        "content h2 = content h1" "completed (blk_vq bdev) q' (ucast (req_head req)) (word_of_int 0)" by auto
    have "virtio_blk_do_io_request E bdev h m req = Some (bdev\<lparr> blk_disk := ?d, blk_vq := q' \<rparr>, h2, m(blk_status vs := VIRTIO_BLK_S_OK))"
      unfolding run using 3 fl c(1) neq by simp
    moreover have "disk_ok content n ?d h2" using assms(2) image_bytes_cong [of content h2 h ?d] f(2) c(2) by (simp add: disk_ok_def)
    ultimately show ?thesis using c(3)
      by (intro exI [of _ ?d] exI [of _ q'] exI [of _ h2] exI [of _ "m(blk_status vs := VIRTIO_BLK_S_OK)"]
            exI [of _ "word_of_int 0"]) auto
  next
    case 4
    obtain r len m1 where g: "disk_image__get_serial (env_sys E) ?d h m (iov_base (vs ! 1)) VIRTIO_BLK_ID_BYTES = (r, len, m1)"
      by (metis prod_cases3)
    from done' [of "int len" bdev h m1] obtain q' h2 where
      c: "virtio_blk_complete E bdev h m1 req (int len) = Some (bdev\<lparr> blk_vq := q' \<rparr>, h2, m1(blk_status vs := VIRTIO_BLK_S_OK))"
        "content h2 = content h" "completed (blk_vq bdev) q' (ucast (req_head req)) (word_of_int (int len))" by auto
    have "virtio_blk_do_io_request E bdev h m req = Some (bdev\<lparr> blk_disk := ?d, blk_vq := q' \<rparr>, h2, m1(blk_status vs := VIRTIO_BLK_S_OK))"
      unfolding run using 4 g c(1) neq by simp
    moreover have "disk_ok content n ?d h2" using assms(2) image_bytes_cong [of content h2 h ?d] c(2) by (simp add: disk_ok_def)
    moreover have "m1 a = m a" if "a \<notin> blk_stores m vs" for a
      using serial_frame [OF g, of a] that 4 neq by (simp add: blk_stores_def)
    ultimately show ?thesis using c(3)
      by (intro exI [of _ ?d] exI [of _ q'] exI [of _ h2] exI [of _ "m1(blk_status vs := VIRTIO_BLK_S_OK)"]
            exI [of _ "word_of_int (int len)"]) auto
  qed
qed

text \<open>The available entries from \<open>idx\<close> on, with the vectors of their chains.\<close>

fun pending :: "(u64 \<Rightarrow> u64) \<Rightarrow> vring \<Rightarrow> u16 \<Rightarrow> (u16 \<times> iovec list) list \<Rightarrow> bool" where
  "pending host vr idx [] \<longleftrightarrow> idx = avail_idx vr"
| "pending host vr idx ((head, vs) # rs) \<longleftrightarrow>
     idx \<noteq> avail_idx vr \<and> head = avail_ring vr (unat idx mod unat (num vr)) \<and> unat head < VIRTIO_BLK_QUEUE_SIZE \<and>
     \<not> virt_desc__test_flag (desc vr (unat head)) VRING_DESC_F_INDIRECT \<and>
     (\<exists>is. desc_chain (desc vr) (ucast (num vr)) head is \<and> vs = map (\<lambda>j. desc_iov host (desc vr (unat j))) is) \<and>
     pending host vr (idx + 1) rs"

definition separated :: "mem \<Rightarrow> (u16 \<times> iovec list) list \<Rightarrow> bool" where
  "separated m rs \<longleftrightarrow>
     (\<forall>r \<in> set rs. \<forall>r' \<in> set rs. blk_status (snd r) \<notin> blk_stores m (snd r') \<and>
        blk_header (snd r) \<inter> (blk_stores m (snd r') \<union> {blk_status (snd r')}) = {})"

definition same_ring :: "vring \<Rightarrow> vring \<Rightarrow> bool" where
  "same_ring v v' \<longleftrightarrow>
     num v' = num v \<and> desc v' = desc v \<and> avail_idx v' = avail_idx v \<and> avail_ring v' = avail_ring v \<and> avail_flags v' = avail_flags v"

definition used_part :: "virt_queue \<Rightarrow> u16 \<times> (nat \<Rightarrow> vring_used_elem)" where
  "used_part q = (used_idx (vring q), used_ring (vring q))"

lemma pending_ring: "same_ring v v' \<Longrightarrow> pending host v' idx rs = pending host v idx rs"
proof (induction rs arbitrary: idx)
  case (Cons r rs)
  obtain head vs where r: "r = (head, vs)" by fastforce
  show ?case unfolding r pending.simps Cons.IH [OF Cons.prems] using Cons.prems by (simp add: same_ring_def)
qed (simp add: same_ring_def)

lemma used_part_elems:
  assumes "used_part q = used_part q'" "num (vring q) = num (vring q')"
  shows "used_part (set_used_elems q es) = used_part (set_used_elems q' es)"
  using assms
proof (induction es arbitrary: q q')
  case (Cons e es)
  obtain h l where e: "e = (h, l)" by fastforce
  have "used_part (virt_queue__set_used_elem q h l) = used_part (virt_queue__set_used_elem q' h l)"
    "num (vring (virt_queue__set_used_elem q h l)) = num (vring (virt_queue__set_used_elem q' h l))"
    using Cons.prems
    by (simp_all add: used_part_def virt_queue__set_used_elem_def virt_queue__used_idx_advance_def
        virt_queue__set_used_elem_no_update_def Let_def)
  from Cons.IH [OF this] show ?case by (simp add: e)
qed simp

lemma completed_frame:
  assumes "completed q q' head len"
  shows "same_ring (vring q) (vring q')" "last_avail_idx q' = last_avail_idx q" "avail_mapped q' = avail_mapped q"
    "used_part q' = used_part (virt_queue__set_used_elem q head len)"
proof -
  obtain x where "q' = (virt_queue__set_used_elem q head len)\<lparr> last_used_signalled := x \<rparr>"
    using assms unfolding completed_def ..
  then show "same_ring (vring q) (vring q')" "last_avail_idx q' = last_avail_idx q" "avail_mapped q' = avail_mapped q"
    "used_part q' = used_part (virt_queue__set_used_elem q head len)"
    by (simp_all add: same_ring_def used_part_def virt_queue__set_used_elem_def virt_queue__used_idx_advance_def
      virt_queue__set_used_elem_no_update_def Let_def)
qed

lemma load_cong: "(\<And>i. i < n \<Longrightarrow> m' (a + of_nat i) = m (a + of_nat i)) \<Longrightarrow> load m' a n = load m a n"
  by (simp add: load_def)

lemma header_frame:
  assumes "\<forall>a \<in> blk_header vs. m' a = m a"
  shows "blk_type m' vs = blk_type m vs" "blk_sector m' vs = blk_sector m vs" "blk_stores m' vs = blk_stores m vs"
    "request_ok m' n vs = request_ok m n vs"
proof -
  have a: "m' (iov_base (vs ! 0) + of_nat i) = m (iov_base (vs ! 0) + of_nat i)" if "i < 16" for i
    using assms that by (simp add: blk_header_def seg_addrs_def)
  show t: "blk_type m' vs = blk_type m vs" unfolding blk_type_def using a by (intro arg_cong [of _ _ le_word] load_cong) simp
  have "m' (iov_base (vs ! 0) + 8 + of_nat i) = m (iov_base (vs ! 0) + 8 + of_nat i)" if "i < 8" for i
    using a [of "8 + i"] that by (simp add: add.assoc)
  then show s: "blk_sector m' vs = blk_sector m vs" unfolding blk_sector_def
    by (intro arg_cong [of _ _ le_word] load_cong) simp
  show "blk_stores m' vs = blk_stores m vs" "request_ok m' n vs = request_ok m n vs"
    by (simp_all add: blk_stores_def request_ok_def t s)
qed

lemma available_frame:
  assumes "avail_mapped q" "last_avail_idx q \<noteq> avail_idx (vring q)"
  shows "\<exists>q'. virt_queue__available q = (True, q') \<and> same_ring (vring q) (vring q') \<and> used_part q' = used_part q \<and>
    last_avail_idx q' = last_avail_idx q \<and> avail_mapped q'"
  using assms by (simp add: virt_queue__available_def Let_def same_ring_def used_part_def)

lemma blk_step:
  assumes "env_ok content delay E (disk_fd (blk_disk bdev))" "disk_ok content n (blk_disk bdev) h" "n < 2 ^ 63"
    and "avail_mapped (blk_vq bdev)" "pending (env_host E) (vring (blk_vq bdev)) (last_avail_idx (blk_vq bdev)) ((head, vs) # rs)"
    and "request_ok m n vs" "blk_status vs \<notin> blk_stores m vs"
  shows "\<exists>bdev' h' m' len. virtio_blk_do_io E bdev h m = virtio_blk_do_io E bdev' h' m' \<and>
    disk_fd (blk_disk bdev') = disk_fd (blk_disk bdev) \<and> disk_ok content n (blk_disk bdev') h' \<and>
    avail_mapped (blk_vq bdev') \<and> same_ring (vring (blk_vq bdev)) (vring (blk_vq bdev')) \<and>
    last_avail_idx (blk_vq bdev') = last_avail_idx (blk_vq bdev) + 1 \<and>
    used_part (blk_vq bdev') = used_part (virt_queue__set_used_elem (blk_vq bdev) (ucast head) len) \<and>
    m' (blk_status vs) = VIRTIO_BLK_S_OK \<and> (\<forall>a. a \<notin> blk_stores m vs \<and> a \<noteq> blk_status vs \<longrightarrow> m' a = m a)"
proof -
  let ?q = "blk_vq bdev"
  obtain q1 where av: "virt_queue__available ?q = (True, q1)" "same_ring (vring ?q) (vring q1)" "used_part q1 = used_part ?q"
    "last_avail_idx q1 = last_avail_idx ?q" "avail_mapped q1"
    using available_frame [of ?q] assms(4,5) by auto
  define q2 where "q2 = q1\<lparr> last_avail_idx := last_avail_idx q1 + 1 \<rparr>"
  have r: "num (vring q1) = num (vring ?q)" "desc (vring q1) = desc (vring ?q)" "avail_ring (vring q1) = avail_ring (vring ?q)"
    using av(2) by (simp_all add: same_ring_def)
  have pop: "virt_queue__pop q1 = (head, q2)" using assms(5) r av(4) by (simp add: virt_queue__pop_def q2_def)
  from assms(5) obtain js where js: "\<not> virt_desc__test_flag (desc (vring ?q) (unat head)) VRING_DESC_F_INDIRECT"
    "desc_chain (desc (vring ?q)) (ucast (num (vring ?q))) head js"
    "vs = map (\<lambda>j. desc_iov (env_host E) (desc (vring ?q) (unat j))) js" "unat head < VIRTIO_BLK_QUEUE_SIZE" by auto
  have len: "length js \<le> 256" "length vs = length js" using js(3) assms(6) by (simp_all add: request_ok_def VIRTIO_BLK_QUEUE_SIZE_def)
  let ?iov = "fill_iov (req_iov (blk_reqs bdev (unat head))) 0 vs"
  obtain out inn where g: "virt_queue__get_head_iov (env_host E) (desc_at m) q2 (req_iov (blk_reqs bdev (unat head))) head =
      Some (head, ?iov, out, inn)" "unat out + unat inn = length vs"
  proof -
    have v: "vring q2 = vring q1" by (simp add: q2_def)
    have c: "desc_chain (desc (vring q2)) (ucast (num (vring q2))) head js"
      "\<not> virt_desc__test_flag (desc (vring q2) (unat head)) VRING_DESC_F_INDIRECT" "length js < 65536"
      using js(1,2) len r unfolding v by simp_all
    from get_head_iov_direct [OF c(2,1,3), of "env_host E" "desc_at m" "req_iov (blk_reqs bdev (unat head))"] obtain out inn where
      "virt_queue__get_head_iov (env_host E) (desc_at m) q2 (req_iov (blk_reqs bdev (unat head))) head =
        Some (head, fill_iov (req_iov (blk_reqs bdev (unat head))) 0 (map (\<lambda>j. desc_iov (env_host E) (desc (vring q2) (unat j))) js), out, inn)"
      "unat out = length (filter (\<lambda>j. \<not> writable (desc (vring q2)) j) js)" "unat inn = length (filter (writable (desc (vring q2))) js)"
      by blast
    moreover have "map (\<lambda>j. desc_iov (env_host E) (desc (vring q2) (unat j))) js = vs" unfolding js(3) v r ..
    moreover have "unat out + unat inn = length vs"
      unfolding len(2) calculation(2,3) using sum_length_filter_compl [of "writable (desc (vring q2))" js] by simp
    ultimately show ?thesis using that [of out inn] by simp
  qed
  let ?req = "\<lparr> req_iov = ?iov, req_out = out, req_in = inn, req_head = head \<rparr>"
  let ?b = "bdev\<lparr> blk_vq := q2, blk_reqs := (blk_reqs bdev)(unat head := ?req) \<rparr>"
  have vec: "\<forall>i < length vs. req_iov ?req i = vs ! i" by (simp add: fill_iov_nth)
  have P: "env_ok content delay E (disk_fd (blk_disk ?b))" "disk_ok content n (blk_disk ?b) h"
    and u: "unat (req_out ?req) + unat (req_in ?req) = length vs" using assms(1,2) g(2) by simp_all
  from request_served [OF P assms(3,6,7) u vec]
  obtain disk' q' h' m' l where s: "virtio_blk_do_io_request E ?b h m ?req = Some (?b\<lparr> blk_disk := disk', blk_vq := q' \<rparr>, h', m')"
    "same_disk (blk_disk ?b) disk'" "disk_ok content n disk' h'" "completed (blk_vq ?b) q' (ucast (req_head ?req)) l"
    "m' (blk_status vs) = VIRTIO_BLK_S_OK" "\<forall>a. a \<notin> blk_stores m vs \<and> a \<noteq> blk_status vs \<longrightarrow> m' a = m a"
    by blast
  have s2: "disk_fd disk' = disk_fd (blk_disk bdev)" using s(2) by (auto simp: same_disk_def)
  have "completed q2 q' (ucast head) l" using s(4) by simp
  note cf = completed_frame [OF this]
  let ?b' = "?b\<lparr> blk_disk := disk', blk_vq := q' \<rparr>"
  have "virtio_blk_do_io E bdev h m = virtio_blk_do_io E ?b' h' m'"
    using av(1) pop js(4) g s(1) len by (subst virtio_blk_do_io.simps) (simp add: VIRTIO_BLK_QUEUE_SIZE_def Let_def)
  moreover have "used_part q' = used_part (virt_queue__set_used_elem ?q (ucast head) l)"
    using cf(4) used_part_elems [of q2 ?q "[(ucast head, l)]"] av(3) r by (simp add: q2_def used_part_def)
  moreover have "same_ring (vring ?q) (vring q')" using av(2) cf(1) by (simp add: same_ring_def q2_def)
  moreover have "last_avail_idx q' = last_avail_idx ?q + 1" "avail_mapped q'" using cf(2,3) av(4,5) by (simp_all add: q2_def)
  ultimately show ?thesis using s(3,5,6) s2
    by (intro exI [of _ ?b'] exI [of _ h'] exI [of _ m'] exI [of _ l]) simp
qed

lemma separated_rest: "separated m (r # rs) \<Longrightarrow> separated m rs"
  by (simp add: separated_def)

lemma separated_frame:
  assumes "separated m rs" "\<forall>r \<in> set rs. \<forall>a \<in> blk_header (snd r). m' a = m a"
  shows "separated m' rs" "\<forall>r \<in> set rs. request_ok m' n (snd r) = request_ok m n (snd r)"
proof -
  have eq: "blk_stores m' (snd r) = blk_stores m (snd r)" "request_ok m' n (snd r) = request_ok m n (snd r)" if "r \<in> set rs" for r
    using header_frame [of "snd r" m' m] assms(2) that by blast+
  show "separated m' rs" using assms(1) eq(1) unfolding separated_def by simp
  show "\<forall>r \<in> set rs. request_ok m' n (snd r) = request_ok m n (snd r)" using eq(2) by simp
qed

lemma do_io_drains:
  assumes "env_ok content delay E fd" "disk_fd (blk_disk bdev) = fd" "disk_ok content n (blk_disk bdev) h" "n < 2 ^ 63"
    and "avail_mapped (blk_vq bdev)" "pending (env_host E) (vring (blk_vq bdev)) (last_avail_idx (blk_vq bdev)) rs"
    and "\<forall>r \<in> set rs. request_ok m n (snd r)" "separated m rs"
  shows "\<exists>bdev' h' m' lens. virtio_blk_do_io E bdev h m = Some (bdev', h', m') \<and> length lens = length rs \<and>
    last_avail_idx (blk_vq bdev') = avail_idx (vring (blk_vq bdev)) \<and>
    used_part (blk_vq bdev') = used_part (set_used_elems (blk_vq bdev) (zip (map (\<lambda>r. ucast (fst r)) rs) lens)) \<and>
    (\<forall>r \<in> set rs. m' (blk_status (snd r)) = VIRTIO_BLK_S_OK) \<and>
    (\<forall>a. (\<forall>r \<in> set rs. a \<notin> blk_stores m (snd r) \<and> a \<noteq> blk_status (snd r)) \<longrightarrow> m' a = m a) \<and>
    disk_ok content n (blk_disk bdev') h'"
  using assms(2-)
proof (induction rs arbitrary: bdev h m)
  case Nil
  let ?q = "blk_vq bdev"
  obtain q' where "virt_queue__available ?q = (False, q')" "used_part q' = used_part ?q" "last_avail_idx q' = last_avail_idx ?q"
    using Nil.prems(4,5) by (auto simp: virt_queue__available_def Let_def used_part_def)
  then have "virtio_blk_do_io E bdev h m = Some (bdev\<lparr> blk_vq := q' \<rparr>, h, m)"
    by (subst virtio_blk_do_io.simps) simp
  then show ?case using Nil.prems \<open>used_part q' = used_part ?q\<close> \<open>last_avail_idx q' = last_avail_idx ?q\<close> by auto
next
  case (Cons r rs)
  obtain head vs where r: "r = (head, vs)" by fastforce
  have ok: "request_ok m n vs" and st: "blk_status vs \<notin> blk_stores m vs"
    using Cons.prems(6,7) by (auto simp: r separated_def)
  have env: "env_ok content delay E (disk_fd (blk_disk bdev))" using assms(1) Cons.prems(1) by simp
  from blk_step [OF env Cons.prems(2,3,4) Cons.prems(5) [unfolded r] ok st] obtain b1 h1 m1 len where
    s: "virtio_blk_do_io E bdev h m = virtio_blk_do_io E b1 h1 m1" "disk_fd (blk_disk b1) = disk_fd (blk_disk bdev)"
      "disk_ok content n (blk_disk b1) h1" "avail_mapped (blk_vq b1)" "same_ring (vring (blk_vq bdev)) (vring (blk_vq b1))"
      "last_avail_idx (blk_vq b1) = last_avail_idx (blk_vq bdev) + 1"
      "used_part (blk_vq b1) = used_part (virt_queue__set_used_elem (blk_vq bdev) (ucast head) len)"
      "m1 (blk_status vs) = VIRTIO_BLK_S_OK" "\<forall>a. a \<notin> blk_stores m vs \<and> a \<noteq> blk_status vs \<longrightarrow> m1 a = m a" by blast
  have hf: "\<forall>r' \<in> set rs. \<forall>a \<in> blk_header (snd r'). m1 a = m a"
  proof (intro ballI)
    fix r' a assume a: "r' \<in> set rs" "a \<in> blk_header (snd r')"
    then have "blk_header (snd r') \<inter> (blk_stores m vs \<union> {blk_status vs}) = {}"
      using Cons.prems(7) by (simp add: separated_def r)
    then show "m1 a = m a" using a(2) s(9) by blast
  qed
  note sf = separated_frame [OF separated_rest [OF Cons.prems(7)] hf]
  have p: "pending (env_host E) (vring (blk_vq b1)) (last_avail_idx (blk_vq b1)) rs"
    using Cons.prems(5) by (simp add: r s(6) pending_ring [OF s(5)])
  have ok1: "\<forall>r \<in> set rs. request_ok m1 n (snd r)" using sf(2) Cons.prems(6) by simp
  have "disk_fd (blk_disk b1) = fd" using s(2) Cons.prems(1) by simp
  from Cons.IH [OF this s(3) Cons.prems(3) s(4) p ok1 sf(1)] obtain b2 h2 m2 lens where
    i: "virtio_blk_do_io E b1 h1 m1 = Some (b2, h2, m2)" "length lens = length rs"
      "last_avail_idx (blk_vq b2) = avail_idx (vring (blk_vq b1))"
      "used_part (blk_vq b2) = used_part (set_used_elems (blk_vq b1) (zip (map (\<lambda>r. ucast (fst r)) rs) lens))"
      "\<forall>r \<in> set rs. m2 (blk_status (snd r)) = VIRTIO_BLK_S_OK"
      "\<forall>a. (\<forall>r \<in> set rs. a \<notin> blk_stores m1 (snd r) \<and> a \<noteq> blk_status (snd r)) \<longrightarrow> m2 a = m1 a"
      "disk_ok content n (blk_disk b2) h2" by blast
  have stores: "blk_stores m1 (snd r) = blk_stores m (snd r)" if "r \<in> set rs" for r
    using header_frame(3) [of "snd r" m1 m] hf that by blast
  have "num (vring (virt_queue__set_used_elem (blk_vq bdev) (ucast head) len)) = num (vring (blk_vq b1))"
    using s(5) by (simp add: same_ring_def virt_queue__set_used_elem_def virt_queue__used_idx_advance_def
        virt_queue__set_used_elem_no_update_def Let_def)
  from used_part_elems [OF s(7) this [symmetric]]
  have used: "used_part (blk_vq b2) = used_part (set_used_elems (blk_vq bdev) (zip (map (\<lambda>r. ucast (fst r)) (r # rs)) (len # lens)))"
    using i(4) by (simp add: r)
  have status: "m2 (blk_status vs) = VIRTIO_BLK_S_OK"
  proof (cases "\<exists>r' \<in> set rs. blk_status vs = blk_status (snd r')")
    case False
    have "\<forall>r' \<in> set rs. blk_status vs \<notin> blk_stores m1 (snd r')"
      using Cons.prems(7) stores by (simp add: separated_def r)
    then show ?thesis using i(6) False s(8) by simp
  qed (use i(5) in auto)
  have frame: "m2 a = m a" if "\<forall>r \<in> set (r # rs). a \<notin> blk_stores m (snd r) \<and> a \<noteq> blk_status (snd r)" for a
  proof -
    have "m1 a = m a" using s(9) that by (simp add: r)
    moreover have "m2 a = m1 a" using i(6) that stores by simp
    ultimately show ?thesis by simp
  qed
  have "last_avail_idx (blk_vq b2) = avail_idx (vring (blk_vq bdev))" using i(3) s(5) by (simp add: same_ring_def)
  then show ?case using s(1) i(1,2,5,7) used status frame
    by (intro exI [of _ b2] exI [of _ h2] exI [of _ m2] exI [of _ "len # lens"]) (simp add: r)
qed


text \<open>A read of four bytes from a mapped image, in three descriptors.\<close>

definition read_ring :: vring where
  "read_ring =
     \<lparr> num = 4,
       desc = (\<lambda>i. if i = 0 then \<lparr> desc_addr = 0x100, desc_len = 16, desc_flags = 1, desc_next = 1 \<rparr>
                   else if i = 1 then \<lparr> desc_addr = 0x200, desc_len = 4, desc_flags = 3, desc_next = 2 \<rparr>
                   else \<lparr> desc_addr = 0x300, desc_len = 1, desc_flags = 2, desc_next = 0 \<rparr>),
       avail_flags = 0, avail_idx = 1, avail_ring = (\<lambda>_. 0), used_idx = 0, used_ring = (\<lambda>_. \<lparr> used_id = 9, used_len = 9 \<rparr>),
       avail_event = 0 \<rparr>"

definition read_dev :: blk_dev where
  "read_dev =
     \<lparr> blk_vdev = \<lparr> use_vhost = False, vdev_endian = 0, features = 0 \<rparr>, blk_config = \<lparr> capacity = 0, seg_max = 254 \<rparr>,
       blk_disk = mapped_disk, blk_features = 0, blk_vq = zero_vq\<lparr> vring := read_ring, avail_mapped := True \<rparr>,
       blk_reqs = (\<lambda>_. \<lparr> req_iov = (\<lambda>_. \<lparr> iov_base = 0, iov_len = 0 \<rparr>), req_out = 0, req_in = 0, req_head = 0 \<rparr>) \<rparr>"

definition ram_env :: "u8 list blk_env" where
  "ram_env = \<lparr> env_sys = ram_sys, env_host = id, env_signal_vq = (\<lambda>_ h. h), env_efd_write = (\<lambda>h. (8, h)),
     env_need_event = vring_need_event, env_vring_init = (\<lambda>_ _ _. read_ring) \<rparr>"

definition read_vec :: "iovec list" where
  "read_vec = [\<lparr> iov_base = 0x100, iov_len = 16 \<rparr>, \<lparr> iov_base = 0x200, iov_len = 4 \<rparr>, \<lparr> iov_base = 0x300, iov_len = 1 \<rparr>]"

definition read_mem :: mem where
  "read_mem a = (if a < 0x200 then 0 else 7)"

lemma read_header: "blk_type read_mem read_vec = VIRTIO_BLK_T_IN" "blk_sector read_mem read_vec = 0"
  by (simp_all add: blk_type_def blk_sector_def read_vec_def load_def read_mem_def upt_conv_Cons VIRTIO_BLK_T_IN_def)

lemma read_pending: "pending id read_ring 0 [(0, read_vec)]"
proof -
  have "desc_chain (desc read_ring) (ucast (num read_ring)) 0 [0, 1, 2]"
    by (simp add: read_ring_def next_desc_def virt_desc__test_flag_def VRING_DESC_F_NEXT_def)
  moreover have "read_vec = map (\<lambda>j. desc_iov id (desc read_ring (unat j))) [0, 1, 2 :: u16]"
    by (simp add: read_vec_def read_ring_def desc_iov_def)
  ultimately have "\<exists>is. desc_chain (desc read_ring) (ucast (num read_ring)) 0 is \<and>
      read_vec = map (\<lambda>j. desc_iov id (desc read_ring (unat j))) is" by blast
  then show ?thesis
    by (simp add: VIRTIO_BLK_QUEUE_SIZE_def) (simp add: read_ring_def virt_desc__test_flag_def VRING_DESC_F_INDIRECT_def)
qed


text \<open>
  An error of the image is not reported to the guest: the callback does not run and the request stays open for ever, as does a
  request of an unknown type.
\<close>

lemma failed_read_lost:
  assumes "le_word (load m (iov_base (req_iov req 0)) 4) = VIRTIO_BLK_T_IN"
    and "disk_image__read (env_sys E) (blk_disk bdev) h m (le_word (load m (iov_base (req_iov req 0) + 8) 8)) (\<lambda>i. req_iov req (i + 1))
      (int (unat (req_in req)) + int (unat (req_out req)) - 2) = Some (tot, cb, disk, h', m')" "tot < 0"
  shows "virtio_blk_do_io_request E bdev h m req = Some (bdev\<lparr> blk_disk := disk \<rparr>, h', m')"
proof -
  have "cb = None" using assms(2,3) by (auto simp: disk_image__read_def bind_eq_Some_conv split: if_splits)
  then show ?thesis using assms(1,2) by (simp add: virtio_blk_do_io_request_def Let_def)
qed

lemma blk_exit_empty: "virtio_blk__exit bs = (0, [])"
  by (induction bs rule: virtio_blk__exit.induct) (subst virtio_blk__exit.simps, simp)

lemma init_failure_hidden:
  "disk_wwpn disk = None \<Longrightarrow> virtio_blk__init vdev False bdevs (Opened disk # ds) = Some (0, [])"
  by (simp add: virtio_blk__init_one_def ENOMEM_def blk_exit_empty)

end
