(* ===== verification/Ioeventfd.thy ===== *)
theory Ioeventfd
  imports Kvmc_Prelude
begin

section \<open>Event descriptors for guest notifications (src/ioeventfd.c)\<close>

text \<open>
  A registered event makes the kernel turn a guest write into a signal of an event descriptor. The callback with its argument is a
  value of the type \<open>'k\<close>. \<open>ioevent_host\<close> are the system calls on the state \<open>'h\<close> of the host: \<open>kvm_ioeventfd\<close> is the
  \<^verbatim>\<open>KVM_IOEVENTFD\<close> call with an error number as result, \<open>0\<close> for success, and so are the calls of the poll set.
\<close>

record 'k ioevent =
  io_addr :: u64
  io_len :: u8
  io_fn :: 'k
  io_fd :: int
  datamatch :: u64
  io_flags :: u32

record kvm_ioeventfd =
  kio_datamatch :: u64
  kio_addr :: u64
  kio_len :: u32
  kio_fd :: int
  kio_flags :: u32

record 'h ioevent_host =
  ioctl_ioeventfd :: "'h \<Rightarrow> kvm_ioeventfd \<Rightarrow> int \<times> 'h"
  epoll_create :: "'h \<Rightarrow> (int + int) \<times> 'h"
  epoll_add :: "'h \<Rightarrow> int \<Rightarrow> int \<times> 'h"
  epoll_del :: "'h \<Rightarrow> int \<Rightarrow> 'h"
  eventfd :: "'h \<Rightarrow> int \<times> 'h"
  evt_write :: "'h \<Rightarrow> int \<Rightarrow> int \<times> 'h"
  evt_read :: "'h \<Rightarrow> int \<Rightarrow> int \<times> 'h"
  evt_close :: "'h \<Rightarrow> int \<Rightarrow> 'h"
  thread_create :: "'h \<Rightarrow> int \<times> 'h"
  cap_ioeventfd :: bool
  evt_malloc :: bool

record 'k ioeventfd_state =
  ioeventfd_avail :: bool
  epoll_fd :: int
  epoll_stop_fd :: int
  used_ioevents :: "'k ioevent list"

definition IOEVENTFD_FLAG_PIO :: u32 where "IOEVENTFD_FLAG_PIO = 1"
definition IOEVENTFD_FLAG_USER_POLL :: u32 where "IOEVENTFD_FLAG_USER_POLL = 2"
definition KVM_IOEVENTFD_FLAG_DATAMATCH :: u32 where "KVM_IOEVENTFD_FLAG_DATAMATCH = 1"
definition KVM_IOEVENTFD_FLAG_PIO :: u32 where "KVM_IOEVENTFD_FLAG_PIO = 2"
definition KVM_IOEVENTFD_FLAG_DEASSIGN :: u32 where "KVM_IOEVENTFD_FLAG_DEASSIGN = 4"

text \<open>
  One round of the polling thread: each ready descriptor is the stop descriptor or that of an event, whose callback runs.
  The result tells whether the thread goes on.
\<close>

datatype 'k ready = Ready_stop | Ready_event "'k ioevent"

fun ioeventfd__thread ::
    "'h ioevent_host \<Rightarrow> ('k \<Rightarrow> 'h \<Rightarrow> 'h) \<Rightarrow> 'k ioeventfd_state \<Rightarrow> 'h \<Rightarrow> 'k ready list \<Rightarrow> (bool \<times> 'h) outcome" where
  "ioeventfd__thread I fn s h [] = Returned (True, h)"
| "ioeventfd__thread I fn s h (Ready_stop # evs) = Returned (False, snd (evt_write I h (epoll_stop_fd s)))"
| "ioeventfd__thread I fn s h (Ready_event e # evs) =
     (case evt_read I h (io_fd e) of (r, h) \<Rightarrow>
        if r < 0 then Died else ioeventfd__thread I fn s (fn (io_fn e) h) evs)"

definition ioeventfd__start :: "'h ioevent_host \<Rightarrow> 'k ioeventfd_state \<Rightarrow> 'h \<Rightarrow> int \<times> 'h" where
  "ioeventfd__start I s h = (if \<not> ioeventfd_avail s then (- ENOSYS, h) else thread_create I h)"

definition ioeventfd__init :: "'h ioevent_host \<Rightarrow> 'k ioeventfd_state \<Rightarrow> 'h \<Rightarrow> int \<times> 'k ioeventfd_state \<times> 'h" where
  "ioeventfd__init I s h =
     (let s = s\<lparr> ioeventfd_avail := cap_ioeventfd I \<rparr> in
      if \<not> ioeventfd_avail s then (1, s, h)
      else case epoll_create I h of
          (Inl errno, h) \<Rightarrow> (- errno, s, h)
        | (Inr fd, h) \<Rightarrow>
            (case eventfd I h of (stop, h) \<Rightarrow>
             let s = s\<lparr> epoll_fd := fd, epoll_stop_fd := stop \<rparr> in
             case epoll_add I h stop of (r, h) \<Rightarrow>
             if r \<noteq> 0 then (- 1, s, evt_close I (evt_close I h stop) fd)
             else case ioeventfd__start I s h of (r, h) \<Rightarrow>
               if r < 0 then (r, s, evt_close I (evt_close I h stop) fd) else (0, s, h)))"

definition ioeventfd__exit :: "'h ioevent_host \<Rightarrow> 'k ioeventfd_state \<Rightarrow> 'h \<Rightarrow> int \<times> 'h" where
  "ioeventfd__exit I s h =
     (if \<not> ioeventfd_avail s then (0, h)
      else case evt_write I h (epoll_stop_fd s) of (r, h) \<Rightarrow>
        if r < 0 then (r, h)
        else case evt_read I h (epoll_stop_fd s) of (r, h) \<Rightarrow>
          if r < 0 then (r, h) else (0, evt_close I (evt_close I h (epoll_fd s)) (epoll_stop_fd s)))"

text \<open>
  The copy that goes into the list is taken before the flags are known: \<open>io_flags\<close> is set in the structure of the caller only, which is
  part of the result.
\<close>

definition ioeventfd__add_event ::
    "'h ioevent_host \<Rightarrow> 'k ioeventfd_state \<Rightarrow> 'h \<Rightarrow> 'k ioevent \<Rightarrow> u32 \<Rightarrow> int \<times> 'k ioevent \<times> 'k ioeventfd_state \<times> 'h" where
  "ioeventfd__add_event I s h ev flags =
     (if \<not> ioeventfd_avail s then (- ENOSYS, ev, s, h)
      else if \<not> evt_malloc I then (- ENOMEM, ev, s, h)
      else
        let new = ev;
            fl = KVM_IOEVENTFD_FLAG_DATAMATCH OR (if flags AND IOEVENTFD_FLAG_PIO \<noteq> 0 then KVM_IOEVENTFD_FLAG_PIO else 0);
            kev = \<lparr> kio_datamatch = datamatch ev, kio_addr = io_addr ev, kio_len = ucast (io_len ev), kio_fd = io_fd new, kio_flags = fl \<rparr> in
        case ioctl_ioeventfd I h kev of (errno, h) \<Rightarrow>
        if errno \<noteq> 0 then (- errno, ev, s, h)
        else
          case (if flags AND IOEVENTFD_FLAG_USER_POLL \<noteq> 0 then epoll_add I h (io_fd new) else (0, h)) of (errno, h) \<Rightarrow>
          if errno \<noteq> 0 then (- errno, ev, s, h)
          else (0, ev\<lparr> io_flags := fl \<rparr>, s\<lparr> used_ioevents := used_ioevents s @ [new] \<rparr>, h))"

text \<open>The first event of the address is removed; the second argument of the code is not used.\<close>

definition ioeventfd__del_event ::
    "'h ioevent_host \<Rightarrow> 'k ioeventfd_state \<Rightarrow> 'h \<Rightarrow> u64 \<Rightarrow> u64 \<Rightarrow> int \<times> 'k ioeventfd_state \<times> 'h" where
  "ioeventfd__del_event I s h addr match =
     (if \<not> ioeventfd_avail s then (- ENOSYS, s, h)
      else case List.extract (\<lambda>e. io_addr e = addr) (used_ioevents s) of
          None \<Rightarrow> (- ENOENT, s, h)
        | Some (before, ev, after) \<Rightarrow>
            let kev = \<lparr> kio_datamatch = datamatch ev, kio_addr = io_addr ev, kio_len = ucast (io_len ev), kio_fd = 0,
                        kio_flags = io_flags ev OR KVM_IOEVENTFD_FLAG_DEASSIGN \<rparr> in
            case ioctl_ioeventfd I h kev of (_, h) \<Rightarrow>
              (0, s\<lparr> used_ioevents := before @ after \<rparr>, evt_close I (epoll_del I h (io_fd ev)) (io_fd ev)))"

subsection \<open>Adding and removing\<close>

text \<open>
  A removed event is found under its address, and the list is as before; but the request to the kernel
  carries the flags of the copy, without the data match and the port space that the event was registered with.
\<close>

lemma add_del_event:
  assumes "ioeventfd_avail s" "evt_malloc I" "\<forall>e \<in> set (used_ioevents s). io_addr e \<noteq> io_addr ev"
    and "ioeventfd__add_event I s h ev flags = (0, ev', s', h')"
  shows "used_ioevents s' = used_ioevents s @ [ev]" "io_flags ev' AND KVM_IOEVENTFD_FLAG_DATAMATCH = 1"
    "\<exists>h2 r. ioctl_ioeventfd I h' \<lparr> kio_datamatch = datamatch ev, kio_addr = io_addr ev, kio_len = ucast (io_len ev), kio_fd = 0,
        kio_flags = io_flags ev OR KVM_IOEVENTFD_FLAG_DEASSIGN \<rparr> = (r, h2) \<and>
      ioeventfd__del_event I s' h' (io_addr ev) m =
        (0, s, evt_close I (epoll_del I h2 (io_fd ev)) (io_fd ev))"
proof -
  from assms show a: "used_ioevents s' = used_ioevents s @ [ev]" "io_flags ev' AND KVM_IOEVENTFD_FLAG_DATAMATCH = 1"
    by (auto simp: ioeventfd__add_event_def Let_def KVM_IOEVENTFD_FLAG_DATAMATCH_def KVM_IOEVENTFD_FLAG_PIO_def
        split: prod.splits if_splits)
  have s': "s' = s\<lparr> used_ioevents := used_ioevents s @ [ev] \<rparr>"
    using assms by (auto simp: ioeventfd__add_event_def Let_def split: prod.splits if_splits)
  have "List.extract (\<lambda>e. io_addr e = io_addr ev) (used_ioevents s @ [ev]) = Some (used_ioevents s, ev, [])"
    using assms(3) by (auto simp: extract_Some_iff)
  then show "\<exists>h2 r. ioctl_ioeventfd I h' \<lparr> kio_datamatch = datamatch ev, kio_addr = io_addr ev, kio_len = ucast (io_len ev), kio_fd = 0,
        kio_flags = io_flags ev OR KVM_IOEVENTFD_FLAG_DEASSIGN \<rparr> = (r, h2) \<and>
      ioeventfd__del_event I s' h' (io_addr ev) m = (0, s, evt_close I (epoll_del I h2 (io_fd ev)) (io_fd ev))"
    using assms(1) by (auto simp: s' ioeventfd__del_event_def Let_def split: prod.splits)
qed

end
