(* ===== verification/Virtio_Ops.thy ===== *)
theory Virtio_Ops
  imports Virt_Queue Io_Bus Ioeventfd
begin

section \<open>What a virtio device and its transport share (include/kvm/virtio.h)\<close>

text \<open>
  \<open>virtio_ops\<close> are the callbacks of a device with state \<open>'d\<close>. The pointer that \<^verbatim>\<open>get_config\<close> returns is used to read and to write
  single bytes; an index outside the device's configuration is \<open>None\<close>, and so is a queue number that the
  device does not have. \<open>virt_bus\<close> is the part of the machine that a transport changes: the registered devices with the interrupt
  tables, the registered events, and the host. The callback of an event is the transport and the queue it notifies.
  \<open>vh_signal_msi\<close> is the \<^verbatim>\<open>KVM_SIGNAL_MSI\<close> call with the device number, where the kernel wants one.
\<close>

record ('d, 'h) virtio_ops =
  op_config_get :: "'d \<Rightarrow> u64 \<Rightarrow> u8 option"
  op_config_set :: "'d \<Rightarrow> u64 \<Rightarrow> u8 \<Rightarrow> 'd option"
  op_get_host_features :: "'d \<Rightarrow> u32"
  op_set_guest_features :: "u32 \<Rightarrow> 'd \<Rightarrow> 'd"
  op_init_vq :: "'d \<Rightarrow> u32 \<Rightarrow> u32 \<Rightarrow> u32 \<Rightarrow> u32 \<Rightarrow> 'd option"
  op_notify_vq :: "'d \<Rightarrow> 'h \<Rightarrow> u32 \<Rightarrow> ('d \<times> 'h) option"
  op_get_pfn_vq :: "'d \<Rightarrow> u32 \<Rightarrow> u32 option"
  op_get_size_vq :: "'d \<Rightarrow> u32 \<Rightarrow> u32 option"
  op_set_size_vq :: "'d \<Rightarrow> u32 \<Rightarrow> u32 \<Rightarrow> 'd option"
  op_notify_vq_gsi :: "('d \<Rightarrow> 'h \<Rightarrow> u32 \<Rightarrow> u32 \<Rightarrow> 'd \<times> 'h) option"
  op_notify_vq_eventfd :: "('d \<Rightarrow> 'h \<Rightarrow> u32 \<Rightarrow> int \<Rightarrow> 'd \<times> 'h) option"
  op_notify_status :: "('d \<Rightarrow> 'h \<Rightarrow> u8 \<Rightarrow> 'd \<times> 'h) option"

type_synonym vq_event = "ptr \<times> u32"

record 'h virt_bus =
  vb_devs :: dev_state
  vb_events :: "vq_event ioeventfd_state"
  vb_host :: 'h

record 'h virt_host =
  vh_events :: "'h ioevent_host"
  vh_irq_line :: "'h \<Rightarrow> u32 \<Rightarrow> nat \<Rightarrow> 'h"
  vh_signal_msi :: "'h \<Rightarrow> msi_msg \<Rightarrow> u32 option \<Rightarrow> 'h"
  vh_kvm :: kvm_host
  vh_endianness :: u16

definition VIRTIO_MAX_VQ :: nat where "VIRTIO_MAX_VQ = 32"

definition kvm__irq_trigger :: "'h virt_host \<Rightarrow> 'h \<Rightarrow> u32 \<Rightarrow> 'h" where
  "kvm__irq_trigger H h irq = vh_irq_line H (vh_irq_line H h irq 1) irq 0"

definition notify_eventfd ::
    "('d, 'h) virtio_ops \<Rightarrow> 'd \<Rightarrow> 'h \<Rightarrow> u32 \<Rightarrow> int \<Rightarrow> 'd \<times> 'h" where
  "notify_eventfd O' d h vq fd = (case op_notify_vq_eventfd O' of None \<Rightarrow> (d, h) | Some f \<Rightarrow> f d h vq fd)"

definition notify_status :: "('d, 'h) virtio_ops \<Rightarrow> 'd \<Rightarrow> 'h \<Rightarrow> u8 \<Rightarrow> 'd \<times> 'h" where
  "notify_status O' d h st = (case op_notify_status O' of None \<Rightarrow> (d, h) | Some f \<Rightarrow> f d h st)"

end
