(* ===== verification/Virtio_Mmio.thy ===== *)
theory Virtio_Mmio
  imports Virtio_Ops
begin

section \<open>The virtio MMIO transport (hw/virtio/mmio.c)\<close>

text \<open>
  The registers of the transport are the structure \<^verbatim>\<open>virtio_mmio_hdr\<close>, whose layout is that of the register window; \<open>hdr_word\<close> is the
  word at an offset for the registers that the code reads and writes by offset. The interrupt line of
  the device is in the store of the device registry, under the address \<open>vm_self\<close> of the structure.
\<close>

definition VIRTIO_MMIO_IO_SIZE :: u32 where "VIRTIO_MMIO_IO_SIZE = 0x200"
definition KVM_VIRTIO_MMIO_AREA :: u32 where "KVM_VIRTIO_MMIO_AREA = 0xd3000000"
definition VIRTIO_MMIO_MAGIC_VALUE :: u32 where "VIRTIO_MMIO_MAGIC_VALUE = 0x000"
definition VIRTIO_MMIO_VERSION :: u32 where "VIRTIO_MMIO_VERSION = 0x004"
definition VIRTIO_MMIO_DEVICE_ID :: u32 where "VIRTIO_MMIO_DEVICE_ID = 0x008"
definition VIRTIO_MMIO_VENDOR_ID :: u32 where "VIRTIO_MMIO_VENDOR_ID = 0x00c"
definition VIRTIO_MMIO_HOST_FEATURES :: u32 where "VIRTIO_MMIO_HOST_FEATURES = 0x010"
definition VIRTIO_MMIO_HOST_FEATURES_SEL :: u32 where "VIRTIO_MMIO_HOST_FEATURES_SEL = 0x014"
definition VIRTIO_MMIO_GUEST_FEATURES :: u32 where "VIRTIO_MMIO_GUEST_FEATURES = 0x020"
definition VIRTIO_MMIO_GUEST_FEATURES_SEL :: u32 where "VIRTIO_MMIO_GUEST_FEATURES_SEL = 0x024"
definition VIRTIO_MMIO_GUEST_PAGE_SIZE :: u32 where "VIRTIO_MMIO_GUEST_PAGE_SIZE = 0x028"
definition VIRTIO_MMIO_QUEUE_SEL :: u32 where "VIRTIO_MMIO_QUEUE_SEL = 0x030"
definition VIRTIO_MMIO_QUEUE_NUM_MAX :: u32 where "VIRTIO_MMIO_QUEUE_NUM_MAX = 0x034"
definition VIRTIO_MMIO_QUEUE_NUM :: u32 where "VIRTIO_MMIO_QUEUE_NUM = 0x038"
definition VIRTIO_MMIO_QUEUE_ALIGN :: u32 where "VIRTIO_MMIO_QUEUE_ALIGN = 0x03c"
definition VIRTIO_MMIO_QUEUE_PFN :: u32 where "VIRTIO_MMIO_QUEUE_PFN = 0x040"
definition VIRTIO_MMIO_QUEUE_NOTIFY :: u32 where "VIRTIO_MMIO_QUEUE_NOTIFY = 0x050"
definition VIRTIO_MMIO_INTERRUPT_STATUS :: u32 where "VIRTIO_MMIO_INTERRUPT_STATUS = 0x060"
definition VIRTIO_MMIO_INTERRUPT_ACK :: u32 where "VIRTIO_MMIO_INTERRUPT_ACK = 0x064"
definition VIRTIO_MMIO_STATUS :: u32 where "VIRTIO_MMIO_STATUS = 0x070"
definition VIRTIO_MMIO_CONFIG :: u32 where "VIRTIO_MMIO_CONFIG = 0x100"
definition VIRTIO_MMIO_INT_VRING :: u32 where "VIRTIO_MMIO_INT_VRING = 1"
definition VIRTIO_MMIO_INT_CONFIG :: u32 where "VIRTIO_MMIO_INT_CONFIG = 2"

record virtio_mmio_hdr =
  magic :: u32
  version :: u32
  device_id :: u32
  vendor_id :: u32
  host_features_sel :: u32
  guest_features_sel :: u32
  guest_page_size :: u32
  queue_sel :: u32
  queue_num_max :: u32
  queue_num :: u32
  queue_align :: u32
  interrupt_state :: u32
  status :: u32

record 'd virtio_mmio =
  vm_addr :: u32
  vm_self :: ptr
  vm_hdr :: virtio_mmio_hdr
  vm_dev :: 'd
  vm_vdev :: virtio_device

type_synonym ('d, 'h) vmmio_state = "'d virtio_mmio \<times> 'h virt_bus"

definition virtio_mmio_get_io_space_block :: "u32 \<Rightarrow> u32 \<Rightarrow> u32 \<times> u32" where
  "virtio_mmio_get_io_space_block blocks sz = (blocks, blocks + sz)"

definition virtio_mmio_ioevent_callback ::
    "('d, 'h) virtio_ops \<Rightarrow> ('d, 'h) vmmio_state \<Rightarrow> u32 \<Rightarrow> ('d, 'h) vmmio_state option" where
  "virtio_mmio_ioevent_callback O' s vq =
     (case s of (v, B) \<Rightarrow>
      map_option (\<lambda>(d, h). (v\<lparr> vm_dev := d \<rparr>, B\<lparr> vb_host := h \<rparr>)) (op_notify_vq O' (vm_dev v) (vb_host B) vq))"

definition virtio_mmio_init_ioeventfd ::
    "'h virt_host \<Rightarrow> ('d, 'h) virtio_ops \<Rightarrow> ('d, 'h) vmmio_state \<Rightarrow> u32 \<Rightarrow> (int \<times> ('d, 'h) vmmio_state) option" where
  "virtio_mmio_init_ioeventfd H O' s vq =
     (case s of (v, B) \<Rightarrow>
      if unat vq \<ge> VIRTIO_MAX_VQ then None
      else case eventfd (vh_events H) (vb_host B) of (fd, h) \<Rightarrow>
        let ev = \<lparr> io_addr = ucast (vm_addr v + VIRTIO_MMIO_QUEUE_NOTIFY), io_len = 4, io_fn = (vm_self v, vq), io_fd = fd,
                   datamatch = ucast vq, io_flags = 0 \<rparr>;
            flags = (if use_vhost (vm_vdev v) then 0 else IOEVENTFD_FLAG_USER_POLL) in
        case ioeventfd__add_event (vh_events H) (vb_events B) h ev flags of (err, _, evs, h) \<Rightarrow>
        if err \<noteq> 0 then Some (err, v, B\<lparr> vb_events := evs, vb_host := h \<rparr>)
        else case notify_eventfd O' (vm_dev v) h vq fd of (d, h) \<Rightarrow>
          Some (0, v\<lparr> vm_dev := d \<rparr>, B\<lparr> vb_events := evs, vb_host := h \<rparr>))"

definition vmmio_raise :: "'h virt_host \<Rightarrow> u32 \<Rightarrow> ('d, 'h) vmmio_state \<Rightarrow> int \<times> ('d, 'h) vmmio_state" where
  "vmmio_raise H bit' s =
     (case s of (v, B) \<Rightarrow>
      (0, v\<lparr> vm_hdr := (vm_hdr v)\<lparr> interrupt_state := interrupt_state (vm_hdr v) OR bit' \<rparr> \<rparr>,
          B\<lparr> vb_host := kvm__irq_trigger H (vb_host B) (ucast (vmmio_irq (vb_devs B) (vm_self v))) \<rparr>))"

definition virtio_mmio_signal_vq :: "'h virt_host \<Rightarrow> ('d, 'h) vmmio_state \<Rightarrow> u32 \<Rightarrow> int \<times> ('d, 'h) vmmio_state" where
  "virtio_mmio_signal_vq H s vq = vmmio_raise H VIRTIO_MMIO_INT_VRING s"

definition virtio_mmio_signal_config :: "'h virt_host \<Rightarrow> ('d, 'h) vmmio_state \<Rightarrow> int \<times> ('d, 'h) vmmio_state" where
  "virtio_mmio_signal_config H s = vmmio_raise H VIRTIO_MMIO_INT_CONFIG s"

text \<open>
  The loop over the bytes of a configuration access. A write stores the sum of the first data byte and the index, as the code does,
  instead of the byte at the index.
\<close>

fun device_specific_loop ::
    "('d, 'h) virtio_ops \<Rightarrow> u64 \<Rightarrow> bool \<Rightarrow> nat \<Rightarrow> nat \<Rightarrow> 'd \<Rightarrow> buf \<Rightarrow> ('d \<times> buf) option" where
  "device_specific_loop O' addr is_write i 0 d b = Some (d, b)"
| "device_specific_loop O' addr is_write i (Suc n) d b =
     (if is_write
      then case op_config_set O' d (addr + of_nat i) (b 0 + of_nat i) of
          None \<Rightarrow> None
        | Some d \<Rightarrow> device_specific_loop O' addr is_write (Suc i) n d b
      else case op_config_get O' d (addr + of_nat i) of
          None \<Rightarrow> None
        | Some x \<Rightarrow> device_specific_loop O' addr is_write (Suc i) n d (b(i := x)))"

definition virtio_mmio_device_specific ::
    "('d, 'h) virtio_ops \<Rightarrow> ('d, 'h) vmmio_state \<Rightarrow> u64 \<Rightarrow> buf \<Rightarrow> u32 \<Rightarrow> bool \<Rightarrow> (('d, 'h) vmmio_state \<times> buf) option" where
  "virtio_mmio_device_specific O' s addr b len is_write =
     (case s of (v, B) \<Rightarrow>
      map_option (\<lambda>(d, b). ((v\<lparr> vm_dev := d \<rparr>, B), b)) (device_specific_loop O' addr is_write 0 (unat len) (vm_dev v) b))"

definition hdr_word :: "virtio_mmio_hdr \<Rightarrow> u32 \<Rightarrow> u32" where
  "hdr_word hdr addr =
     (if addr = VIRTIO_MMIO_MAGIC_VALUE then magic hdr
      else if addr = VIRTIO_MMIO_VERSION then version hdr
      else if addr = VIRTIO_MMIO_DEVICE_ID then device_id hdr
      else if addr = VIRTIO_MMIO_VENDOR_ID then vendor_id hdr
      else if addr = VIRTIO_MMIO_STATUS then status hdr
      else interrupt_state hdr)"

definition write32 :: "buf \<Rightarrow> u32 \<Rightarrow> buf" where
  "write32 b w = buf_put b 0 (le_bytes 4 w)"

definition virtio_mmio_config_in ::
    "('d, 'h) virtio_ops \<Rightarrow> ('d, 'h) vmmio_state \<Rightarrow> u32 \<Rightarrow> buf \<Rightarrow> buf option" where
  "virtio_mmio_config_in O' s addr b =
     (case s of (v, B) \<Rightarrow>
      let hdr = vm_hdr v in
      if addr \<in> {VIRTIO_MMIO_MAGIC_VALUE, VIRTIO_MMIO_VERSION, VIRTIO_MMIO_DEVICE_ID, VIRTIO_MMIO_VENDOR_ID, VIRTIO_MMIO_STATUS,
                 VIRTIO_MMIO_INTERRUPT_STATUS}
      then Some (write32 b (hdr_word hdr addr))
      else if addr = VIRTIO_MMIO_HOST_FEATURES
      then Some (write32 b (if host_features_sel hdr = 0 then op_get_host_features O' (vm_dev v) else 0))
      else if addr = VIRTIO_MMIO_QUEUE_PFN then map_option (write32 b) (op_get_pfn_vq O' (vm_dev v) (queue_sel hdr))
      else if addr = VIRTIO_MMIO_QUEUE_NUM_MAX then map_option (write32 b) (op_get_size_vq O' (vm_dev v) (queue_sel hdr))
      else Some b)"

definition virtio_mmio_config_out ::
    "'h virt_host \<Rightarrow> ('d, 'h) virtio_ops \<Rightarrow> ('d, 'h) vmmio_state \<Rightarrow> u32 \<Rightarrow> buf \<Rightarrow> ('d, 'h) vmmio_state option" where
  "virtio_mmio_config_out H O' s addr b =
     (case s of (v, B) \<Rightarrow>
      let hdr = vm_hdr v; val = le_word (buf_read b 4) :: u32 in
      if addr = VIRTIO_MMIO_HOST_FEATURES_SEL then Some (v\<lparr> vm_hdr := hdr\<lparr> host_features_sel := val \<rparr> \<rparr>, B)
      else if addr = VIRTIO_MMIO_GUEST_FEATURES_SEL then Some (v\<lparr> vm_hdr := hdr\<lparr> guest_features_sel := val \<rparr> \<rparr>, B)
      else if addr = VIRTIO_MMIO_QUEUE_SEL then Some (v\<lparr> vm_hdr := hdr\<lparr> queue_sel := val \<rparr> \<rparr>, B)
      else if addr = VIRTIO_MMIO_STATUS
      then
        let v = v\<lparr> vm_hdr := hdr\<lparr> status := val \<rparr> \<rparr>;
            v = (if val = 0 then v\<lparr> vm_vdev := (vm_vdev v)\<lparr> vdev_endian := vh_endianness H \<rparr> \<rparr> else v) in
        case notify_status O' (vm_dev v) (vb_host B) (ucast val) of (d, h) \<Rightarrow>
          Some (v\<lparr> vm_dev := d \<rparr>, B\<lparr> vb_host := h \<rparr>)
      else if addr = VIRTIO_MMIO_GUEST_FEATURES
      then
        if guest_features_sel hdr = 0
        then case virtio_set_guest_features (op_set_guest_features O') (vm_vdev v) (vm_dev v) val of (vdev, d) \<Rightarrow>
          Some (v\<lparr> vm_vdev := vdev, vm_dev := d \<rparr>, B)
        else Some (v, B)
      else if addr = VIRTIO_MMIO_GUEST_PAGE_SIZE then Some (v\<lparr> vm_hdr := hdr\<lparr> guest_page_size := val \<rparr> \<rparr>, B)
      else if addr = VIRTIO_MMIO_QUEUE_NUM
      then map_option (\<lambda>d. (v\<lparr> vm_hdr := hdr\<lparr> queue_num := val \<rparr>, vm_dev := d \<rparr>, B)) (op_set_size_vq O' (vm_dev v) (queue_sel hdr) val)
      else if addr = VIRTIO_MMIO_QUEUE_ALIGN then Some (v\<lparr> vm_hdr := hdr\<lparr> queue_align := val \<rparr> \<rparr>, B)
      else if addr = VIRTIO_MMIO_QUEUE_PFN
      then
        case virtio_mmio_init_ioeventfd H O' (v, B) (queue_sel hdr) of
          None \<Rightarrow> None
        | Some (_, v, B) \<Rightarrow>
            map_option (\<lambda>d. (v\<lparr> vm_dev := d \<rparr>, B))
              (op_init_vq O' (vm_dev v) (queue_sel hdr) (guest_page_size hdr) (queue_align hdr) val)
      else if addr = VIRTIO_MMIO_QUEUE_NOTIFY
      then map_option (\<lambda>(d, h). (v\<lparr> vm_dev := d \<rparr>, B\<lparr> vb_host := h \<rparr>)) (op_notify_vq O' (vm_dev v) (vb_host B) val)
      else if addr = VIRTIO_MMIO_INTERRUPT_ACK
      then Some (v\<lparr> vm_hdr := hdr\<lparr> interrupt_state := interrupt_state hdr AND NOT val \<rparr> \<rparr>, B)
      else Some (v, B))"

definition virtio_mmio_mmio_callback ::
    "'h virt_host \<Rightarrow> ('d, 'h) virtio_ops \<Rightarrow> ('d, 'h) vmmio_state \<Rightarrow> u64 \<Rightarrow> buf \<Rightarrow> u32 \<Rightarrow> bool
       \<Rightarrow> (('d, 'h) vmmio_state \<times> buf) option" where
  "virtio_mmio_mmio_callback H O' s addr b len is_write =
     (let offset = ucast (addr - ucast (vm_addr (fst s))) :: u32 in
      if offset \<ge> VIRTIO_MMIO_CONFIG
      then virtio_mmio_device_specific O' s (ucast (offset - VIRTIO_MMIO_CONFIG)) b len is_write
      else if is_write then map_option (\<lambda>s. (s, b)) (virtio_mmio_config_out H O' s offset b)
      else map_option (Pair s) (virtio_mmio_config_in O' s offset b))"

subsection \<open>Start-up and exit\<close>

text \<open>
  The structure is zeroed when it is allocated. \<open>fn\<close> is the registered callback on the machine state and \<open>malloc\<close> the allocation in
  \<^verbatim>\<open>kvm__register_mmio\<close>, whose result is ignored, as is that of \<^verbatim>\<open>device__register\<close>.
\<close>

definition MMIO_FDT_GENERATOR :: ptr where "MMIO_FDT_GENERATOR = 2"

definition vmmio_header :: "u32 \<Rightarrow> virtio_mmio_hdr" where
  "vmmio_header subsys_id =
     \<lparr> magic = 0x74726976, version = 1, device_id = subsys_id, vendor_id = 0x434d564b, host_features_sel = 0, guest_features_sel = 0,
       guest_page_size = 0, queue_sel = 0, queue_num_max = 256, queue_num = 0, queue_align = 0, interrupt_state = 0, status = 0 \<rparr>"

definition virtio_mmio_init ::
    "bool \<Rightarrow> 's mmio_fn \<Rightarrow> ptr \<Rightarrow> 'd \<Rightarrow> virtio_device \<Rightarrow> u32 \<Rightarrow> u32 \<Rightarrow> 's mmio_mapping rb_int_node rbt \<Rightarrow> 'h virt_bus
       \<Rightarrow> (int \<times> 'd virtio_mmio \<times> u32 \<times> 's mmio_mapping rb_int_node rbt \<times> 'h virt_bus) option" where
  "virtio_mmio_init malloc fn self dev vdev subsys_id blocks t B =
     (case virtio_mmio_get_io_space_block blocks VIRTIO_MMIO_IO_SIZE of (addr, blocks) \<Rightarrow>
      case kvm__register_mmio malloc (\<lambda>_ _. 0) 0 t (ucast addr) (ucast VIRTIO_MMIO_IO_SIZE) False fn self of
        None \<Rightarrow> None
      | Some (_, t) \<Rightarrow>
          let v = \<lparr> vm_addr = addr, vm_self = self, vm_hdr = vmmio_header subsys_id, vm_dev = dev, vm_vdev = vdev \<rparr> in
          map_option (\<lambda>(_, _, devs). (0, v, blocks, t, B\<lparr> vb_devs := devs \<rparr>))
            (device__register (vb_devs B) \<lparr> bus_type = DEVICE_BUS_MMIO, data = MMIO_FDT_GENERATOR, dev_num = 0, owner = self \<rparr>))"

fun del_events :: "'h virt_host \<Rightarrow> u64 \<Rightarrow> nat \<Rightarrow> nat \<Rightarrow> 'h virt_bus \<Rightarrow> 'h virt_bus" where
  "del_events H addr i 0 B = B"
| "del_events H addr i (Suc n) B =
     (case ioeventfd__del_event (vh_events H) (vb_events B) (vb_host B) addr (of_nat i) of (_, evs, h) \<Rightarrow>
        del_events H addr (Suc i) n (B\<lparr> vb_events := evs, vb_host := h \<rparr>))"

definition virtio_mmio_exit ::
    "'h virt_host \<Rightarrow> ('d, 'h) vmmio_state \<Rightarrow> 's mmio_mapping rb_int_node rbt
       \<Rightarrow> (int \<times> 's mmio_mapping rb_int_node rbt \<times> 'h virt_bus) option" where
  "virtio_mmio_exit H s t =
     (case s of (v, B) \<Rightarrow>
      map_option (\<lambda>(_, t). (0, t, del_events H (ucast (vm_addr v + VIRTIO_MMIO_QUEUE_NOTIFY)) 0 VIRTIO_MAX_VQ B))
        (kvm__deregister_mmio t (ucast (vm_addr v))))"

subsection \<open>The registers stay well-formed\<close>

text \<open>
  The steps of a device on this transport: accesses of the guest to the window, interrupts of the device, and events of the polling
  thread.
\<close>

inductive vmmio_step ::
    "'h virt_host \<Rightarrow> ('d, 'h) virtio_ops \<Rightarrow> ('d, 'h) vmmio_state \<Rightarrow> ('d, 'h) vmmio_state \<Rightarrow> bool" for H O' where
  guest_access: "virtio_mmio_mmio_callback H O' s addr b len is_write = Some (s', b') \<Longrightarrow> vmmio_step H O' s s'"
| vq_signal: "virtio_mmio_signal_vq H s vq = (r, s') \<Longrightarrow> vmmio_step H O' s s'"
| config_signal: "virtio_mmio_signal_config H s = (r, s') \<Longrightarrow> vmmio_step H O' s s'"
| event: "virtio_mmio_ioevent_callback O' s vq = Some s' \<Longrightarrow> vmmio_step H O' s s'"

inductive vmmio_reachable ::
    "'h virt_host \<Rightarrow> ('d, 'h) virtio_ops \<Rightarrow> u32 \<Rightarrow> u32 \<Rightarrow> ('d, 'h) vmmio_state \<Rightarrow> bool" for H O' where
  started: "virtio_mmio_init malloc (fn :: ('d, 'h) vmmio_state mmio_fn) self dev vdev subsys_id addr t B0 = Some (r, v, blocks, t', B) \<Longrightarrow>
     vmmio_reachable H O' subsys_id addr (v, B)"
| stepped: "vmmio_reachable H O' subsys_id addr s \<Longrightarrow> vmmio_step H O' s s' \<Longrightarrow> vmmio_reachable H O' subsys_id addr s'"

definition vmmio_typed :: "u32 \<Rightarrow> u32 \<Rightarrow> 'd virtio_mmio \<Rightarrow> bool" where
  "vmmio_typed subsys_id addr v \<longleftrightarrow>
     vm_addr v = addr \<and> magic (vm_hdr v) = 0x74726976 \<and> version (vm_hdr v) = 1 \<and> device_id (vm_hdr v) = subsys_id \<and>
     vendor_id (vm_hdr v) = 0x434d564b \<and> queue_num_max (vm_hdr v) = 256 \<and>
     interrupt_state (vm_hdr v) AND NOT (VIRTIO_MMIO_INT_VRING OR VIRTIO_MMIO_INT_CONFIG) = 0"

lemma typed_init:
  "virtio_mmio_init malloc fn self dev vdev subsys_id addr t B0 = Some (r, v, blocks, t', B) \<Longrightarrow> vmmio_typed subsys_id addr v"
  by (auto simp: virtio_mmio_init_def virtio_mmio_get_io_space_block_def vmmio_typed_def vmmio_header_def Let_def
      split: option.splits prod.splits)

lemma typed_raise:
  assumes "vmmio_raise H bit' s = (r, s')" "bit' = VIRTIO_MMIO_INT_VRING \<or> bit' = VIRTIO_MMIO_INT_CONFIG" "vmmio_typed i a (fst s)"
  shows "vmmio_typed i a (fst s')"
  using assms
  by (auto simp: vmmio_raise_def vmmio_typed_def VIRTIO_MMIO_INT_VRING_def VIRTIO_MMIO_INT_CONFIG_def bit.conj_disj_distrib2
      split: prod.splits)

lemma init_ioeventfd_frame:
  "virtio_mmio_init_ioeventfd H O' (v, B) vq = Some (r, v', B') \<Longrightarrow> vm_addr v' = vm_addr v \<and> vm_hdr v' = vm_hdr v"
  by (auto simp: virtio_mmio_init_ioeventfd_def Let_def split: if_splits prod.splits)

lemma ack_bits: "a AND m = 0 \<Longrightarrow> (a AND x) AND m = (0 :: 'a::len word)"
  by (metis and.assoc and.commute and_zero_eq)

lemma typed_out:
  assumes "virtio_mmio_config_out H O' s addr b = Some s'" "vmmio_typed i a (fst s)"
  shows "vmmio_typed i a (fst s')"
proof -
  obtain v B where s: "s = (v, B)" by fastforce
  show ?thesis using assms unfolding s
    by (auto simp: virtio_mmio_config_out_def vmmio_typed_def virtio_set_guest_features_def ack_bits Let_def
        dest: init_ioeventfd_frame split: if_splits prod.splits option.splits)
qed

lemma typed_step: "vmmio_step H O' s s' \<Longrightarrow> vmmio_typed i a (fst s) \<Longrightarrow> vmmio_typed i a (fst s')"
proof (induction rule: vmmio_step.induct)
  case (guest_access s addr b len is_write s' b')
  then show ?case
    by (auto simp: virtio_mmio_mmio_callback_def virtio_mmio_device_specific_def Let_def vmmio_typed_def
        split: if_splits prod.splits dest: typed_out [unfolded vmmio_typed_def])
next
  case (vq_signal s vq r s')
  then show ?case by (auto simp: virtio_mmio_signal_vq_def intro: typed_raise)
next
  case (config_signal s r s')
  then show ?case by (auto simp: virtio_mmio_signal_config_def intro: typed_raise)
next
  case (event s vq s')
  then show ?case by (auto simp: virtio_mmio_ioevent_callback_def vmmio_typed_def split: prod.splits)
qed

lemma reachable_typed: "vmmio_reachable H O' i a s \<Longrightarrow> vmmio_typed i a (fst s)"
  by (induction rule: vmmio_reachable.induct) (auto intro: typed_init typed_step)

lemma window_offset: "ucast (ucast off :: u64) = (off :: u32)"
  by (rule bit_word_eqI) (simp add: bit_unsigned_iff)

lemma register_read:
  assumes "vmmio_typed i a (fst s)" "off \<in> {VIRTIO_MMIO_MAGIC_VALUE, VIRTIO_MMIO_VERSION, VIRTIO_MMIO_DEVICE_ID, VIRTIO_MMIO_VENDOR_ID,
      VIRTIO_MMIO_STATUS, VIRTIO_MMIO_INTERRUPT_STATUS}"
  shows "virtio_mmio_mmio_callback H O' s (ucast a + ucast off) b len False = Some (s, write32 b (hdr_word (vm_hdr (fst s)) off))"
proof -
  have "\<not> off \<ge> VIRTIO_MMIO_CONFIG"
    using assms(2) by (auto simp: VIRTIO_MMIO_MAGIC_VALUE_def VIRTIO_MMIO_VERSION_def VIRTIO_MMIO_DEVICE_ID_def VIRTIO_MMIO_VENDOR_ID_def
        VIRTIO_MMIO_STATUS_def VIRTIO_MMIO_INTERRUPT_STATUS_def VIRTIO_MMIO_CONFIG_def)
  moreover have "vm_addr (fst s) = a" using assms(1) by (simp add: vmmio_typed_def)
  ultimately show ?thesis using assms(2)
    unfolding virtio_mmio_mmio_callback_def Let_def by (cases s) (simp add: window_offset virtio_mmio_config_in_def Let_def)
qed

text \<open>
  C15: the register window of a virtio MMIO device is well-formed in every reachable state. Whatever the guest writes
  and the device signals, a read of the four identification registers answers the magic value "virt", version 1, the device
  and the vendor, the interrupt status has no bit but the two defined ones, and none of these reads changes the state.
\<close>

theorem vmmio_registers:
  assumes "vmmio_reachable H O' subsys_id addr s"
  shows "vmmio_typed subsys_id addr (fst s) \<and>
    virtio_mmio_mmio_callback H O' s (ucast addr) b len False = Some (s, write32 b 0x74726976) \<and>
    virtio_mmio_mmio_callback H O' s (ucast addr + 4) b len False = Some (s, write32 b 1) \<and>
    virtio_mmio_mmio_callback H O' s (ucast addr + 8) b len False = Some (s, write32 b subsys_id) \<and>
    virtio_mmio_mmio_callback H O' s (ucast addr + 12) b len False = Some (s, write32 b 0x434d564b) \<and>
    (\<exists>w. w AND NOT 3 = 0 \<and> virtio_mmio_mmio_callback H O' s (ucast addr + 0x60) b len False = Some (s, write32 b w))"
proof -
  have t: "vmmio_typed subsys_id addr (fst s)" by (rule reachable_typed [OF assms])
  note r = register_read [OF t, of _ H O' b len]
  have "interrupt_state (vm_hdr (fst s)) AND NOT 3 = 0"
    using t by (simp add: vmmio_typed_def VIRTIO_MMIO_INT_VRING_def VIRTIO_MMIO_INT_CONFIG_def)
  then show ?thesis
    using t r [of 0] r [of 4] r [of 8] r [of 12] r [of "0x60"]
    by (intro conjI exI [of _ "interrupt_state (vm_hdr (fst s))"]) (simp_all add: hdr_word_def vmmio_typed_def VIRTIO_MMIO_MAGIC_VALUE_def VIRTIO_MMIO_VERSION_def VIRTIO_MMIO_DEVICE_ID_def
        VIRTIO_MMIO_VENDOR_ID_def VIRTIO_MMIO_STATUS_def VIRTIO_MMIO_INTERRUPT_STATUS_def VIRTIO_MMIO_INT_VRING_def
        VIRTIO_MMIO_INT_CONFIG_def)
qed

definition quiet_ops :: "(unit, unit) virtio_ops" where
  "quiet_ops = \<lparr> op_config_get = (\<lambda>_ _. None), op_config_set = (\<lambda>_ _ _. None), op_get_host_features = (\<lambda>_. 0),
     op_set_guest_features = (\<lambda>_ d. d), op_init_vq = (\<lambda>d _ _ _ _. Some d), op_notify_vq = (\<lambda>d h _. Some (d, h)),
     op_get_pfn_vq = (\<lambda>_ _. Some 0), op_get_size_vq = (\<lambda>_ _. Some 256), op_set_size_vq = (\<lambda>d _ _. Some d), op_notify_vq_gsi = None,
     op_notify_vq_eventfd = None, op_notify_status = None \<rparr>"

definition quiet_kvm :: kvm_host where
  "quiet_kvm = \<lparr> supports_extension = (\<lambda>_. False), set_gsi_routing = (\<lambda>_. 0), signal_msi_rc = (\<lambda>_. 0), irqfd_rc = (\<lambda>_ _ _ _. 0),
     realloc_ok = (\<lambda>_. True), host_errno = 0, msix_needs_devid = False \<rparr>"

definition quiet_host :: "unit virt_host" where
  "quiet_host = \<lparr> vh_events = \<lparr> ioctl_ioeventfd = (\<lambda>h _. (0, h)), epoll_create = (\<lambda>h. (Inr 3, h)), epoll_add = (\<lambda>h _. (0, h)),
       epoll_del = (\<lambda>h _. h), eventfd = (\<lambda>h. (4, h)), evt_write = (\<lambda>h _. (8, h)), evt_read = (\<lambda>h _. (8, h)), evt_close = (\<lambda>h _. h),
       thread_create = (\<lambda>h. (0, h)), cap_ioeventfd = True, evt_malloc = True \<rparr>,
     vh_irq_line = (\<lambda>h _ _. h), vh_signal_msi = (\<lambda>h _ _. h), vh_kvm = quiet_kvm, vh_endianness = 1 \<rparr>"

definition quiet_bus :: "unit virt_bus" where
  "quiet_bus = \<lparr> vb_devs = initial_devices,
     vb_events = \<lparr> ioeventfd_avail = True, epoll_fd = 3, epoll_stop_fd = 4, used_ioevents = [] \<rparr>, vb_host = () \<rparr>"

definition quiet_mmio :: "unit virtio_mmio" where
  "quiet_mmio = \<lparr> vm_addr = KVM_VIRTIO_MMIO_AREA, vm_self = 0, vm_hdr = vmmio_header 2, vm_dev = (),
     vm_vdev = \<lparr> use_vhost = False, vdev_endian = 0, features = 0 \<rparr> \<rparr>"

definition quiet_fn :: "(unit, unit) vmmio_state mmio_fn" where
  "quiet_fn s addr b len is_write p = (s, b)"

lemma quiet_init:
  "\<exists>B t. virtio_mmio_init True quiet_fn 0 () \<lparr> use_vhost = False, vdev_endian = 0, features = 0 \<rparr> 2 KVM_VIRTIO_MMIO_AREA Leaf
     quiet_bus = Some (0, quiet_mmio, KVM_VIRTIO_MMIO_AREA + VIRTIO_MMIO_IO_SIZE, t, B)"
proof -
  have r: "\<exists>t. rb_int_insert Leaf e = Some (0, t)" if "int_ok e" for e :: "'x rb_int_node"
    using rb_int_insert_ok [of Leaf e] that by (auto simp: rb_int_inv_def rb_inv_def)
  define e where "e = \<lparr> low = ucast KVM_VIRTIO_MMIO_AREA, high = ucast KVM_VIRTIO_MMIO_AREA + ucast VIRTIO_MMIO_IO_SIZE,
    entry = \<lparr> mmio_fn = quiet_fn, mmio_ptr = 0 \<rparr> \<rparr>"
  have "int_ok e" by (simp add: e_def int_ok_def KVM_VIRTIO_MMIO_AREA_def VIRTIO_MMIO_IO_SIZE_def)
  from r [OF this] obtain t where t: "rb_int_insert Leaf e = Some (0, t)" by blast
  let ?hdr = "\<lparr> bus_type = DEVICE_BUS_MMIO, data = MMIO_FDT_GENERATOR, dev_num = 0, owner = 0 \<rparr>"
  have "dev_inv (vb_devs quiet_bus)" by (simp add: quiet_bus_def dev_inv_initial)
  from device_register_result [OF this, of ?hdr] obtain d s' where "device__register (vb_devs quiet_bus) ?hdr = Some (0, d, s')"
    by auto
  then have "virtio_mmio_init True quiet_fn 0 () \<lparr> use_vhost = False, vdev_endian = 0, features = 0 \<rparr> 2 KVM_VIRTIO_MMIO_AREA Leaf
     quiet_bus = Some (0, quiet_mmio, KVM_VIRTIO_MMIO_AREA + VIRTIO_MMIO_IO_SIZE, t, quiet_bus\<lparr> vb_devs := s' \<rparr>)"
    using t [unfolded e_def]
    by (simp add: virtio_mmio_init_def virtio_mmio_get_io_space_block_def kvm__register_mmio_def mmio_insert_def Let_def quiet_mmio_def)
  then show ?thesis by blast
qed

theorem vmmio_registers_witness:
  "\<exists>B. virtio_mmio_mmio_callback quiet_host quiet_ops (snd (virtio_mmio_signal_vq quiet_host (quiet_mmio, B) 0)) 0xd3000000 (\<lambda>_. 0) 4 False =
     Some (snd (virtio_mmio_signal_vq quiet_host (quiet_mmio, B) 0), write32 (\<lambda>_. 0) 0x74726976)"
proof -
  from quiet_init obtain B t where
    "virtio_mmio_init True quiet_fn 0 () \<lparr> use_vhost = False, vdev_endian = 0, features = 0 \<rparr> 2 KVM_VIRTIO_MMIO_AREA Leaf
     quiet_bus = Some (0, quiet_mmio, KVM_VIRTIO_MMIO_AREA + VIRTIO_MMIO_IO_SIZE, t :: (unit, unit) vmmio_state mmio_mapping rb_int_node rbt, B)"
    by blast
  then have "vmmio_reachable quiet_host quiet_ops 2 KVM_VIRTIO_MMIO_AREA (quiet_mmio, B)" by (rule started)
  moreover have "vmmio_step quiet_host quiet_ops (quiet_mmio, B) (snd (virtio_mmio_signal_vq quiet_host (quiet_mmio, B) 0))"
    by (rule vq_signal [where vq = 0, OF surjective_pairing])
  ultimately have "vmmio_reachable quiet_host quiet_ops 2 KVM_VIRTIO_MMIO_AREA (snd (virtio_mmio_signal_vq quiet_host (quiet_mmio, B) 0))"
    by (rule stepped)
  from vmmio_registers [OF this, of "\<lambda>_. 0" 4] show ?thesis by (auto simp: KVM_VIRTIO_MMIO_AREA_def)
qed

end
