(* ===== verification/Virtio_Pci.thy ===== *)
theory Virtio_Pci
  imports Virtio_Mmio Pci
begin

section \<open>The virtio PCI transport (hw/virtio/pci.c)\<close>

text \<open>
  The configuration header of the device is in the store of PCI headers of the device registry, under \<open>vp_hdr\<close>, where the host bridge
  changes it. \<open>msix_mem\<close> are the bytes of the structure from \<open>msix_pba\<close> to the end of \<open>msix_table\<close>: the code addresses the
  pending bits as if they were a table, so a read past them reaches the table behind. A queue or vector number
  that the guest chooses outside the arrays is \<open>None\<close>.
\<close>

definition VIRTIO_PCI_HOST_FEATURES :: int where "VIRTIO_PCI_HOST_FEATURES = 0"
definition VIRTIO_PCI_GUEST_FEATURES :: int where "VIRTIO_PCI_GUEST_FEATURES = 4"
definition VIRTIO_PCI_QUEUE_PFN :: int where "VIRTIO_PCI_QUEUE_PFN = 8"
definition VIRTIO_PCI_QUEUE_NUM :: int where "VIRTIO_PCI_QUEUE_NUM = 12"
definition VIRTIO_PCI_QUEUE_SEL :: int where "VIRTIO_PCI_QUEUE_SEL = 14"
definition VIRTIO_PCI_QUEUE_NOTIFY :: int where "VIRTIO_PCI_QUEUE_NOTIFY = 16"
definition VIRTIO_PCI_STATUS :: int where "VIRTIO_PCI_STATUS = 18"
definition VIRTIO_PCI_ISR :: int where "VIRTIO_PCI_ISR = 19"
definition VIRTIO_MSI_CONFIG_VECTOR :: int where "VIRTIO_MSI_CONFIG_VECTOR = 20"
definition VIRTIO_MSI_QUEUE_VECTOR :: int where "VIRTIO_MSI_QUEUE_VECTOR = 22"
definition VIRTIO_MSI_NO_VECTOR :: u32 where "VIRTIO_MSI_NO_VECTOR = 0xffff"
definition VIRTIO_PCI_ISR_CONFIG :: u8 where "VIRTIO_PCI_ISR_CONFIG = 2"
definition VIRTIO_IRQ_LOW :: u8 where "VIRTIO_IRQ_LOW = 0"
definition VIRTIO_IRQ_HIGH :: u8 where "VIRTIO_IRQ_HIGH = 1"
definition VIRTIO_PCI_F_SIGNAL_MSI :: u32 where "VIRTIO_PCI_F_SIGNAL_MSI = 1"
definition PCI_MSIX_FLAGS_ENABLE :: u16 where "PCI_MSIX_FLAGS_ENABLE = 0x8000"
definition PCI_MSIX_FLAGS_MASKALL :: u16 where "PCI_MSIX_FLAGS_MASKALL = 0x4000"
definition PCI_MSIX_ENTRY_CTRL_MASKBIT :: u32 where "PCI_MSIX_ENTRY_CTRL_MASKBIT = 1"
definition PCI_IO_SIZE :: u32 where "PCI_IO_SIZE = 0x100"
definition MSIX_ENTRIES :: nat where "MSIX_ENTRIES = 33"
definition MSIX_CTRL_OFFSET :: nat where "MSIX_CTRL_OFFSET = 66"

record 'd virtio_pci =
  vp_self :: ptr
  vp_hdr :: ptr
  vp_dev_num :: int
  port_addr :: u16
  mmio_addr :: u32
  vp_status :: u8
  isr :: u8
  vp_features :: u32
  legacy_irq_line :: u8
  config_vector :: u16
  config_gsi :: u32
  vq_vector :: "u32 list"
  gsis :: "u32 list"
  msix_io_block :: u32
  msix_mem :: "u8 list"
  queue_selector :: u16
  vp_dev :: 'd
  vp_vdev :: virtio_device

type_synonym ('d, 'h) vpci_state = "'d virtio_pci \<times> 'h virt_bus"

text \<open>Fields of the MSI-X table and of the capability in the header.\<close>

definition msix_word :: "'d virtio_pci \<Rightarrow> nat \<Rightarrow> nat \<Rightarrow> u32" where
  "msix_word v vec off = le_word (take 4 (drop (8 + 16 * vec + off) (msix_mem v)))"

definition msix_msg :: "'d virtio_pci \<Rightarrow> nat \<Rightarrow> msi_msg" where
  "msix_msg v vec = \<lparr> address_lo = msix_word v vec 0, address_hi = msix_word v vec 4, msg_data = msix_word v vec 8 \<rparr>"

definition msix_ctrl :: "'d virtio_pci \<Rightarrow> nat \<Rightarrow> u32" where
  "msix_ctrl v vec = msix_word v vec 12"

definition set_pba :: "u64 \<Rightarrow> 'd virtio_pci \<Rightarrow> 'd virtio_pci" where
  "set_pba w v = v\<lparr> msix_mem := le_bytes 8 w @ drop 8 (msix_mem v) \<rparr>"

definition msix_cap_ctrl :: "('d, 'h) vpci_state \<Rightarrow> u16" where
  "msix_cap_ctrl s =
     (case s of (v, B) \<Rightarrow> le_word (buf_read (buf_at (pci_mem (pci_hdrs (vb_devs B) (vp_hdr v))) MSIX_CTRL_OFFSET) 2))"

definition virtio_pci__ioevent_callback ::
    "('d, 'h) virtio_ops \<Rightarrow> ('d, 'h) vpci_state \<Rightarrow> u32 \<Rightarrow> ('d, 'h) vpci_state option" where
  "virtio_pci__ioevent_callback O' s vq =
     (case s of (v, B) \<Rightarrow>
      map_option (\<lambda>(d, h). (v\<lparr> vp_dev := d \<rparr>, B\<lparr> vb_host := h \<rparr>)) (op_notify_vq O' (vp_dev v) (vb_host B) vq))"

definition virtio_pci__init_ioeventfd ::
    "'h virt_host \<Rightarrow> ('d, 'h) virtio_ops \<Rightarrow> ('d, 'h) vpci_state \<Rightarrow> u32 \<Rightarrow> (int \<times> ('d, 'h) vpci_state) option" where
  "virtio_pci__init_ioeventfd H O' s vq =
     (case s of (v, B) \<Rightarrow>
      if unat vq \<ge> VIRTIO_MAX_VQ then None
      else
        let E = vh_events H;
            flags = (if use_vhost (vp_vdev v) then 0 else IOEVENTFD_FLAG_USER_POLL) in
        case eventfd E (vb_host B) of (fd, h) \<Rightarrow>
        let ev = \<lparr> io_addr = word_of_int (uint (port_addr v) + VIRTIO_PCI_QUEUE_NOTIFY), io_len = 2, io_fn = (vp_self v, vq), io_fd = fd,
                   datamatch = ucast vq, io_flags = 0 \<rparr> in
        case ioeventfd__add_event E (vb_events B) h ev (flags OR IOEVENTFD_FLAG_PIO) of (r, ev, evs, h) \<Rightarrow>
        if r \<noteq> 0 then Some (r, v, B\<lparr> vb_events := evs, vb_host := h \<rparr>)
        else
          case eventfd E h of (fd2, h) \<Rightarrow>
          let ev = ev\<lparr> io_addr := ucast (mmio_addr v + 16), io_len := 2, io_fd := fd2 \<rparr> in
          case ioeventfd__add_event E evs h ev flags of (r, _, evs, h) \<Rightarrow>
          if r \<noteq> 0
          then case ioeventfd__del_event E evs h (word_of_int (uint (port_addr v) + VIRTIO_PCI_QUEUE_NOTIFY)) (ucast vq) of
              (_, evs, h) \<Rightarrow> Some (r, v, B\<lparr> vb_events := evs, vb_host := h \<rparr>)
          else case notify_eventfd O' (vp_dev v) h vq fd of (d, h) \<Rightarrow>
            Some (0, v\<lparr> vp_dev := d \<rparr>, B\<lparr> vb_events := evs, vb_host := h \<rparr>))"

definition virtio_pci__msix_enabled :: "('d, 'h) vpci_state \<Rightarrow> bool" where
  "virtio_pci__msix_enabled s \<longleftrightarrow> msix_cap_ctrl s AND PCI_MSIX_FLAGS_ENABLE \<noteq> 0"

subsection \<open>Register accesses\<close>

definition virtio_pci__specific_io_in ::
    "('d, 'h) virtio_ops \<Rightarrow> ('d, 'h) vpci_state \<Rightarrow> buf \<Rightarrow> nat \<Rightarrow> int \<Rightarrow> (bool \<times> buf) option" where
  "virtio_pci__specific_io_in O' s b p offset =
     (case s of (v, B) \<Rightarrow>
      case virtio__get_dev_specific_field (offset - 20) (virtio_pci__msix_enabled s) of
        (_, None) \<Rightarrow>
          if offset = VIRTIO_MSI_CONFIG_VECTOR then Some (True, put16 b p (config_vector v))
          else if offset = VIRTIO_MSI_QUEUE_VECTOR
          then
            if unat (queue_selector v) \<ge> VIRTIO_MAX_VQ then None
            else Some (True, put16 b p (ucast (vq_vector v ! unat (queue_selector v))))
          else Some (True, b)
      | (_, Some config_offset) \<Rightarrow>
          map_option (\<lambda>cfg. (True, put8 b p cfg)) (op_config_get O' (vp_dev v) (ucast (word_of_int config_offset :: u32))))"

definition virtio_pci__io_in ::
    "'h virt_host \<Rightarrow> ('d, 'h) virtio_ops \<Rightarrow> ('d, 'h) vpci_state \<Rightarrow> u16 \<Rightarrow> buf \<Rightarrow> nat \<Rightarrow> nat
       \<Rightarrow> (bool \<times> ('d, 'h) vpci_state \<times> buf) option" where
  "virtio_pci__io_in H O' s port b p sz =
     (case s of (v, B) \<Rightarrow>
      let offset = uint port - uint (port_addr v) in
      if offset = VIRTIO_PCI_HOST_FEATURES then Some (True, s, put32 b p (op_get_host_features O' (vp_dev v)))
      else if offset = VIRTIO_PCI_QUEUE_PFN
      then map_option (\<lambda>w. (True, s, put32 b p w)) (op_get_pfn_vq O' (vp_dev v) (ucast (queue_selector v)))
      else if offset = VIRTIO_PCI_QUEUE_NUM
      then map_option (\<lambda>w. (True, s, put16 b p (ucast w))) (op_get_size_vq O' (vp_dev v) (ucast (queue_selector v)))
      else if offset = VIRTIO_PCI_STATUS then Some (True, s, put8 b p (vp_status v))
      else if offset = VIRTIO_PCI_ISR
      then Some (True, (v\<lparr> isr := VIRTIO_IRQ_LOW \<rparr>, B\<lparr> vb_host := vh_irq_line H (vb_host B) (ucast (legacy_irq_line v)) 0 \<rparr>),
                 put8 b p (isr v))
      else map_option (\<lambda>(r, b). (r, s, b)) (virtio_pci__specific_io_in O' s b p offset))"

text \<open>The search for the vector in \<^verbatim>\<open>update_msix_map\<close>.\<close>

fun find_vector :: "u32 \<Rightarrow> u32 list \<Rightarrow> u32 list \<Rightarrow> u32 option" where
  "find_vector vec (x # xs) (g # gs) = (if x = vec then Some g else find_vector vec xs gs)"
| "find_vector vec xs gs = None"

definition vector_gsi :: "'d virtio_pci \<Rightarrow> u32 \<Rightarrow> u32 option" where
  "vector_gsi v vecnum =
     (if vecnum = ucast (config_vector v) then Some (config_gsi v) else find_vector vecnum (vq_vector v) (gsis v))"

definition update_msix_map ::
    "msi_routing_ops \<Rightarrow> 'h virt_host \<Rightarrow> ('d, 'h) vpci_state \<Rightarrow> u32 \<Rightarrow> ('d, 'h) vpci_state outcome option" where
  "update_msix_map M H s vecnum =
     (case s of (v, B) \<Rightarrow>
      case vector_gsi v vecnum of
        None \<Rightarrow> Some (Returned s)
      | Some g \<Rightarrow>
          if g = 0 then Some (Returned s)
          else
            (case irq__update_msix_route M (vh_kvm H) (irqs (vb_devs B)) g (msix_msg v (unat vecnum)) of
               None \<Rightarrow> None
             | Some Died \<Rightarrow> Some Died
             | Some (Returned i) \<Rightarrow> Some (Returned (v, B\<lparr> vb_devs := (vb_devs B)\<lparr> irqs := i \<rparr> \<rparr>))))"

text \<open>
  The route for a vector that the guest has chosen. \<open>None\<close> in the inner option: the kernel signals messages directly and needs no route.
\<close>

definition msix_route ::
    "msi_routing_ops \<Rightarrow> 'h virt_host \<Rightarrow> ('d, 'h) vpci_state \<Rightarrow> u32 \<Rightarrow> (u32 option \<times> 'h virt_bus) outcome option" where
  "msix_route M H s vec =
     (case s of (v, B) \<Rightarrow>
      if unat vec \<ge> MSIX_ENTRIES then None
      else case irq__add_msix_route M (vh_kvm H) (irqs (vb_devs B)) (msix_msg v (unat vec)) (word_of_int (8 * vp_dev_num v)) of
          None \<Rightarrow> None
        | Some (g, i) \<Rightarrow>
            let B = B\<lparr> vb_devs := (vb_devs B)\<lparr> irqs := i \<rparr> \<rparr> in
            if g = - ENXIO \<and> vp_features v AND VIRTIO_PCI_F_SIGNAL_MSI \<noteq> 0 then Some (Returned (None, B))
            else if g < 0 then Some Died
            else Some (Returned (Some (word_of_int g), B)))"

definition virtio_pci__specific_io_out ::
    "msi_routing_ops \<Rightarrow> 'h virt_host \<Rightarrow> ('d, 'h) virtio_ops \<Rightarrow> ('d, 'h) vpci_state \<Rightarrow> buf \<Rightarrow> nat \<Rightarrow> int
       \<Rightarrow> (bool \<times> ('d, 'h) vpci_state) outcome option" where
  "virtio_pci__specific_io_out M H O' s b p offset =
     (case s of (v, B) \<Rightarrow>
      case virtio__get_dev_specific_field (offset - 20) (virtio_pci__msix_enabled s) of
        (_, None) \<Rightarrow>
          let w = le_word (buf_read (buf_at b p) 2) :: u16; vec = ucast w :: u32 in
          if offset = VIRTIO_MSI_CONFIG_VECTOR
          then
            let v = v\<lparr> config_vector := w \<rparr> in
            if vec = VIRTIO_MSI_NO_VECTOR then Some (Returned (True, v, B))
            else
              (case msix_route M H (v, B) vec of
                 None \<Rightarrow> None
               | Some Died \<Rightarrow> Some Died
               | Some (Returned (None, B)) \<Rightarrow> Some (Returned (True, v, B))
               | Some (Returned (Some g, B)) \<Rightarrow> Some (Returned (True, v\<lparr> config_gsi := g \<rparr>, B)))
          else if offset = VIRTIO_MSI_QUEUE_VECTOR
          then
            let q = unat (queue_selector v) in
            if q \<ge> VIRTIO_MAX_VQ then None
            else
              let v = v\<lparr> vq_vector := (vq_vector v)[q := vec] \<rparr> in
              if vec = VIRTIO_MSI_NO_VECTOR then Some (Returned (True, v, B))
              else
                (case msix_route M H (v, B) vec of
                   None \<Rightarrow> None
                 | Some Died \<Rightarrow> Some Died
                 | Some (Returned (None, B)) \<Rightarrow> Some (Returned (True, v, B))
                 | Some (Returned (Some g, B)) \<Rightarrow>
                     let v = v\<lparr> gsis := (gsis v)[q := g] \<rparr> in
                     (case op_notify_vq_gsi O' of
                        None \<Rightarrow> Some (Returned (True, v, B))
                      | Some f \<Rightarrow>
                          (case f (vp_dev v) (vb_host B) (of_nat q) g of (d, h) \<Rightarrow>
                             Some (Returned (True, v\<lparr> vp_dev := d \<rparr>, B\<lparr> vb_host := h \<rparr>)))))
          else Some (Returned (True, v, B))
      | (_, Some config_offset) \<Rightarrow>
          map_option (\<lambda>d. Returned (True, v\<lparr> vp_dev := d \<rparr>, B))
            (op_config_set O' (vp_dev v) (ucast (word_of_int config_offset :: u32)) (b p)))"

definition virtio_pci__io_out ::
    "msi_routing_ops \<Rightarrow> 'h virt_host \<Rightarrow> ('d, 'h) virtio_ops \<Rightarrow> ('d, 'h) vpci_state \<Rightarrow> u16 \<Rightarrow> buf \<Rightarrow> nat \<Rightarrow> nat
       \<Rightarrow> (bool \<times> ('d, 'h) vpci_state) outcome option" where
  "virtio_pci__io_out M H O' s port b p sz =
     (case s of (v, B) \<Rightarrow>
      let offset = uint port - uint (port_addr v);
          val32 = le_word (buf_read (buf_at b p) 4) :: u32; val16 = le_word (buf_read (buf_at b p) 2) :: u16 in
      if offset = VIRTIO_PCI_GUEST_FEATURES
      then case virtio_set_guest_features (op_set_guest_features O') (vp_vdev v) (vp_dev v) val32 of (vdev, d) \<Rightarrow>
        Some (Returned (True, v\<lparr> vp_vdev := vdev, vp_dev := d \<rparr>, B))
      else if offset = VIRTIO_PCI_QUEUE_PFN
      then
        case virtio_pci__init_ioeventfd H O' s (ucast (queue_selector v)) of
          None \<Rightarrow> None
        | Some (_, v, B) \<Rightarrow>
            map_option (\<lambda>d. Returned (True, v\<lparr> vp_dev := d \<rparr>, B)) (op_init_vq O' (vp_dev v) (ucast (queue_selector v)) 4096 4096 val32)
      else if offset = VIRTIO_PCI_QUEUE_SEL then Some (Returned (True, v\<lparr> queue_selector := val16 \<rparr>, B))
      else if offset = VIRTIO_PCI_QUEUE_NOTIFY
      then map_option (\<lambda>(d, h). Returned (True, v\<lparr> vp_dev := d \<rparr>, B\<lparr> vb_host := h \<rparr>)) (op_notify_vq O' (vp_dev v) (vb_host B) (ucast val16))
      else if offset = VIRTIO_PCI_STATUS
      then
        let v = v\<lparr> vp_status := b p \<rparr>;
            v = (if b p = 0 then v\<lparr> vp_vdev := (vp_vdev v)\<lparr> vdev_endian := vh_endianness H \<rparr> \<rparr> else v) in
        case notify_status O' (vp_dev v) (vb_host B) (b p) of (d, h) \<Rightarrow>
          Some (Returned (True, v\<lparr> vp_dev := d \<rparr>, B\<lparr> vb_host := h \<rparr>))
      else virtio_pci__specific_io_out M H O' s b p offset)"

text \<open>
  The handlers as the dispatcher of port accesses calls them, on a machine state that a fault or \<^verbatim>\<open>die\<close> ends (\<open>None\<close>).
\<close>

definition virtio_pci__io_ops ::
    "msi_routing_ops \<Rightarrow> 'h virt_host \<Rightarrow> ('d, 'h) virtio_ops \<Rightarrow> ('d, 'h) vpci_state option ioport_operations" where
  "virtio_pci__io_ops M H O' =
     \<lparr> io_in = Some (\<lambda>_ s port b p sz.
         case Option.bind s (\<lambda>s. virtio_pci__io_in H O' s port b p sz) of
           None \<Rightarrow> (False, None, b) | Some (r, s, b) \<Rightarrow> (r, Some s, b)),
       io_out = Some (\<lambda>_ s port b p sz.
         case Option.bind s (\<lambda>s. virtio_pci__io_out M H O' s port b p sz) of
           Some (Returned (r, s)) \<Rightarrow> (r, Some s, b) | _ \<Rightarrow> (False, None, b)) \<rparr>"

definition virtio_pci__io_mmio_callback ::
    "bool \<Rightarrow> ('d, 'h) vpci_state option ioport rb_int_node rbt \<Rightarrow> ('d, 'h) vpci_state option mmio_fn" where
  "virtio_pci__io_mmio_callback debug t s addr b len is_write ptr =
     (case s of
        None \<Rightarrow> (None, b)
      | Some (v, B) \<Rightarrow>
          let direction = (if is_write \<noteq> 0 then KVM_EXIT_IO_OUT else KVM_EXIT_IO_IN);
              port = port_addr v + ucast (addr AND (ucast IOPORT_SIZE - 1)) in
          snd (kvm__emulate_io debug t s port b direction (unat len) 1))"

subsection \<open>MSI-X\<close>

definition virtio_pci__msix_mmio_callback ::
    "msi_routing_ops \<Rightarrow> 'h virt_host \<Rightarrow> ('d, 'h) vpci_state \<Rightarrow> u64 \<Rightarrow> buf \<Rightarrow> u32 \<Rightarrow> bool
       \<Rightarrow> (('d, 'h) vpci_state \<times> buf) outcome option" where
  "virtio_pci__msix_mmio_callback M H s addr b len is_write =
     (case s of (v, B) \<Rightarrow>
      let pba = addr > ucast (msix_io_block v + PCI_IO_SIZE);
          offset = unat (if pba then addr - ucast (msix_io_block v + PCI_IO_SIZE) else addr - ucast (msix_io_block v));
          pos = (if pba then offset else 8 + offset);
          vecnum = offset div 16; n = unat len in
      if pba \<and> is_write then Some (Returned (s, b))
      else if pos + n > length (msix_mem v) then None
      else if \<not> is_write then Some (Returned (s, buf_put b 0 (take n (drop pos (msix_mem v)))))
      else
        let v = v\<lparr> msix_mem := take pos (msix_mem v) @ buf_read b n @ drop (pos + n) (msix_mem v) \<rparr> in
        if offset mod 16 < 12
        then (case update_msix_map M H (v, B) (of_nat vecnum) of
            None \<Rightarrow> None | Some Died \<Rightarrow> Some Died | Some (Returned s) \<Rightarrow> Some (Returned (s, b)))
        else Some (Returned ((v, B), b)))"

definition virtio_pci__signal_msi :: "'h virt_host \<Rightarrow> ('d, 'h) vpci_state \<Rightarrow> nat \<Rightarrow> 'h" where
  "virtio_pci__signal_msi H s vec =
     (case s of (v, B) \<Rightarrow>
      vh_signal_msi H (vb_host B) (msix_msg v vec)
        (if msix_needs_devid (vh_kvm H) then Some (word_of_int (8 * vp_dev_num v)) else None))"

text \<open>
  The common part of the two signals: the vector, the route for the case without direct messages, and the legacy bit. The
  pending bit is a shift of an \<^verbatim>\<open>int\<close>: bit 31 is sign-extended, and a shift by 32 or more is undefined.
\<close>

definition vpci_signal :: "'h virt_host \<Rightarrow> ('d, 'h) vpci_state \<Rightarrow> u32 \<Rightarrow> u32 \<Rightarrow> u8 \<Rightarrow> (int \<times> ('d, 'h) vpci_state) option" where
  "vpci_signal H s tbl g bit' =
     (case s of (v, B) \<Rightarrow>
      let n = unat tbl in
      if virtio_pci__msix_enabled s \<and> tbl \<noteq> VIRTIO_MSI_NO_VECTOR
      then
        let maskall = msix_cap_ctrl s AND PCI_MSIX_FLAGS_MASKALL \<noteq> 0 in
        if \<not> maskall \<and> n \<ge> MSIX_ENTRIES then None
        else if maskall \<or> msix_ctrl v n AND PCI_MSIX_ENTRY_CTRL_MASKBIT \<noteq> 0
        then
          if n \<ge> 32 then None
          else Some (0, set_pba (le_word (take 8 (msix_mem v)) OR scast (push_bit n 1 :: u32)) v, B)
        else if vp_features v AND VIRTIO_PCI_F_SIGNAL_MSI \<noteq> 0
        then Some (0, v, B\<lparr> vb_host := virtio_pci__signal_msi H s n \<rparr>)
        else Some (0, v, B\<lparr> vb_host := kvm__irq_trigger H (vb_host B) g \<rparr>)
      else Some (0, v\<lparr> isr := bit' \<rparr>, B\<lparr> vb_host := kvm__irq_trigger H (vb_host B) (ucast (legacy_irq_line v)) \<rparr>))"

definition virtio_pci__signal_vq :: "'h virt_host \<Rightarrow> ('d, 'h) vpci_state \<Rightarrow> u32 \<Rightarrow> (int \<times> ('d, 'h) vpci_state) option" where
  "virtio_pci__signal_vq H s vq =
     (if unat vq \<ge> VIRTIO_MAX_VQ then None
      else vpci_signal H s (vq_vector (fst s) ! unat vq) (gsis (fst s) ! unat vq) VIRTIO_IRQ_HIGH)"

definition virtio_pci__signal_config :: "'h virt_host \<Rightarrow> ('d, 'h) vpci_state \<Rightarrow> (int \<times> ('d, 'h) vpci_state) option" where
  "virtio_pci__signal_config H s =
     vpci_signal H s (ucast (config_vector (fst s))) (config_gsi (fst s)) VIRTIO_PCI_ISR_CONFIG"

subsection \<open>Registration\<close>

definition PCI_VENDOR_ID_REDHAT_QUMRANET :: u16 where "PCI_VENDOR_ID_REDHAT_QUMRANET = 0x1af4"
definition PCI_CAP_ID_MSIX :: u8 where "PCI_CAP_ID_MSIX = 0x11"
definition MSIX_CAP_OFFSET :: nat where "MSIX_CAP_OFFSET = 64"

text \<open>The initializer of \<^verbatim>\<open>pci_hdr\<close> with the capability that is filled in after it; the flags of the BARs are those of the code.\<close>

definition vpci_header :: "u16 \<Rightarrow> u32 \<Rightarrow> u32 \<Rightarrow> int \<Rightarrow> int \<Rightarrow> int \<Rightarrow> buf" where
  "vpci_header port mmio msix did sid cls =
     (let c = word_of_int cls :: u32; b = (\<lambda>_. 0);
          b = put16 b 0 PCI_VENDOR_ID_REDHAT_QUMRANET; b = put16 b 2 (word_of_int did); b = put16 b 4 3; b = put16 b 6 0x10;
          b = buf_put b 9 (take 3 (le_bytes 4 c)); b = put32 b 16 (ucast port); b = put32 b 20 (mmio OR 1); b = put32 b 24 msix;
          b = put16 b 44 PCI_VENDOR_ID_REDHAT_QUMRANET; b = put16 b 46 (word_of_int sid); b = put8 b 52 (of_nat MSIX_CAP_OFFSET);
          b = put32 b 256 (ucast IOPORT_SIZE); b = put32 b 260 (ucast IOPORT_SIZE); b = put32 b 264 (PCI_IO_SIZE * 2);
          b = put8 b 64 PCI_CAP_ID_MSIX; b = put8 b 65 0; b = put16 b MSIX_CTRL_OFFSET 32; b = put32 b 68 2 in
      put32 b 72 (2 OR PCI_IO_SIZE))"

definition vpci_zero :: "ptr \<Rightarrow> ptr \<Rightarrow> 'd \<Rightarrow> virtio_device \<Rightarrow> 'd virtio_pci" where
  "vpci_zero self hdr dev vdev =
     \<lparr> vp_self = self, vp_hdr = hdr, vp_dev_num = 0, port_addr = 0, mmio_addr = 0, vp_status = 0, isr = 0, vp_features = 0,
       legacy_irq_line = 0, config_vector = 0, config_gsi = 0, vq_vector = replicate VIRTIO_MAX_VQ 0,
       gsis = replicate VIRTIO_MAX_VQ 0, msix_io_block = 0, msix_mem = replicate (8 + 16 * MSIX_ENTRIES) 0, queue_selector = 0,
       vp_dev = dev, vp_vdev = vdev \<rparr>"

text \<open>The machine that registration changes: ports, memory windows, the block of PCI memory, and the bus.\<close>

record ('s, 'h) vpci_machine =
  vx_ports :: "'s ioport_state"
  vx_mmio :: "'s mmio_mapping rb_int_node rbt"
  vx_pci :: pci_state
  vx_bus :: "'h virt_bus"

definition vx_unregister :: "u16 \<Rightarrow> ('s, 'h) vpci_machine \<Rightarrow> ('s, 'h) vpci_machine option" where
  "vx_unregister port X = map_option (\<lambda>(_, s). X\<lparr> vx_ports := s \<rparr>) (ioport__unregister (vx_ports X) port)"

definition vx_deregister :: "u32 \<Rightarrow> ('s, 'h) vpci_machine \<Rightarrow> ('s, 'h) vpci_machine option" where
  "vx_deregister addr X = map_option (\<lambda>(_, t). X\<lparr> vx_mmio := t \<rparr>) (kvm__deregister_mmio (vx_mmio X) (ucast addr))"

definition vx_window :: "bool \<Rightarrow> 's mmio_fn \<Rightarrow> ptr \<Rightarrow> u32 \<Rightarrow> ('s, 'h) vpci_machine \<Rightarrow> (int \<times> u32 \<times> ('s, 'h) vpci_machine) option" where
  "vx_window malloc fn self sz X =
     (case pci_get_io_space_block (vx_pci X) sz of (addr, P) \<Rightarrow>
      map_option (\<lambda>(r, t). (r, addr, X\<lparr> vx_pci := P, vx_mmio := t \<rparr>))
        (kvm__register_mmio malloc (\<lambda>_ _. 0) 0 (vx_mmio X) (ucast addr) (ucast sz) False fn self))"

definition vx_devs :: "dev_state \<Rightarrow> ('s, 'h) vpci_machine \<Rightarrow> ('s, 'h) vpci_machine" where
  "vx_devs d X = X\<lparr> vx_ports := (vx_ports X)\<lparr> devices := d \<rparr>, vx_pci := (vx_pci X)\<lparr> pci_devs := d \<rparr>, vx_bus := (vx_bus X)\<lparr> vb_devs := d \<rparr> \<rparr>"

definition virtio_pci__init ::
    "msi_routing_ops \<Rightarrow> 'h virt_host \<Rightarrow> ptr option \<Rightarrow> bool \<Rightarrow> bool \<Rightarrow> 's ioport_operations \<Rightarrow> 's mmio_fn \<Rightarrow> 's mmio_fn
       \<Rightarrow> 'd virtio_pci \<Rightarrow> int \<Rightarrow> int \<Rightarrow> int \<Rightarrow> ('s, 'h) vpci_machine \<Rightarrow> (int \<times> 'd virtio_pci \<times> ('s, 'h) vpci_machine) option" where
  "virtio_pci__init M H m1 m2 m3 o' fn1 fn2 v did sid cls X =
     (case ioport__register m1 ((vx_ports X)\<lparr> devices := vb_devs (vx_bus X) \<rparr>) IOPORT_EMPTY o' (uint IOPORT_SIZE) (vp_self v) of
        None \<Rightarrow> None
      | Some (r, s) \<Rightarrow>
          let X = vx_devs (devices s) (X\<lparr> vx_ports := s \<rparr>) in
          if r < 0 then Some (r, v, X)
          else
            let v = v\<lparr> port_addr := word_of_int r \<rparr> in
            case vx_window m2 fn1 (vp_self v) (ucast IOPORT_SIZE) X of
              None \<Rightarrow> None
            | Some (r, addr, X) \<Rightarrow>
                let v = v\<lparr> mmio_addr := addr \<rparr> in
                if r < 0 then map_option (\<lambda>X. (r, v, X)) (vx_unregister (port_addr v) X)
                else
                  case vx_window m3 fn2 (vp_self v) (PCI_IO_SIZE * 2) X of
                    None \<Rightarrow> None
                  | Some (r, addr, X) \<Rightarrow>
                      let v = v\<lparr> msix_io_block := addr \<rparr> in
                      if r < 0
                      then Option.bind (vx_deregister (mmio_addr v) X) (\<lambda>X. map_option (\<lambda>X. (r, v, X)) (vx_unregister (port_addr v) X))
                      else
                        let hdr = \<lparr> pci_mem = vpci_header (port_addr v) (mmio_addr v) (msix_io_block v) did sid cls, irq_type = 0 \<rparr>;
                            d = vb_devs (vx_bus X); d = d\<lparr> pci_hdrs := (pci_hdrs d)(vp_hdr v := hdr) \<rparr>;
                            v = v\<lparr> config_vector := 0,
                                   vp_features := (if irq__can_signal_msi M (vh_kvm H) then vp_features v OR VIRTIO_PCI_F_SIGNAL_MSI else vp_features v) \<rparr> in
                        case device__register d \<lparr> bus_type = DEVICE_BUS_PCI, data = vp_hdr v, dev_num = 0, owner = vp_self v \<rparr> of
                          None \<Rightarrow> None
                        | Some (r, dev, d) \<Rightarrow>
                            let X = vx_devs d (X\<lparr> vx_pci := (vx_pci X)\<lparr> cfg_ops := (cfg_ops (vx_pci X))(vp_hdr v := no_cfg_ops) \<rparr> \<rparr>);
                                v = v\<lparr> vp_dev_num := dev_num dev \<rparr> in
                            if r < 0
                            then Option.bind (vx_deregister (msix_io_block v) X) (\<lambda>X. Option.bind (vx_deregister (mmio_addr v) X) (\<lambda>X.
                                   map_option (\<lambda>X. (r, v, X)) (vx_unregister (port_addr v) X)))
                            else Some (0, v\<lparr> legacy_irq_line := pci_mem (pci_hdrs d (vp_hdr v)) PCI_IRQ_LINE \<rparr>, X))"

fun vpci_del_events :: "'h virt_host \<Rightarrow> u64 \<Rightarrow> u64 \<Rightarrow> nat \<Rightarrow> nat \<Rightarrow> 'h virt_bus \<Rightarrow> 'h virt_bus" where
  "vpci_del_events H a1 a2 i 0 B = B"
| "vpci_del_events H a1 a2 i (Suc n) B = vpci_del_events H a1 a2 (Suc i) n (del_events H a2 i 1 (del_events H a1 i 1 B))"

definition virtio_pci__exit :: "'h virt_host \<Rightarrow> 'd virtio_pci \<Rightarrow> ('s, 'h) vpci_machine \<Rightarrow> (int \<times> ('s, 'h) vpci_machine) option" where
  "virtio_pci__exit H v X =
     Option.bind (vx_deregister (mmio_addr v) X) (\<lambda>X. Option.bind (vx_deregister (msix_io_block v) X) (\<lambda>X.
     map_option (\<lambda>X. (0, X\<lparr> vx_bus := vpci_del_events H (word_of_int (uint (port_addr v) + VIRTIO_PCI_QUEUE_NOTIFY))
         (ucast (mmio_addr v + 16)) 0 VIRTIO_MAX_VQ (vx_bus X) \<rparr>)) (vx_unregister (port_addr v) X)))"

subsection \<open>A programmed vector is the message that is sent\<close>

text \<open>
  The driver's side of MSI-X: a 32-bit write to a field of an entry through the memory window, and the four writes that
  program an entry and unmask it.
\<close>

definition msix_guest_write ::
    "msi_routing_ops \<Rightarrow> 'h virt_host \<Rightarrow> nat \<Rightarrow> nat \<Rightarrow> u32 \<Rightarrow> ('d, 'h) vpci_state \<Rightarrow> ('d, 'h) vpci_state outcome option" where
  "msix_guest_write M H n k w s =
     map_option (map_outcome fst)
       (virtio_pci__msix_mmio_callback M H s (ucast (msix_io_block (fst s)) + of_nat (16 * n + k)) (buf_put (\<lambda>_. 0) 0 (le_bytes 4 w)) 4 True)"

fun msix_guest_writes ::
    "msi_routing_ops \<Rightarrow> 'h virt_host \<Rightarrow> nat \<Rightarrow> (nat \<times> u32) list \<Rightarrow> ('d, 'h) vpci_state \<Rightarrow> ('d, 'h) vpci_state outcome option" where
  "msix_guest_writes M H n [] s = Some (Returned s)"
| "msix_guest_writes M H n ((k, w) # ws) s =
     (case msix_guest_write M H n k w s of Some (Returned s) \<Rightarrow> msix_guest_writes M H n ws s | r \<Rightarrow> r)"

definition msix_program ::
    "msi_routing_ops \<Rightarrow> 'h virt_host \<Rightarrow> nat \<Rightarrow> msi_msg \<Rightarrow> ('d, 'h) vpci_state \<Rightarrow> ('d, 'h) vpci_state outcome option" where
  "msix_program M H n m = msix_guest_writes M H n [(0, address_lo m), (4, address_hi m), (8, msg_data m), (12, 0)]"

definition msix_ready :: "'h virt_host \<Rightarrow> nat \<Rightarrow> ('d, 'h) vpci_state \<Rightarrow> bool" where
  "msix_ready H n s \<longleftrightarrow>
     length (msix_mem (fst s)) = 8 + 16 * MSIX_ENTRIES \<and> unat (msix_io_block (fst s)) + 512 < 2 ^ 32 \<and>
     (vector_gsi (fst s) (of_nat n) \<in> {None, Some 0} \<or> irq_routing (irqs (vb_devs (snd s))) \<noteq> None)"

lemma update_route_returns:
  assumes "irq_routing i \<noteq> None" "\<forall>t. set_gsi_routing h t = 0"
  shows "\<exists>i'. irq__update_msix_route irq__default_routing_ops h i g m = Some (Returned i') \<and> irq_routing i' \<noteq> None"
  using assms
  by (auto simp: irq__update_msix_route_def irq__default_routing_ops_def irq__update_msix_routes_def Let_def update_data_def)

lemma update_map_returns:
  assumes "msix_ready H n (v, B)" "\<forall>t. set_gsi_routing (vh_kvm H) t = 0"
  shows "\<exists>i. update_msix_map irq__default_routing_ops H (v, B) (of_nat n) = Some (Returned (v, B\<lparr> vb_devs := (vb_devs B)\<lparr> irqs := i \<rparr> \<rparr>))
     \<and> msix_ready H n (v, B\<lparr> vb_devs := (vb_devs B)\<lparr> irqs := i \<rparr> \<rparr>)"
proof (cases "vector_gsi v (of_nat n) \<in> {None, Some 0}")
  case True
  then show ?thesis using assms(1) by (intro exI [of _ "irqs (vb_devs B)"]) (auto simp: update_msix_map_def)
next
  case False
  then obtain g where g: "vector_gsi v (of_nat n) = Some g" "g \<noteq> 0" by auto
  have "irq_routing (irqs (vb_devs B)) \<noteq> None" using assms(1) False by (auto simp: msix_ready_def)
  from update_route_returns [OF this assms(2)] obtain i where
    "irq__update_msix_route irq__default_routing_ops (vh_kvm H) (irqs (vb_devs B)) g (msix_msg v (unat (of_nat n :: u32))) = Some (Returned i)"
    "irq_routing i \<noteq> None" by blast
  then show ?thesis using assms(1) g by (intro exI [of _ i]) (auto simp: update_msix_map_def msix_ready_def)
qed

definition mem_splice :: "nat \<Rightarrow> u8 list \<Rightarrow> u8 list \<Rightarrow> u8 list" where
  "mem_splice pos bs m = take pos m @ bs @ drop (pos + length bs) m"

lemma length_mem_splice [simp]: "pos + length bs \<le> length m \<Longrightarrow> length (mem_splice pos bs m) = length m"
  by (simp add: mem_splice_def)

lemma mem_splice_same: "pos + length bs \<le> length m \<Longrightarrow> take (length bs) (drop pos (mem_splice pos bs m)) = bs"
  by (simp add: mem_splice_def)

lemma mem_splice_other:
  assumes "pos + length bs \<le> length m" "p + k \<le> pos \<or> pos + length bs \<le> p"
  shows "take k (drop p (mem_splice pos bs m)) = take k (drop p m)"
  using assms by (intro nth_equalityI) (auto simp: mem_splice_def nth_append)

lemma msix_write_effect:
  assumes "msix_ready H n (v, B)" "\<forall>t. set_gsi_routing (vh_kvm H) t = 0" "n < 16" "k \<le> 12"
  shows "\<exists>i. let v' = v\<lparr> msix_mem := mem_splice (8 + 16 * n + k) (le_bytes 4 w) (msix_mem v) \<rparr>;
        B' = B\<lparr> vb_devs := (vb_devs B)\<lparr> irqs := i \<rparr> \<rparr> in
     msix_guest_write irq__default_routing_ops H n k w (v, B) = Some (Returned (v', B')) \<and> msix_ready H n (v', B')"
proof -
  let ?v = "v\<lparr> msix_mem := mem_splice (8 + 16 * n + k) (le_bytes 4 w) (msix_mem v) \<rparr>"
  let ?blk = "msix_io_block v"
  let ?addr = "ucast ?blk + of_nat (16 * n + k) :: u64"
  let ?b = "buf_put (\<lambda>_. 0) 0 (le_bytes 4 w) :: buf"
  have off: "16 * n + k \<le> 252" using assms(3,4) by simp
  have blk: "unat ?blk + 512 < 2 ^ 32" "length (msix_mem v) = 536"
    using assms(1) by (simp_all add: msix_ready_def MSIX_ENTRIES_def)
  have of': "unat (of_nat (16 * n + k) :: u64) = 16 * n + k" using off by (intro unat_of_nat64) simp
  have sub: "unat (?addr - ucast ?blk) = 16 * n + k" using of' by (simp del: of_nat_add of_nat_mult)
  have lim: "unat (ucast (?blk + PCI_IO_SIZE) :: u64) = unat ?blk + 256"
    using blk(1) by (simp add: PCI_IO_SIZE_def unat_word_ariths unsigned_ucast_eq take_bit_nat_eq_self)
  have up: "unat (ucast ?blk :: u64) = unat ?blk"
    using blk(1) by (simp add: unsigned_ucast_eq take_bit_nat_eq_self)
  have ad: "unat ?addr = unat ?blk + (16 * n + k)"
    using blk(1) off of' up by (simp add: unat_word_ariths del: of_nat_add of_nat_mult)
  have low: "\<not> ?addr > ucast (?blk + PCI_IO_SIZE)" using lim ad off by (simp add: word_less_nat_alt)
  have rd: "buf_read ?b 4 = le_bytes 4 w" by (rule nth_equalityI) (simp_all add: buf_put_def)
  have ready: "msix_ready H n (?v, B)"
    using assms(1) blk(2) off by (auto simp: msix_ready_def vector_gsi_def MSIX_ENTRIES_def split: if_splits)
  from update_map_returns [OF ready assms(2)] obtain i where
    i: "update_msix_map irq__default_routing_ops H (?v, B) (of_nat n) = Some (Returned (?v, B\<lparr> vb_devs := (vb_devs B)\<lparr> irqs := i \<rparr> \<rparr>))"
      "msix_ready H n (?v, B\<lparr> vb_devs := (vb_devs B)\<lparr> irqs := i \<rparr> \<rparr>)" by blast
  have pos: "8 + (16 * n + k) = 8 + 16 * n + k" "\<not> 8 + (16 * n + k) + 4 > length (msix_mem v)" using blk(2) off by simp_all
  have mem: "take (8 + (16 * n + k)) (msix_mem v) @ buf_read ?b 4 @ drop (12 + (16 * n + k)) (msix_mem v) =
      mem_splice (8 + 16 * n + k) (le_bytes 4 w) (msix_mem v)"
    by (simp add: rd mem_splice_def ac_simps)
  show ?thesis
  proof (cases "k < 12")
    case True
    then have "(16 * n + k) div 16 = n" "(16 * n + k) mod 16 = k" by simp_all
    then have "msix_guest_write irq__default_routing_ops H n k w (v, B) = Some (Returned (?v, B\<lparr> vb_devs := (vb_devs B)\<lparr> irqs := i \<rparr> \<rparr>))"
      using low sub pos(2) True i(1)
      by (simp add: msix_guest_write_def virtio_pci__msix_mmio_callback_def Let_def mem del: of_nat_add of_nat_mult)
    then show ?thesis using i(2) by (auto simp: Let_def)
  next
    case False
    then have "(16 * n + k) mod 16 = 12" using assms(4) by simp
    then have "msix_guest_write irq__default_routing_ops H n k w (v, B) = Some (Returned (?v, B))"
      using low sub pos(2)
      by (simp add: msix_guest_write_def virtio_pci__msix_mmio_callback_def Let_def mem del: of_nat_add of_nat_mult)
    then show ?thesis using ready by (intro exI [of _ "irqs (vb_devs B)"]) (simp add: Let_def)
  qed
qed

lemma msix_word_splice:
  assumes "length (msix_mem v) = 536" "n < 16" "k \<in> {0, 4, 8, 12}" "j \<in> {0, 4, 8, 12}"
  shows "msix_word (v\<lparr> msix_mem := mem_splice (8 + 16 * n + k) (le_bytes 4 w) (msix_mem v) \<rparr>) n j = (if j = k then w else msix_word v n j)"
proof (cases "j = k")
  case True
  then show ?thesis
    using assms mem_splice_same [of "8 + 16 * n + k" "le_bytes 4 w" "msix_mem v"] by (auto simp: msix_word_def le_word_le_bytes)
next
  case False
  then have "8 + 16 * n + j + 4 \<le> 8 + 16 * n + k \<or> 8 + 16 * n + k + length (le_bytes 4 w) \<le> 8 + 16 * n + j" using assms(3,4) by auto
  then show ?thesis
    using False assms mem_splice_other [of "8 + 16 * n + k" "le_bytes 4 w" "msix_mem v" "8 + 16 * n + j" 4] by (auto simp: msix_word_def)
qed

text \<open>What a series of writes to an entry leaves: \<open>field_after\<close> is the value of a field, the last one that was written.\<close>

fun field_after :: "(nat \<times> u32) list \<Rightarrow> nat \<Rightarrow> u32 \<Rightarrow> u32" where
  "field_after [] j w0 = w0"
| "field_after ((k, w) # ws) j w0 = field_after ws j (if j = k then w else w0)"

lemma msix_writes_effect:
  assumes "msix_ready H n (v, B)" "\<forall>t. set_gsi_routing (vh_kvm H) t = 0" "n < 16" "fst ` set ws \<subseteq> {0, 4, 8, 12}"
  shows "\<exists>m i. let v' = v\<lparr> msix_mem := m \<rparr>; B' = B\<lparr> vb_devs := (vb_devs B)\<lparr> irqs := i \<rparr> \<rparr> in
     msix_guest_writes irq__default_routing_ops H n ws (v, B) = Some (Returned (v', B')) \<and>
     (\<forall>j \<in> {0, 4, 8, 12}. msix_word v' n j = field_after ws j (msix_word v n j))"
  using assms(1,4)
proof (induction ws arbitrary: v B)
  case Nil
  show ?case by (intro exI [of _ "msix_mem v"] exI [of _ "irqs (vb_devs B)"]) simp
next
  case (Cons kw ws)
  obtain k w where kw: "kw = (k, w)" by fastforce
  then have k: "k \<in> {0, 4, 8, 12}" "k \<le> 12" using Cons.prems(2) by auto
  let ?v = "v\<lparr> msix_mem := mem_splice (8 + 16 * n + k) (le_bytes 4 w) (msix_mem v) \<rparr>"
  obtain i where i: "msix_guest_write irq__default_routing_ops H n k w (v, B) = Some (Returned (?v, B\<lparr> vb_devs := (vb_devs B)\<lparr> irqs := i \<rparr> \<rparr>))"
    "msix_ready H n (?v, B\<lparr> vb_devs := (vb_devs B)\<lparr> irqs := i \<rparr> \<rparr>)"
    using msix_write_effect [OF Cons.prems(1) assms(2,3) k(2), of w] by (auto simp: Let_def)
  have len: "length (msix_mem v) = 536" using Cons.prems(1) by (simp add: msix_ready_def MSIX_ENTRIES_def)
  have "fst ` set ws \<subseteq> {0, 4, 8, 12}" using Cons.prems(2) by auto
  from Cons.IH [OF i(2) this] obtain m i' where
    w: "msix_guest_writes irq__default_routing_ops H n ws (?v, B\<lparr> vb_devs := (vb_devs B)\<lparr> irqs := i \<rparr> \<rparr>) =
        Some (Returned (v\<lparr> msix_mem := m \<rparr>, B\<lparr> vb_devs := (vb_devs B)\<lparr> irqs := i' \<rparr> \<rparr>))"
      "\<forall>j \<in> {0, 4, 8, 12}. msix_word (v\<lparr> msix_mem := m \<rparr>) n j = field_after ws j (msix_word ?v n j)"
    by (auto simp: Let_def)
  have "\<forall>j \<in> {0, 4, 8, 12}. msix_word (v\<lparr> msix_mem := m \<rparr>) n j = field_after (kw # ws) j (msix_word v n j)"
  proof
    fix j :: nat assume j: "j \<in> {0, 4, 8, 12}"
    show "msix_word (v\<lparr> msix_mem := m \<rparr>) n j = field_after (kw # ws) j (msix_word v n j)"
      using w(2) [rule_format, OF j] by (simp add: msix_word_splice [OF len assms(3) k(1) j] kw)
  qed
  then show ?case using w(1) i(1) kw by (intro exI [of _ m] exI [of _ i']) (simp add: Let_def)
qed

text \<open>
  C14: A message that the guest programs into one of the first 16 entries of the MSI-X table is the message that is sent for the queue
  with that vector: the four writes through the memory window end regularly, whether or not the vector has a route,
  and a signal of the queue then sends exactly that message, with the number of the device where the kernel wants one, and changes nothing else.\<close>

theorem msi_programmed:
  assumes "msix_ready H n (v, B)" "\<forall>t. set_gsi_routing (vh_kvm H) t = 0" "n < 16" "unat q < VIRTIO_MAX_VQ"
    and "vq_vector v ! unat q = of_nat n" "vp_features v AND VIRTIO_PCI_F_SIGNAL_MSI \<noteq> 0"
    and "virtio_pci__msix_enabled (v, B)" "msix_cap_ctrl (v, B) AND PCI_MSIX_FLAGS_MASKALL = 0"
  shows "\<exists>v' B'. msix_program irq__default_routing_ops H n m (v, B) = Some (Returned (v', B')) \<and> vb_host B' = vb_host B \<and>
     virtio_pci__signal_vq H (v', B') q =
       Some (0, v', B'\<lparr> vb_host := vh_signal_msi H (vb_host B) m
         (if msix_needs_devid (vh_kvm H) then Some (word_of_int (8 * vp_dev_num v)) else None) \<rparr>)"
proof -
  let ?ws = "[(0, address_lo m), (4, address_hi m), (8, msg_data m), (12, 0)] :: (nat \<times> u32) list"
  obtain mm i where p: "msix_guest_writes irq__default_routing_ops H n ?ws (v, B) =
      Some (Returned (v\<lparr> msix_mem := mm \<rparr>, B\<lparr> vb_devs := (vb_devs B)\<lparr> irqs := i \<rparr> \<rparr>))"
    and w: "\<forall>j \<in> {0, 4, 8, 12}. msix_word (v\<lparr> msix_mem := mm \<rparr>) n j = field_after ?ws j (msix_word v n j)"
    using msix_writes_effect [OF assms(1-3), of ?ws] by (auto simp: Let_def simp del: msix_guest_writes.simps field_after.simps)
  let ?v = "v\<lparr> msix_mem := mm \<rparr>" and ?B = "B\<lparr> vb_devs := (vb_devs B)\<lparr> irqs := i \<rparr> \<rparr>"
  have msg: "msix_msg ?v n = m" "msix_ctrl ?v n = 0" using w by (simp_all add: msix_msg_def msix_ctrl_def)
  have cap: "msix_cap_ctrl (?v, ?B) = msix_cap_ctrl (v, B)" by (simp add: msix_cap_ctrl_def)
  have n: "unat (of_nat n :: u32) = n" "(of_nat n :: u32) \<noteq> VIRTIO_MSI_NO_VECTOR"
    using assms(3) by (auto simp: unat_of_nat VIRTIO_MSI_NO_VECTOR_def word_unat_eq_iff)
  have "virtio_pci__signal_vq H (?v, ?B) q = Some (0, ?v, ?B\<lparr> vb_host := virtio_pci__signal_msi H (?v, ?B) n \<rparr>)"
    using assms(3-8) n msg(2) cap
    by (simp add: virtio_pci__signal_vq_def vpci_signal_def Let_def virtio_pci__msix_enabled_def MSIX_ENTRIES_def)
  then show ?thesis using p msg(1) by (intro exI [of _ ?v] exI [of _ ?B]) (simp add: msix_program_def virtio_pci__signal_msi_def)
qed

text \<open>A host that logs the messages, and a device with a vector for each of two queues and MSI-X enabled.\<close>

definition msi_log_host :: "(msi_msg \<times> u32 option) list virt_host" where
  "msi_log_host = \<lparr> vh_events = \<lparr> ioctl_ioeventfd = (\<lambda>h _. (0, h)), epoll_create = (\<lambda>h. (Inr 3, h)), epoll_add = (\<lambda>h _. (0, h)),
       epoll_del = (\<lambda>h _. h), eventfd = (\<lambda>h. (4, h)), evt_write = (\<lambda>h _. (8, h)), evt_read = (\<lambda>h _. (8, h)), evt_close = (\<lambda>h _. h),
       thread_create = (\<lambda>h. (0, h)), cap_ioeventfd = True, evt_malloc = True \<rparr>,
     vh_irq_line = (\<lambda>h _ _. h), vh_signal_msi = (\<lambda>h m d. h @ [(m, d)]), vh_kvm = good_host, vh_endianness = 1 \<rparr>"

definition msi_bus :: "(msi_msg \<times> u32 option) list virt_bus" where
  "msi_bus = \<lparr> vb_devs = initial_devices\<lparr> pci_hdrs := (\<lambda>_. \<lparr> pci_mem = put16 (\<lambda>_. 0) MSIX_CTRL_OFFSET (PCI_MSIX_FLAGS_ENABLE OR 32), irq_type = 1 \<rparr>) \<rparr>,
     vb_events = \<lparr> ioeventfd_avail = True, epoll_fd = 3, epoll_stop_fd = 4, used_ioevents = [] \<rparr>, vb_host = [] \<rparr>"

definition msi_device :: "unit virtio_pci" where
  "msi_device = (vpci_zero 7 9 () \<lparr> use_vhost = False, vdev_endian = 1, features = 0 \<rparr>)
     \<lparr> msix_io_block := 0xd2000400, vp_features := 1, vq_vector := [1, 2] @ replicate 30 0xffff \<rparr>"

theorem msi_programmed_witness:
  "\<exists>v' B'. msix_program irq__default_routing_ops msi_log_host 2 \<lparr> address_lo = 0xfee00000, address_hi = 0, msg_data = 0x41 \<rparr> (msi_device, msi_bus)
       = Some (Returned (v', B')) \<and>
     virtio_pci__signal_vq msi_log_host (v', B') 1 =
       Some (0, v', B'\<lparr> vb_host := [(\<lparr> address_lo = 0xfee00000, address_hi = 0, msg_data = 0x41 \<rparr>, None)] \<rparr>)"
proof -
  have cap: "msix_cap_ctrl (msi_device, msi_bus) = 0x8020"
    using buf_read_put [of "\<lambda>_. 0" MSIX_CTRL_OFFSET "le_bytes 2 (0x8020 :: u16)"]
    by (simp add: msix_cap_ctrl_def msi_bus_def put16_def PCI_MSIX_FLAGS_ENABLE_def le_word_le_bytes)
  have "vector_gsi msi_device (of_nat 2) = Some 0"
    by (simp add: vector_gsi_def msi_device_def vpci_zero_def VIRTIO_MAX_VQ_def numeral_eq_Suc)
  then have ready: "msix_ready msi_log_host 2 (msi_device, msi_bus)"
    by (simp add: msix_ready_def msi_device_def vpci_zero_def)
  have kvm: "\<forall>t. set_gsi_routing (vh_kvm msi_log_host) t = 0" "\<not> msix_needs_devid (vh_kvm msi_log_host)"
    "vh_signal_msi msi_log_host = (\<lambda>h m d. h @ [(m, d)])" "vb_host msi_bus = []"
    by (simp_all add: msi_log_host_def good_host_def msi_bus_def)
  have dev: "vq_vector msi_device ! unat (1 :: u32) = of_nat 2" "vp_features msi_device AND VIRTIO_PCI_F_SIGNAL_MSI \<noteq> 0"
    by (simp_all add: msi_device_def vpci_zero_def VIRTIO_PCI_F_SIGNAL_MSI_def)
  have flags: "virtio_pci__msix_enabled (msi_device, msi_bus)" "msix_cap_ctrl (msi_device, msi_bus) AND PCI_MSIX_FLAGS_MASKALL = 0"
    by (simp_all add: cap virtio_pci__msix_enabled_def PCI_MSIX_FLAGS_ENABLE_def PCI_MSIX_FLAGS_MASKALL_def)
  have q: "2 < (16 :: nat)" "unat (1 :: u32) < VIRTIO_MAX_VQ" by (simp_all add: VIRTIO_MAX_VQ_def)
  show ?thesis
    using msi_programmed [OF ready kvm(1) q dev flags, of "\<lparr> address_lo = 0xfee00000, address_hi = 0, msg_data = 0x41 \<rparr>"] kvm(2-4) by auto
qed

text \<open>
  The rest of the table cannot be programmed: the header announces 33 entries, but from the seventeenth on, past its first four bytes, they share their
  addresses with the pending bits, and a write there is dropped.
\<close>

lemma table_behind_pba:
  assumes "addr > ucast (msix_io_block v + PCI_IO_SIZE)"
  shows "virtio_pci__msix_mmio_callback M H (v, B) addr b len True = Some (Returned ((v, B), b))"
  using assms by (simp add: virtio_pci__msix_mmio_callback_def Let_def)

text \<open>A masked vector below 32 is remembered and raises nothing.\<close>

lemma masked_pending:
  assumes "virtio_pci__msix_enabled (v, B)" "unat q < VIRTIO_MAX_VQ" "vq_vector v ! unat q = of_nat n" "n < 32"
    and "msix_cap_ctrl (v, B) AND PCI_MSIX_FLAGS_MASKALL \<noteq> 0 \<or> msix_ctrl v n AND PCI_MSIX_ENTRY_CTRL_MASKBIT \<noteq> 0"
  shows "\<exists>v'. virtio_pci__signal_vq H (v, B) q = Some (0, v', B) \<and> bit (le_word (take 8 (msix_mem v')) :: u64) n"
proof -
  have n: "unat (of_nat n :: u32) = n" "(of_nat n :: u32) \<noteq> VIRTIO_MSI_NO_VECTOR"
    using assms(4) by (auto simp: unat_of_nat VIRTIO_MSI_NO_VECTOR_def word_unat_eq_iff)
  let ?p = "le_word (take 8 (msix_mem v)) OR scast (push_bit n 1 :: u32) :: u64"
  have "bit ?p n" using assms(4) by (simp add: bit_or_iff bit_signed_iff bit_push_bit_iff bit_exp_iff)
  moreover have "virtio_pci__signal_vq H (v, B) q = Some (0, set_pba ?p v, B)"
    using assms n by (auto simp: virtio_pci__signal_vq_def vpci_signal_def Let_def MSIX_ENTRIES_def)
  ultimately show ?thesis by (intro exI [of _ "set_pba ?p v"]) (simp add: set_pba_def le_word_le_bytes)
qed

end
