(* ===== verification/Uip_Csum.thy ===== *)
theory Uip_Csum
  imports Kvmc_Prelude
begin

section \<open>Frames and checksums of the user-mode network (include/kvm/uip.h, src/net/csum.c)\<close>

text \<open>
  A frame is a buffer that starts with the Ethernet header; the packed structures of the header file are offsets into it. Fields are
  read and written as the integers of a little-endian host, so \<^verbatim>\<open>htons\<close> and \<^verbatim>\<open>ntohs\<close> are \<open>bswap16\<close>. \<open>inet_ok\<close> is the test that a
  receiver makes: the sum of the big-endian 16-bit words is zero in one's complement arithmetic.
\<close>

subsection \<open>Layout\<close>

abbreviation (input) ETH_DST :: nat where "ETH_DST \<equiv> 0"
abbreviation (input) ETH_SRC :: nat where "ETH_SRC \<equiv> 6"
abbreviation (input) ETH_TYPE :: nat where "ETH_TYPE \<equiv> 12"
abbreviation (input) ETH_HDRLEN :: nat where "ETH_HDRLEN \<equiv> 14"
abbreviation (input) IP_VHL :: nat where "IP_VHL \<equiv> 14"
abbreviation (input) IP_TOS :: nat where "IP_TOS \<equiv> 15"
abbreviation (input) IP_LEN :: nat where "IP_LEN \<equiv> 16"
abbreviation (input) IP_ID :: nat where "IP_ID \<equiv> 18"
abbreviation (input) IP_FLGFRAG :: nat where "IP_FLGFRAG \<equiv> 20"
abbreviation (input) IP_TTL :: nat where "IP_TTL \<equiv> 22"
abbreviation (input) IP_PROTO :: nat where "IP_PROTO \<equiv> 23"
abbreviation (input) IP_CSUM :: nat where "IP_CSUM \<equiv> 24"
abbreviation (input) IP_SIP :: nat where "IP_SIP \<equiv> 26"
abbreviation (input) IP_DIP :: nat where "IP_DIP \<equiv> 30"
abbreviation (input) L4_SPORT :: nat where "L4_SPORT \<equiv> 34"
abbreviation (input) L4_DPORT :: nat where "L4_DPORT \<equiv> 36"
abbreviation (input) ICMP_TYPE :: nat where "ICMP_TYPE \<equiv> 34"
abbreviation (input) ICMP_CSUM :: nat where "ICMP_CSUM \<equiv> 36"
abbreviation (input) UDP_LEN :: nat where "UDP_LEN \<equiv> 38"
abbreviation (input) UDP_CSUM :: nat where "UDP_CSUM \<equiv> 40"
abbreviation (input) UDP_PAYLOAD :: nat where "UDP_PAYLOAD \<equiv> 42"
abbreviation (input) TCP_SEQ :: nat where "TCP_SEQ \<equiv> 38"
abbreviation (input) TCP_ACK :: nat where "TCP_ACK \<equiv> 42"
abbreviation (input) TCP_OFF :: nat where "TCP_OFF \<equiv> 46"
abbreviation (input) TCP_FLG :: nat where "TCP_FLG \<equiv> 47"
abbreviation (input) TCP_WIN :: nat where "TCP_WIN \<equiv> 48"
abbreviation (input) TCP_CSUM :: nat where "TCP_CSUM \<equiv> 50"
abbreviation (input) TCP_URGENT :: nat where "TCP_URGENT \<equiv> 52"

definition uip_ip_hdrlen :: "buf \<Rightarrow> u16" where "uip_ip_hdrlen e = ucast (e IP_VHL AND 0x0f) * 4"
definition uip_ip_len :: "buf \<Rightarrow> u16" where "uip_ip_len e = bswap16 (get16 e IP_LEN)"
definition uip_udp_len :: "buf \<Rightarrow> u16" where "uip_udp_len e = bswap16 (get16 e UDP_LEN)"
definition uip_tcp_hdrlen :: "buf \<Rightarrow> u16" where "uip_tcp_hdrlen e = ucast (drop_bit 4 (e TCP_OFF)) * 4"
definition uip_tcp_len :: "buf \<Rightarrow> u16" where "uip_tcp_len e = uip_ip_len e - uip_ip_hdrlen e"
definition uip_tcp_payloadlen :: "buf \<Rightarrow> u16" where "uip_tcp_payloadlen e = uip_tcp_len e - uip_tcp_hdrlen e"
definition uip_tcp_payload :: "buf \<Rightarrow> nat" where "uip_tcp_payload e = L4_SPORT + unat (uip_tcp_hdrlen e)"
definition uip_tcp_is_syn :: "buf \<Rightarrow> bool" where "uip_tcp_is_syn e \<longleftrightarrow> e TCP_FLG AND 2 \<noteq> 0"
definition uip_tcp_is_fin :: "buf \<Rightarrow> bool" where "uip_tcp_is_fin e \<longleftrightarrow> e TCP_FLG AND 1 \<noteq> 0"
definition uip_tcp_isn :: "buf \<Rightarrow> u32" where "uip_tcp_isn e = bswap32 (get32 e TCP_SEQ)"

subsection \<open>Checksums\<close>

text \<open>The sum is a \<^verbatim>\<open>long\<close> that at most 32768 words of 16 bits do not fill.\<close>

fun csum_loop :: "nat \<Rightarrow> buf \<Rightarrow> nat \<Rightarrow> nat \<Rightarrow> nat" where
  "csum_loop s b p 0 = s"
| "csum_loop s b p (Suc 0) = s + unat (b p)"
| "csum_loop s b p (Suc (Suc n)) = csum_loop (s + unat (get16 b p)) b (p + 2) n"

lemma csum_split: "(s :: nat) = (s mod 65536 + s div 65536) + s div 65536 * 65535"
  using div_mult_mod_eq [of s 65536] by simp

lemma csum_less:
  assumes "s div 65536 \<noteq> (0 :: nat)"
  shows "s mod 65536 + s div 65536 < s"
proof -
  have "0 < s div 65536 * 65535" using assms by simp
  then have "s mod 65536 + s div 65536 < (s mod 65536 + s div 65536) + s div 65536 * 65535" by (rule less_add_same_cancel1 [THEN iffD2])
  then show ?thesis by (simp only: csum_split [symmetric])
qed

function csum_fold :: "nat \<Rightarrow> nat" where
  "csum_fold s = (if s div 65536 = 0 then s else csum_fold (s mod 65536 + s div 65536))"
  by pat_completeness auto
termination
proof (relation "measure id")
  fix s :: nat assume "s div 65536 \<noteq> 0"
  then show "(s mod 65536 + s div 65536, s) \<in> measure id" by (simp only: in_measure id_apply) (rule csum_less)
qed simp

declare csum_fold.simps [simp del]

definition uip_csum :: "u16 \<Rightarrow> buf \<Rightarrow> nat \<Rightarrow> u16 \<Rightarrow> u16" where
  "uip_csum csum b p count = NOT (of_nat (csum_fold (csum_loop (unat csum) b p (unat count))))"

definition uip_csum_ip :: "buf \<Rightarrow> u16" where
  "uip_csum_ip e = uip_csum 0 e IP_VHL (uip_ip_hdrlen e)"

text \<open>The length leaves out the last eight bytes of the message.\<close>

definition uip_csum_icmp :: "buf \<Rightarrow> u16 \<times> buf" where
  "uip_csum_icmp e =
     (let c = uip_csum 0 e ICMP_TYPE (bswap16 (get16 e IP_LEN) - uip_ip_hdrlen e - 8) in (c, put16 e ICMP_CSUM c))"

definition pseudo_hdr :: "buf \<Rightarrow> u16 \<Rightarrow> u8 list" where
  "pseudo_hdr e len = le_bytes 4 (get32 e IP_SIP) @ le_bytes 4 (get32 e IP_DIP) @ [0, e IP_PROTO] @ le_bytes 2 len"

text \<open>
  The pseudo header is stored behind the segment, after a zero byte when the length is odd, and is part of the sum; the buffer keeps it.
\<close>

definition csum_segment :: "buf \<Rightarrow> nat \<Rightarrow> u8 list \<Rightarrow> u16 \<times> buf" where
  "csum_segment e len hdr =
     (if len mod 2 \<noteq> 0
      then let e = buf_put (put8 e (L4_SPORT + len) 0) (L4_SPORT + len + 1) hdr in (uip_csum 0 e L4_SPORT (of_nat (len + 1 + 12)), e)
      else let e = buf_put e (L4_SPORT + len) hdr in (uip_csum 0 e L4_SPORT (of_nat (len + 12)), e))"

definition uip_csum_udp :: "buf \<Rightarrow> u16 \<times> buf" where
  "uip_csum_udp e = csum_segment e (unat (uip_udp_len e)) (pseudo_hdr e (get16 e UDP_LEN))"

definition uip_csum_tcp :: "buf \<Rightarrow> u16 \<times> buf" where
  "uip_csum_tcp e = (let tcp_len = uip_tcp_len e in csum_segment e (unat tcp_len) (pseudo_hdr e (bswap16 tcp_len)))"

subsection \<open>What a receiver checks\<close>

fun be_sum :: "u8 list \<Rightarrow> nat" where
  "be_sum [] = 0"
| "be_sum [a] = 256 * unat a"
| "be_sum (a # b # bs) = 256 * unat a + unat b + be_sum bs"

definition inet_ok :: "u8 list \<Rightarrow> bool" where
  "inet_ok bs \<longleftrightarrow> be_sum bs mod 65535 = 0"

fun le_sum :: "u8 list \<Rightarrow> nat" where
  "le_sum [] = 0"
| "le_sum [a] = unat a"
| "le_sum (a # b # bs) = unat a + 256 * unat b + le_sum bs"

lemma be_sum_le_sum: "be_sum bs mod 65535 = 256 * le_sum bs mod 65535"
proof (induction bs rule: be_sum.induct)
  case (3 a b bs)
  have "be_sum (a # b # bs) mod 65535 = (256 * unat a + unat b + 256 * le_sum bs) mod 65535"
    unfolding be_sum.simps by (rule mod_add_cong [OF refl 3])
  also have "\<dots> = ((256 * unat a + unat b + 256 * le_sum bs) + unat b * 65535) mod 65535" by (rule mod_mult_self1 [symmetric])
  also have "(256 * unat a + unat b + 256 * le_sum bs) + unat b * 65535 = 256 * le_sum (a # b # bs)" by simp
  finally show ?case .
qed simp_all

lemma mod_byte_shift: "256 * n mod 65535 = 0 \<longleftrightarrow> n mod 65535 = (0 :: nat)"
proof
  assume "256 * n mod 65535 = 0"
  then have "65535 dvd 256 * n" by (rule mod_0_imp_dvd)
  then have "65535 dvd 256 * (256 * n)" by (rule dvd_mult)
  then have "(n + n * 65535) mod 65535 = 0" by (simp add: dvd_eq_mod_eq_0)
  then show "n mod 65535 = 0" by (simp only: mod_mult_self1)
next
  assume "n mod 65535 = 0"
  then have "65535 dvd n" by (rule mod_0_imp_dvd)
  then have "65535 dvd 256 * n" by (rule dvd_mult)
  then show "256 * n mod 65535 = 0" by (rule dvd_imp_mod_0)
qed

lemma inet_ok_le: "inet_ok bs \<longleftrightarrow> le_sum bs mod 65535 = 0"
  by (simp only: inet_ok_def be_sum_le_sum mod_byte_shift)

lemma unat_byte_less: "unat (x :: u8) < 256"
proof -
  have "unat x < 2 ^ LENGTH(8)" by (rule unsigned_less)
  then show ?thesis by simp
qed

lemma two_bytes_less: "unat (x :: u8) + 256 * unat (y :: u8) < 65536"
  using unat_byte_less [of x] unat_byte_less [of y] by linarith

lemma unat_of_nat16: "n < 65536 \<Longrightarrow> unat (of_nat n :: u16) = n"
  by (simp add: unat_of_nat)

lemma two_bytes_word: "(ucast (x :: u8) :: u16) OR push_bit 8 (ucast (y :: u8)) = of_nat (unat x + 256 * unat y)"
proof -
  have "(ucast x :: u16) OR push_bit 8 (ucast y) = ucast x + push_bit 8 (ucast y)"
    by (rule disjunctive_add [symmetric]) (auto simp: bit_unsigned_iff bit_push_bit_iff dest: bit_imp_le_length)
  then show ?thesis by (simp add: push_bit_eq_mult)
qed

lemma unat_get16: "unat (get16 b p) = unat (b p) + 256 * unat (b (Suc p))"
proof -
  have "buf_read (buf_at b p) 2 = [b p, b (Suc p)]" by (simp add: buf_read_def buf_at_def upt_rec)
  then have "get16 b p = of_nat (unat (b p) + 256 * unat (b (Suc p)))"
    by (simp add: get16_def two_bytes_word del: of_nat_add of_nat_mult)
  then show ?thesis using unat_of_nat16 [OF two_bytes_less] by simp
qed

lemma buf_read_0 [simp]: "buf_read d 0 = []"
  by (simp add: buf_read_def)

lemma buf_read_Suc: "buf_read d (Suc n) = d 0 # buf_read (buf_at d 1) n"
  unfolding buf_read_def buf_at_def by (simp add: map_upt_Suc del: upt_Suc)

lemma buf_at_buf_at: "buf_at (buf_at d p) q = buf_at d (p + q)"
  by (simp add: buf_at_def add.assoc)

lemma csum_loop_sum: "csum_loop s b p n = s + le_sum (buf_read (buf_at b p) n)"
proof (induction s b p n rule: csum_loop.induct)
  case (3 s b p n)
  have "buf_read (buf_at b p) (Suc (Suc n)) = b p # b (Suc p) # buf_read (buf_at b (p + 2)) n"
    by (simp add: buf_read_Suc buf_at_buf_at) (simp add: buf_at_def)
  then show ?case using 3 by (simp add: unat_get16)
qed (simp_all add: buf_read_Suc buf_at_def)

lemma csum_fold_small: "s < 65536 \<Longrightarrow> csum_fold s = s"
  by (simp add: csum_fold.simps [of s])

lemma csum_fold_big: "\<not> s < 65536 \<Longrightarrow> csum_fold s = csum_fold (s mod 65536 + s div 65536)"
  by (subst csum_fold.simps) (simp only: Euclidean_Rings.div_eq_0_iff, simp)

lemma csum_step_mod: "(s mod 65536 + s div 65536) mod 65535 = (s :: nat) mod 65535"
proof -
  have "(r + q + q * 65535) mod 65535 = (r + q) mod 65535" for r q :: nat by (rule mod_mult_self1)
  from this [of "s mod 65536" "s div 65536"] show ?thesis by (simp only: csum_split [symmetric])
qed

lemma csum_fold_mod: "csum_fold s mod 65535 = s mod 65535"
proof (induction s rule: csum_fold.induct)
  case (1 s)
  then show ?case by (cases "s div 65536 = 0") (simp_all only: csum_fold.simps [of s] if_True if_False csum_step_mod simp_thms)
qed

lemma csum_fold_less: "csum_fold s < 65536"
proof (induction s rule: less_induct)
  case (less s)
  show ?case
  proof (cases "s < 65536")
    case True
    then show ?thesis by (simp add: csum_fold_small)
  next
    case False
    then have "s div 65536 \<noteq> 0" by (simp only: Euclidean_Rings.div_eq_0_iff) simp
    from less.IH [OF csum_less [OF this]] show ?thesis unfolding csum_fold_big [OF False] .
  qed
qed

lemma csum_fold_zero: "csum_fold s = 0 \<Longrightarrow> s = 0"
proof (induction s rule: less_induct)
  case (less s)
  show ?case
  proof (cases "s < 65536")
    case True
    then show ?thesis using less.prems by (simp add: csum_fold_small)
  next
    case False
    then have q: "s div 65536 \<noteq> 0" by (simp only: Euclidean_Rings.div_eq_0_iff) simp
    have "csum_fold (s mod 65536 + s div 65536) = 0" using less.prems unfolding csum_fold_big [OF False] .
    then have "s mod 65536 + s div 65536 = 0" by (rule less.IH [OF csum_less [OF q]])
    then have "s div 65536 = 0" by (rule add_is_0 [THEN iffD1, THEN conjunct2])
    with q show ?thesis by (rule notE)
  qed
qed

text \<open>The value of a checksum, and what storing it does to the sum.\<close>

lemma unat_not16: "n < 65536 \<Longrightarrow> unat (NOT (of_nat n) :: u16) = 65535 - n"
proof -
  assume n: "n < 65536"
  have "NOT (of_nat n :: u16) = of_nat (65535 - n)"
    using n by (simp add: not_eq_complement of_nat_diff)
  then show ?thesis using unat_of_nat16 [of "65535 - n"] by simp
qed

lemma unat_uip_csum: "unat (uip_csum 0 b p n) = 65535 - csum_fold (le_sum (buf_read (buf_at b p) (unat n)))"
  by (simp add: uip_csum_def unat_not16 csum_fold_less csum_loop_sum)

lemma csum_completes: "(unat (uip_csum 0 b p n) + le_sum (buf_read (buf_at b p) (unat n))) mod 65535 = 0"
proof -
  let ?s = "le_sum (buf_read (buf_at b p) (unat n))"
  have "(unat (uip_csum 0 b p n) + ?s) mod 65535 = (65535 - csum_fold ?s + csum_fold ?s) mod 65535"
    unfolding unat_uip_csum by (rule mod_add_cong) (simp_all only: csum_fold_mod)
  also have "65535 - csum_fold ?s + csum_fold ?s = 65535" using csum_fold_less [of ?s] by (intro le_add_diff_inverse2) simp
  finally show ?thesis by simp
qed

subsection \<open>Stored checksums are accepted\<close>

lemma le_sum_append: "even (length xs) \<Longrightarrow> le_sum (xs @ ys) = le_sum xs + le_sum ys"
  by (induction xs rule: le_sum.induct) simp_all

lemma le_sum_pad: "odd (length xs) \<Longrightarrow> le_sum (xs @ [0]) = le_sum xs"
  by (induction xs rule: le_sum.induct) simp_all

lemma buf_read_add: "buf_read b (m + n) = buf_read b m @ buf_read (buf_at b m) n"
  by (rule nth_equalityI) (auto simp: nth_append buf_at_def)

lemma le_sum_two: "le_sum (buf_read (buf_at b p) 2) = unat (get16 b p)"
  by (simp add: numeral_2_eq_2 buf_read_Suc buf_at_buf_at) (simp add: buf_at_def unat_get16)

lemma le_sum_window:
  assumes "2 * k + 2 \<le> n"
  shows "le_sum (buf_read (buf_at b p) n) = le_sum (buf_read (buf_at b p) (2 * k)) + unat (get16 b (p + 2 * k)) +
     le_sum (buf_read (buf_at b (p + 2 * k + 2)) (n - (2 * k + 2)))"
proof -
  have n: "n = 2 * k + (2 + (n - (2 * k + 2)))" using assms by simp
  have "buf_read (buf_at b p) (2 * k + (2 + m)) = buf_read (buf_at b p) (2 * k) @ buf_read (buf_at b (p + 2 * k)) 2 @
      buf_read (buf_at b (p + 2 * k + 2)) m" for m
    by (simp only: buf_read_add buf_at_buf_at)
  then show ?thesis by (subst (1) n) (simp add: le_sum_append le_sum_two)
qed

lemma le_sum_put16:
  assumes "2 * k + 2 \<le> n" "get16 b (p + 2 * k) = 0"
  shows "le_sum (buf_read (buf_at (put16 b (p + 2 * k) c) p) n) = le_sum (buf_read (buf_at b p) n) + unat c"
proof -
  let ?b = "put16 b (p + 2 * k) c"
  have "buf_read (buf_at ?b p) (2 * k) = buf_read (buf_at b p) (2 * k)"
    by (rule buf_read_cong) (simp add: put16_def buf_at_def buf_put_def)
  moreover have "buf_read (buf_at ?b (p + 2 * k + 2)) (n - (2 * k + 2)) = buf_read (buf_at b (p + 2 * k + 2)) (n - (2 * k + 2))"
    by (rule buf_read_cong) (simp add: put16_def buf_at_def buf_put_def)
  ultimately show ?thesis using assms(2) by (simp add: le_sum_window [OF assms(1)])
qed

lemma csum_stored:
  assumes "2 * k + 2 \<le> unat n" "get16 b (p + 2 * k) = 0"
  shows "inet_ok (buf_read (buf_at (put16 b (p + 2 * k) (uip_csum 0 b p n)) p) (unat n))"
  unfolding inet_ok_le le_sum_put16 [OF assms] using csum_completes [of b p n] by (simp only: add.commute)

lemma ip_csum_ok:
  assumes "e IP_VHL = 0x45" "get16 e IP_CSUM = 0"
  shows "inet_ok (buf_read (buf_at (put16 e IP_CSUM (uip_csum_ip e)) IP_VHL) 20)"
proof -
  have "uip_ip_hdrlen e = 20" by (simp add: uip_ip_hdrlen_def assms(1))
  then show ?thesis using csum_stored [of 5 "uip_ip_hdrlen e" e IP_VHL] assms(2) by (simp add: uip_csum_ip_def)
qed

lemma buf_read_within: "n \<le> m \<Longrightarrow> buf_read (buf_at (buf_put b (p + m) bs) p) n = buf_read (buf_at b p) n"
  by (rule buf_read_cong) (simp add: buf_at_def buf_put_def)

lemma buf_read_put_end: "length bs = k \<Longrightarrow> buf_read (buf_at (buf_put b (p + m) bs) p) (m + k) = buf_read (buf_at b p) m @ bs"
  using buf_read_within [of m m b p bs] buf_read_put [of b "p + m" bs] by (simp add: buf_read_add buf_at_buf_at)

lemma segment_sum:
  assumes "csum_segment e len hdr = (c, e')" "length hdr = 12" "len + 13 < 65536"
  shows "(unat c + (le_sum hdr + le_sum (buf_read (buf_at e L4_SPORT) len))) mod 65535 = 0"
    and "i < L4_SPORT + len \<Longrightarrow> e' i = e i"
proof -
  have "(unat c + (le_sum hdr + le_sum (buf_read (buf_at e L4_SPORT) len))) mod 65535 = 0 \<and> (i < L4_SPORT + len \<longrightarrow> e' i = e i)"
  proof (cases "even len")
    case True
    let ?e = "buf_put e (L4_SPORT + len) hdr"
    have c: "c = uip_csum 0 ?e L4_SPORT (of_nat (len + 12))" "e' = ?e" using assms(1) True by (auto simp: csum_segment_def Let_def)
    have "buf_read (buf_at ?e L4_SPORT) (len + 12) = buf_read (buf_at e L4_SPORT) len @ hdr"
      by (rule buf_read_put_end [OF assms(2)])
    then have "le_sum (buf_read (buf_at ?e L4_SPORT) (len + 12)) = le_sum hdr + le_sum (buf_read (buf_at e L4_SPORT) len)"
      using True by (simp add: le_sum_append)
    moreover have "unat (of_nat (len + 12) :: u16) = len + 12" using assms(3) by (intro unat_of_nat16) simp
    ultimately show ?thesis using csum_completes [of ?e L4_SPORT "of_nat (len + 12)"] c by (simp add: buf_put_def)
  next
    case False
    let ?p = "put8 e (L4_SPORT + len) 0"
    let ?e = "buf_put ?p (L4_SPORT + len + 1) hdr"
    have c: "c = uip_csum 0 ?e L4_SPORT (of_nat (len + 1 + 12))" "e' = ?e" using assms(1) False unfolding csum_segment_def Let_def odd_iff_mod_2_eq_one by (simp_all only: one_neq_zero not_False_eq_True if_True prod.inject, blast)
    have "buf_read (buf_at ?p L4_SPORT) (len + 1) = buf_read (buf_at e L4_SPORT) len @ [0]"
      by (rule nth_equalityI) (auto simp: nth_append less_Suc_eq buf_at_def put8_def buf_put_def)
    moreover have "buf_read (buf_at ?e L4_SPORT) (len + 1 + 12) = buf_read (buf_at ?p L4_SPORT) (len + 1) @ hdr"
      using buf_read_put_end [OF assms(2), of ?p L4_SPORT "len + 1"] by (simp only: add.assoc)
    ultimately have "le_sum (buf_read (buf_at ?e L4_SPORT) (len + 1 + 12)) = le_sum hdr + le_sum (buf_read (buf_at e L4_SPORT) len)"
      using False by (simp add: le_sum_append [of "buf_read _ _ @ [0]", simplified] le_sum_pad)
    moreover have "unat (of_nat (len + 1 + 12) :: u16) = len + 1 + 12" using assms(3) by (intro unat_of_nat16) simp
    ultimately show ?thesis using csum_completes [of ?e L4_SPORT "of_nat (len + 1 + 12)"] c by (simp add: buf_put_def put8_def)
  qed
  then show "(unat c + (le_sum hdr + le_sum (buf_read (buf_at e L4_SPORT) len))) mod 65535 = 0" "i < L4_SPORT + len \<Longrightarrow> e' i = e i" by auto
qed

lemma segment_csum_ok:
  assumes "csum_segment e len hdr = (c, e')" "length hdr = 12" "len + 13 < 65536" "2 * k + 2 \<le> len" "get16 e (L4_SPORT + 2 * k) = 0"
  shows "inet_ok (hdr @ buf_read (buf_at (put16 e' (L4_SPORT + 2 * k) c) L4_SPORT) len)"
proof -
  have same: "buf_read (buf_at e' L4_SPORT) len = buf_read (buf_at e L4_SPORT) len"
    using segment_sum(2) [OF assms(1-3)] by (intro buf_read_cong) (simp add: buf_at_def)
  have "get16 e' (L4_SPORT + 2 * k) = get16 e (L4_SPORT + 2 * k)"
    unfolding get16_def using segment_sum(2) [OF assms(1-3)] assms(4)
    by (intro arg_cong [of _ _ le_word] buf_read_cong) (simp add: buf_at_def)
  then have "le_sum (buf_read (buf_at (put16 e' (L4_SPORT + 2 * k) c) L4_SPORT) len) = le_sum (buf_read (buf_at e L4_SPORT) len) + unat c"
    using le_sum_put16 [OF assms(4), of e' L4_SPORT c] assms(5) same by simp
  then show ?thesis
    using segment_sum(1) [OF assms(1-3)] assms(2) by (simp add: inet_ok_le le_sum_append ac_simps)
qed

text \<open>Storing the two checksums of a frame whose IP header is already right.\<close>

lemma seal_ok:
  assumes "csum_segment e len (pseudo_hdr e l) = (c, e')" "len + 13 < 65536" "2 * k + 2 \<le> len" "get16 e (L4_SPORT + 2 * k) = 0"
    and "inet_ok (buf_read (buf_at e IP_VHL) 20)"
  defines "f \<equiv> put16 e' (L4_SPORT + 2 * k) c"
  shows "inet_ok (buf_read (buf_at f IP_VHL) 20)"
    and "inet_ok (pseudo_hdr f l @ buf_read (buf_at f L4_SPORT) len)"
    and "i < L4_SPORT + 2 * k \<or> L4_SPORT + 2 * k + 2 \<le> i \<Longrightarrow> i < L4_SPORT + len \<Longrightarrow> f i = e i"
proof -
  have hdr: "length (pseudo_hdr e l) = 12" by (simp add: pseudo_hdr_def)
  show rest: "f i = e i" if "i < L4_SPORT + 2 * k \<or> L4_SPORT + 2 * k + 2 \<le> i" "i < L4_SPORT + len" for i
    using segment_sum(2) [OF assms(1) hdr assms(2) that(2)] that(1) by (simp add: f_def buf_simps)
  have "buf_read (buf_at f IP_VHL) 20 = buf_read (buf_at e IP_VHL) 20"
    by (rule buf_read_cong) (simp add: buf_at_def rest)
  then show "inet_ok (buf_read (buf_at f IP_VHL) 20)" using assms(5) by simp
  have "pseudo_hdr f l = pseudo_hdr e l"
    unfolding pseudo_hdr_def using get_cong(2) [of f IP_SIP e] get_cong(2) [of f IP_DIP e] by (simp add: rest)
  then show "inet_ok (pseudo_hdr f l @ buf_read (buf_at f L4_SPORT) len)"
    using segment_csum_ok [OF assms(1) hdr assms(2-4)] by (simp add: f_def)
qed

end
