(* ===== verification/Uip.thy ===== *)
theory Uip
  imports Uip_Csum
begin

section \<open>Buffers, ARP, ICMP, UDP and DHCP of the user-mode network (src/net)\<close>

text \<open>
  \<open>uip_info\<close> is the state of the network: the buffers on their way to the guest, the sockets, and the addresses. A buffer is named by its
  position in the list, which never changes after \<^verbatim>\<open>uip_init\<close>. \<open>None\<close> is a step that does not return: it waits for another thread to
  give back a buffer, or it leaves a buffer or follows a null pointer. The calls on host sockets are the parameters \<open>net_host\<close> over a host state;
  a socket address is a pair of address and port in network order. Mutexes are not modelled: each operation is one step.
\<close>

datatype uip_buf_status = BUF_FREE | BUF_INUSE | BUF_USED

record uip_buf =
  ub_vnet_len :: int
  ub_eth_len :: int
  ub_status :: uip_buf_status
  ub_vnet :: buf
  ub_eth :: buf
  ub_id :: int

record uip_udp_socket =
  us_addr :: "u32 \<times> u16"
  us_dport :: u32
  us_sport :: u32
  us_dip :: u32
  us_sip :: u32
  us_fd :: int

record uip_tcp_socket =
  ts_addr :: "u32 \<times> u16"
  ts_dport :: u32
  ts_sport :: u32
  guest_acked :: u32
  window_size :: u16
  isn_server :: u32
  isn_guest :: u32
  ack_server :: u32
  seq_server :: u32
  write_done :: bool
  read_done :: bool
  ts_dip :: u32
  ts_sip :: u32
  ts_thread :: bool
  ts_fd :: int

record uip_info =
  udp_sockets :: "uip_udp_socket list"
  tcp_sockets :: "(nat \<times> uip_tcp_socket) list"
  guest_mac :: "u8 list"
  host_mac :: "u8 list"
  uip_bufs :: "uip_buf list"
  udp_thread :: bool
  udp_epollfd :: int
  buf_free_nr :: int
  buf_used_nr :: int
  guest_ip :: u32
  guest_netmask :: u32
  host_ip :: u32
  dns_ip :: "u32 list"
  domain_name :: "u8 list option"
  buf_nr :: u32
  vnet_hdr_len :: u32

record uip_tx_arg =
  arg_vnet :: buf
  arg_eth :: buf
  arg_vnet_len :: int
  arg_eth_len :: int

record 'h net_host =
  net_malloc :: "'h \<Rightarrow> nat option \<times> 'h"
  net_socket :: "'h \<Rightarrow> bool \<Rightarrow> int \<times> 'h"
  net_nonblock :: "'h \<Rightarrow> int \<Rightarrow> 'h"
  net_epoll_create :: "'h \<Rightarrow> int \<times> 'h"
  net_epoll_add :: "'h \<Rightarrow> int \<Rightarrow> int \<Rightarrow> 'h"
  net_sendto :: "'h \<Rightarrow> int \<Rightarrow> u32 \<times> u16 \<Rightarrow> u8 list \<Rightarrow> int \<Rightarrow> int \<times> 'h"
  net_connect :: "'h \<Rightarrow> int \<Rightarrow> u32 \<times> u16 \<Rightarrow> int \<times> 'h"
  net_write :: "'h \<Rightarrow> int \<Rightarrow> u8 list \<Rightarrow> int \<times> 'h"
  net_shutdown :: "'h \<Rightarrow> int \<Rightarrow> nat \<Rightarrow> 'h"
  net_close :: "'h \<Rightarrow> int \<Rightarrow> 'h"
  net_thread :: "'h \<Rightarrow> bool \<times> 'h"

abbreviation (input) ETH_BUF_SIZE :: nat where "ETH_BUF_SIZE \<equiv> 1024 * 64 + 12"

subsection \<open>Buffers (buf.c)\<close>

fun find_buf :: "uip_buf_status \<Rightarrow> uip_buf list \<Rightarrow> nat option" where
  "find_buf st [] = None"
| "find_buf st (b # bs) = (if ub_status b = st then Some 0 else map_option Suc (find_buf st bs))"

definition set_status :: "nat \<Rightarrow> uip_buf_status \<Rightarrow> uip_info \<Rightarrow> uip_info" where
  "set_status i st I = I\<lparr> uip_bufs := (uip_bufs I)[i := (uip_bufs I ! i)\<lparr> ub_status := st \<rparr>] \<rparr>"

text \<open>The inner option is the pointer that is returned.\<close>

definition uip_buf_get_used :: "uip_info \<Rightarrow> (nat option \<times> uip_info) option" where
  "uip_buf_get_used I =
     (if \<not> buf_used_nr I > 0 then None
      else case find_buf BUF_USED (uip_bufs I) of
          None \<Rightarrow> Some (None, I)
        | Some i \<Rightarrow> Some (Some i, (set_status i BUF_INUSE I)\<lparr> buf_used_nr := buf_used_nr I - 1 \<rparr>))"

definition uip_buf_get_free :: "uip_info \<Rightarrow> (nat option \<times> uip_info) option" where
  "uip_buf_get_free I =
     (if \<not> buf_free_nr I > 0 then None
      else case find_buf BUF_FREE (uip_bufs I) of
          None \<Rightarrow> Some (None, I)
        | Some i \<Rightarrow> Some (Some i, (set_status i BUF_INUSE I)\<lparr> buf_free_nr := buf_free_nr I - 1 \<rparr>))"

definition uip_buf_set_used :: "uip_info \<Rightarrow> nat \<Rightarrow> uip_info" where
  "uip_buf_set_used I i = (set_status i BUF_USED I)\<lparr> buf_used_nr := buf_used_nr I + 1 \<rparr>"

definition uip_buf_set_free :: "uip_info \<Rightarrow> nat \<Rightarrow> uip_info" where
  "uip_buf_set_free I i = (set_status i BUF_FREE I)\<lparr> buf_free_nr := buf_free_nr I + 1 \<rparr>"

definition put_buf :: "nat \<Rightarrow> uip_buf \<Rightarrow> uip_info \<Rightarrow> uip_info" where
  "put_buf i b I = I\<lparr> uip_bufs := (uip_bufs I)[i := b] \<rparr>"

definition put_eth :: "nat \<Rightarrow> buf \<Rightarrow> uip_info \<Rightarrow> uip_info" where
  "put_eth i e I = put_buf i ((uip_bufs I ! i)\<lparr> ub_eth := e \<rparr>) I"

definition uip_buf_clone :: "uip_info \<Rightarrow> uip_tx_arg \<Rightarrow> (nat \<times> uip_info) option" where
  "uip_buf_clone I arg =
     (case uip_buf_get_free I of
        Some (Some i, I) \<Rightarrow>
          if 0 \<le> arg_vnet_len arg \<and> arg_vnet_len arg \<le> uint (vnet_hdr_len I) \<and> 0 \<le> arg_eth_len arg \<and> arg_eth_len arg \<le> int ETH_BUF_SIZE
          then
            let b = uip_bufs I ! i;
                e = buf_put (ub_eth b) 0 (buf_read (arg_eth arg) (nat (arg_eth_len arg)));
                e = buf_put e ETH_SRC (host_mac I);
                e = buf_put e ETH_DST (buf_read (buf_at (arg_eth arg) ETH_SRC) 6) in
            Some (i, put_buf i (b\<lparr> ub_vnet := buf_put (ub_vnet b) 0 (buf_read (arg_vnet arg) (nat (arg_vnet_len arg))), ub_eth := e,
                                   ub_vnet_len := arg_vnet_len arg, ub_eth_len := arg_eth_len arg \<rparr>) I)
          else None
      | _ \<Rightarrow> None)"

subsection \<open>ARP and ICMP (arp.c, icmp.c)\<close>

abbreviation (input) ARP_OP :: nat where "ARP_OP \<equiv> 20"
abbreviation (input) ARP_SMAC :: nat where "ARP_SMAC \<equiv> 22"
abbreviation (input) ARP_SIP :: nat where "ARP_SIP \<equiv> 28"
abbreviation (input) ARP_DMAC :: nat where "ARP_DMAC \<equiv> 32"
abbreviation (input) ARP_DIP :: nat where "ARP_DIP \<equiv> 38"

definition uip_tx_do_arp :: "uip_info \<Rightarrow> uip_tx_arg \<Rightarrow> (int \<times> uip_info) option" where
  "uip_tx_do_arp I arg =
     (case uip_buf_clone I arg of
        None \<Rightarrow> None
      | Some (i, I) \<Rightarrow>
          let e = ub_eth (uip_bufs I ! i); a = arg_eth arg;
              e = put16 e ARP_OP (bswap16 2);
              e = buf_put e ARP_DMAC (buf_read (buf_at a ARP_SMAC) 6);
              e = put32 e ARP_DIP (get32 a ARP_SIP) in
          if get32 a ARP_DIP = bswap32 (host_ip I)
          then Some (0, uip_buf_set_used (put_eth i (put32 (buf_put e ARP_SMAC (host_mac I)) ARP_SIP (bswap32 (host_ip I))) I) i)
          else Some (0, put_eth i e I))"

definition uip_tx_do_ipv4_icmp :: "uip_info \<Rightarrow> uip_tx_arg \<Rightarrow> (int \<times> uip_info) option" where
  "uip_tx_do_ipv4_icmp I arg =
     (case uip_buf_clone I arg of
        None \<Rightarrow> None
      | Some (i, I) \<Rightarrow>
          let e = ub_eth (uip_bufs I ! i); a = arg_eth arg;
              e = put32 e IP_SIP (get32 a IP_DIP);
              e = put32 e IP_DIP (get32 a IP_SIP);
              e = put16 e IP_CSUM 0;
              e = put8 e ICMP_TYPE 0;
              e = put16 e ICMP_CSUM 0;
              e = put16 e IP_CSUM (uip_csum_ip e) in
          case uip_csum_icmp e of (c, e) \<Rightarrow>
          Some (0, uip_buf_set_used (put_eth i (put16 e ICMP_CSUM c) I) i))"

subsection \<open>UDP (udp.c)\<close>

fun find_udp :: "u32 \<Rightarrow> u32 \<Rightarrow> u16 \<Rightarrow> u16 \<Rightarrow> uip_udp_socket list \<Rightarrow> nat option" where
  "find_udp sip dip sport dport [] = None"
| "find_udp sip dip sport dport (s # ss) =
     (if us_sip s = sip \<and> us_dip s = dip \<and> us_sport s = ucast sport \<and> us_dport s = ucast dport then Some 0
      else map_option Suc (find_udp sip dip sport dport ss))"

definition uip_udp_socket_find ::
    "'h net_host \<Rightarrow> uip_info \<Rightarrow> 'h \<Rightarrow> u32 \<Rightarrow> u32 \<Rightarrow> u16 \<Rightarrow> u16 \<Rightarrow> (nat option \<times> uip_info \<times> 'h) option" where
  "uip_udp_socket_find N I h sip dip sport dport =
     (case find_udp sip dip sport dport (udp_sockets I) of
        Some i \<Rightarrow> Some (Some i, I, h)
      | None \<Rightarrow>
          (case net_malloc N h of
             (None, h) \<Rightarrow> None
           | (Some _, h) \<Rightarrow>
               (case net_socket N h False of (fd, h) \<Rightarrow>
                if fd < 0 then Some (None, I, h)
                else
                  let h = net_nonblock N h fd in
                  case (if udp_epollfd I \<le> 0 then net_epoll_create N h else (udp_epollfd I, h)) of (ep, h) \<Rightarrow>
                  let h = net_epoll_add N h ep fd;
                      sk = \<lparr> us_addr = (dip, dport), us_dport = ucast dport, us_sport = ucast sport, us_dip = dip, us_sip = sip, us_fd = fd \<rparr> in
                  Some (Some (length (udp_sockets I)), I\<lparr> udp_epollfd := ep, udp_sockets := udp_sockets I @ [sk] \<rparr>, h))))"

definition uip_udp_socket_send :: "'h net_host \<Rightarrow> 'h \<Rightarrow> uip_udp_socket \<Rightarrow> buf \<Rightarrow> int \<times> 'h" where
  "uip_udp_socket_send N h sk e =
     (let len = uint (uip_udp_len e) - 8 in
      case net_sendto N h (us_fd sk) (us_addr sk) (buf_read (buf_at e UDP_PAYLOAD) (nat len)) len of (r, h) \<Rightarrow>
      (if r \<noteq> len then - 1 else 0, h))"

text \<open>
  The frame of \<^verbatim>\<open>uip_udp_make_pkg\<close>, with the payload already in place when there is none to copy. The IP length is the sum of two numbers
  in network order.
\<close>

definition ipv4_header :: "uip_info \<Rightarrow> u8 \<Rightarrow> u32 \<Rightarrow> u32 \<Rightarrow> buf \<Rightarrow> buf" where
  "ipv4_header I proto sip dip e =
     (let e = buf_put e ETH_SRC (host_mac I);
          e = buf_put e ETH_DST (guest_mac I);
          e = put16 e ETH_TYPE (bswap16 0x0800);
          e = put8 e IP_VHL 0x45;
          e = put8 e IP_TOS 0;
          e = put16 e IP_ID 0;
          e = put16 e IP_FLGFRAG 0;
          e = put8 e IP_TTL 0x40;
          e = put8 e IP_PROTO proto;
          e = put16 e IP_CSUM 0;
          e = put32 e IP_SIP sip in
      put32 e IP_DIP dip)"

definition udp_frame :: "uip_info \<Rightarrow> uip_udp_socket \<Rightarrow> buf \<Rightarrow> u8 list option \<Rightarrow> int \<Rightarrow> buf" where
  "udp_frame I sk e payload payload_len =
     (let e = ipv4_header I 0x11 (us_dip sk) (us_sip sk) e;
          e = put16 e L4_SPORT (ucast (us_dport sk));
          e = put16 e L4_DPORT (ucast (us_sport sk));
          e = put16 e UDP_LEN (bswap16 (word_of_int (payload_len + 8)));
          e = put16 e UDP_CSUM 0;
          e = (case payload of None \<Rightarrow> e | Some p \<Rightarrow> buf_put e UDP_PAYLOAD p);
          e = put16 e IP_LEN (get16 e UDP_LEN + bswap16 (uip_ip_hdrlen e));
          e = put16 e IP_CSUM (uip_csum_ip e) in
      case uip_csum_udp e of (c, e) \<Rightarrow> put16 e UDP_CSUM c)"

definition uip_udp_make_pkg ::
    "uip_info \<Rightarrow> uip_udp_socket \<Rightarrow> nat \<Rightarrow> u8 list option \<Rightarrow> int \<Rightarrow> (int \<times> uip_info) option" where
  "uip_udp_make_pkg I sk i payload payload_len =
     (if int UDP_PAYLOAD + payload_len + (if odd payload_len then 13 else 12) > int ETH_BUF_SIZE then None
      else
        let b = uip_bufs I ! i; e = udp_frame I sk (ub_eth b) payload payload_len in
        Some (0, put_buf i (b\<lparr> ub_eth := e, ub_vnet_len := uint (vnet_hdr_len I),
                              ub_vnet := buf_put (ub_vnet b) 0 (replicate (unat (vnet_hdr_len I)) 0),
                              ub_eth_len := uint (uip_ip_len e) + 14 \<rparr>) I))"

text \<open>What the receiving thread does for one datagram from the socket at position \<open>k\<close>.\<close>

definition uip_udp_socket_thread :: "uip_info \<Rightarrow> nat \<Rightarrow> u8 list \<Rightarrow> uip_info option" where
  "uip_udp_socket_thread I k payload =
     (case uip_buf_get_free I of
        Some (Some i, I) \<Rightarrow>
          map_option (\<lambda>(_, I). uip_buf_set_used I i) (uip_udp_make_pkg I (udp_sockets I ! k) i (Some payload) (int (length payload)))
      | _ \<Rightarrow> None)"

subsection \<open>DHCP (dhcp.c)\<close>

abbreviation (input) DHCP_MSG_TYPE :: nat where "DHCP_MSG_TYPE \<equiv> 42"
abbreviation (input) DHCP_CLIENT_IP :: nat where "DHCP_CLIENT_IP \<equiv> 54"
abbreviation (input) DHCP_YOUR_IP :: nat where "DHCP_YOUR_IP \<equiv> 58"
abbreviation (input) DHCP_SERVER_IP :: nat where "DHCP_SERVER_IP \<equiv> 62"
abbreviation (input) DHCP_AGENT_IP :: nat where "DHCP_AGENT_IP \<equiv> 66"
abbreviation (input) DHCP_COOKIE :: nat where "DHCP_COOKIE \<equiv> 278"
abbreviation (input) DHCP_OPTION :: nat where "DHCP_OPTION \<equiv> 282"
abbreviation (input) DHCP_MAX_PAYLOAD :: nat where "DHCP_MAX_PAYLOAD \<equiv> 300 - 64 + 312"

definition uip_dhcp_is_discovery :: "buf \<Rightarrow> bool" where
  "uip_dhcp_is_discovery e \<longleftrightarrow> e (DHCP_OPTION + 2) = 1 \<and> e (DHCP_OPTION + 1) = 1 \<and> e DHCP_OPTION = 53"

definition uip_dhcp_is_request :: "buf \<Rightarrow> bool" where
  "uip_dhcp_is_request e \<longleftrightarrow> e (DHCP_OPTION + 2) = 3 \<and> e (DHCP_OPTION + 1) = 1 \<and> e DHCP_OPTION = 53"

definition uip_udp_is_dhcp :: "buf \<Rightarrow> bool" where
  "uip_udp_is_dhcp e \<longleftrightarrow>
     bswap16 (get16 e L4_SPORT) = 68 \<and> bswap16 (get16 e L4_DPORT) = 67 \<and> bswap32 (get32 e DHCP_COOKIE) = 0x63825363"

text \<open>
  \<open>resolv\<close> are the pairs of words of \<^verbatim>\<open>/etc/resolv.conf\<close>, \<open>None\<close> when it cannot be opened, and \<open>inet_aton\<close> is the library function.
\<close>

fun get_dns_loop :: "(string \<Rightarrow> u32 option) \<Rightarrow> (string \<times> string) list \<Rightarrow> nat \<Rightarrow> int \<Rightarrow> uip_info \<Rightarrow> int \<times> uip_info" where
  "get_dns_loop aton [] n ret I = (ret, I)"
| "get_dns_loop aton ((key, val) # ls) n ret I =
     (if take 6 key = ''domain'' then get_dns_loop aton ls n ret (I\<lparr> domain_name := Some (map of_char (take 256 val)) \<rparr>)
      else if take 10 key = ''nameserver''
      then
        case aton val of
          None \<Rightarrow> get_dns_loop aton ls n ret I
        | Some a \<Rightarrow>
            if n < 3 then get_dns_loop aton ls (Suc n) 0 (I\<lparr> dns_ip := (dns_ip I)[n := bswap32 a] \<rparr>)
            else get_dns_loop aton ls n 0 I
      else get_dns_loop aton ls n ret I)"

definition uip_dhcp_get_dns :: "(string \<Rightarrow> u32 option) \<Rightarrow> (string \<times> string) list option \<Rightarrow> uip_info \<Rightarrow> int \<times> uip_info" where
  "uip_dhcp_get_dns aton resolv I = (case resolv of None \<Rightarrow> (- 1, I) | Some ls \<Rightarrow> get_dns_loop aton ls 0 (- 1) I)"

definition be4 :: "u32 \<Rightarrow> u8 list" where "be4 w = le_bytes 4 (bswap32 w)"

definition uip_dhcp_fill_option_name_and_server :: "uip_info \<Rightarrow> u8 list" where
  "uip_dhcp_fill_option_name_and_server I =
     (case domain_name I of None \<Rightarrow> [] | Some d \<Rightarrow> let n = length d mod 256 in [15, of_nat n] @ take n d) @
     concat (map (\<lambda>ip. if ip = 0 then [] else [6, 4] @ be4 ip) (take 3 (dns_ip I)))"

definition uip_dhcp_fill_option :: "uip_info \<Rightarrow> u8 \<Rightarrow> u8 list" where
  "uip_dhcp_fill_option I reply_msg_type =
     [53, 1, reply_msg_type] @ [54, 4] @ be4 (host_ip I) @ [51, 4] @ be4 0x00003840 @ [1, 4] @ be4 (guest_netmask I) @
     [3, 4] @ be4 (host_ip I) @ [17, 7] @ map of_char ''0.0.0.0'' @ uip_dhcp_fill_option_name_and_server I @ [255]"

definition uip_dhcp_make_pkg :: "uip_info \<Rightarrow> buf \<Rightarrow> u8 \<Rightarrow> buf \<times> uip_udp_socket" where
  "uip_dhcp_make_pkg I e reply_msg_type =
     (let e = put8 e DHCP_MSG_TYPE 2;
          e = put32 e DHCP_CLIENT_IP 0;
          e = put32 e DHCP_YOUR_IP (bswap32 (guest_ip I));
          e = put32 e DHCP_SERVER_IP (bswap32 (host_ip I));
          e = put32 e DHCP_AGENT_IP 0;
          e = buf_put e DHCP_OPTION (uip_dhcp_fill_option I reply_msg_type) in
      (e, \<lparr> us_addr = (0, 0), us_dport = ucast (bswap16 67), us_sport = ucast (bswap16 68),
            us_dip = bswap32 (host_ip I), us_sip = bswap32 (guest_ip I), us_fd = 0 \<rparr>))"

definition uip_tx_do_ipv4_udp_dhcp :: "uip_info \<Rightarrow> uip_tx_arg \<Rightarrow> (int \<times> uip_info) option" where
  "uip_tx_do_ipv4_udp_dhcp I arg =
     (let a = arg_eth arg;
          reply = (if uip_dhcp_is_discovery a then Some 2 else if uip_dhcp_is_request a then Some 5 else None) in
      case reply of
        None \<Rightarrow> Some (- 1, I)
      | Some t \<Rightarrow>
          (case uip_buf_clone I arg of
             None \<Rightarrow> None
           | Some (i, I) \<Rightarrow>
               (case uip_dhcp_make_pkg I (ub_eth (uip_bufs I ! i)) t of (e, sk) \<Rightarrow>
                map_option (\<lambda>(_, I). (0, uip_buf_set_used I i))
                  (uip_udp_make_pkg (put_eth i e I) sk i None (int DHCP_MAX_PAYLOAD)))))"

definition uip_tx_do_ipv4_udp :: "'h net_host \<Rightarrow> uip_info \<Rightarrow> 'h \<Rightarrow> uip_tx_arg \<Rightarrow> (int \<times> uip_info \<times> 'h) option" where
  "uip_tx_do_ipv4_udp N I h arg =
     (let a = arg_eth arg in
      if uip_udp_is_dhcp a then map_option (\<lambda>(_, I). (0, I, h)) (uip_tx_do_ipv4_udp_dhcp I arg)
      else
        case uip_udp_socket_find N I h (get32 a IP_SIP) (get32 a IP_DIP) (get16 a L4_SPORT) (get16 a L4_DPORT) of
          None \<Rightarrow> None
        | Some (None, I, h) \<Rightarrow> Some (- 1, I, h)
        | Some (Some k, I, h) \<Rightarrow>
            (case uip_udp_socket_send N h (udp_sockets I ! k) a of (r, h) \<Rightarrow>
             if r \<noteq> 0 then Some (- 1, I, h)
             else if \<not> udp_thread I then (case net_thread N h of (ok, h) \<Rightarrow> Some (0, I\<lparr> udp_thread := ok \<rparr>, h))
             else Some (0, I, h)))"

subsection \<open>UDP frames are valid\<close>

lemma ipv4_header_fields:
  fixes e :: buf and proto :: u8 and sip dip :: u32
  assumes "length (host_mac I) = 6" "length (guest_mac I) = 6"
  defines "h \<equiv> ipv4_header I proto sip dip e"
  shows "h IP_VHL = 0x45" "h IP_PROTO = proto" "get16 h IP_CSUM = 0" "get32 h IP_SIP = sip" "get32 h IP_DIP = dip"
    "buf_read (buf_at h ETH_DST) 6 = guest_mac I" "buf_read (buf_at h ETH_SRC) 6 = host_mac I" "get16 h ETH_TYPE = bswap16 0x0800"
proof -
  show "h IP_VHL = 0x45" "h IP_PROTO = proto" "get16 h IP_CSUM = 0" "get32 h IP_SIP = sip" "get32 h IP_DIP = dip"
    "get16 h ETH_TYPE = bswap16 0x0800"
    by (simp_all add: h_def ipv4_header_def Let_def buf_simps)
  have "buf_read (buf_at h 0) 6 = buf_read (buf_at (buf_put (buf_put e 6 (host_mac I)) 0 (guest_mac I)) 0) 6"
    by (rule buf_read_cong) (simp add: h_def ipv4_header_def Let_def buf_at_def buf_simps)
  then show "buf_read (buf_at h ETH_DST) 6 = guest_mac I" using assms(2) by simp
  have "buf_read (buf_at h 6) 6 = buf_read (buf_at (buf_put e 6 (host_mac I)) 6) 6"
    using assms(2) by (intro buf_read_cong) (simp add: h_def ipv4_header_def Let_def buf_at_def buf_simps)
  then show "buf_read (buf_at h ETH_SRC) 6 = host_mac I" using assms(1) by simp
qed

lemma unat_bswap16: "unat (bswap16 w) = 256 * (unat w mod 256) + unat w div 256"
proof -
  have bytes: "le_bytes 2 w = [ucast w, ucast (drop_bit 8 w)]" by (simp add: le_bytes_def upt_rec)
  have "bswap16 w = of_nat (unat (ucast (drop_bit 8 w) :: u8) + 256 * unat (ucast w :: u8))"
    by (simp add: bswap16_def bytes two_bytes_word del: of_nat_add of_nat_mult)
  then have "unat (bswap16 w) = unat (ucast (drop_bit 8 w) :: u8) + 256 * unat (ucast w :: u8)"
    using unat_of_nat16 [OF two_bytes_less] by simp
  moreover have "unat (ucast w :: u8) = unat w mod 256" by (simp add: unsigned_ucast_eq take_bit_eq_mod)
  moreover have "unat (ucast (drop_bit 8 w) :: u8) = unat w div 256"
  proof -
    have "unat w < 2 ^ LENGTH(16)" by (rule unsigned_less)
    then show ?thesis by (simp add: unsigned_ucast_eq take_bit_nat_eq_self unat_drop_bit_div div_less_iff_less_mult)
  qed
  ultimately show ?thesis by simp
qed

text \<open>The sum of two lengths in network order loses the carry between the bytes.\<close>

lemma carry_lost:
  assumes "l < 256" "h < 256"
  shows "(256 * l + h + 5120) mod 65536 = 256 * (if l < 236 then l + 20 else l - 236) + (h :: nat)"
proof (cases "l < 236")
  case True
  then have "256 * l + h + 5120 < 65536" using assms(2) by linarith
  then show ?thesis using True by simp
next
  case False
  then have "256 * l + h + 5120 = (256 * (l - 236) + h) + 1 * 65536" by linarith
  moreover have "256 * (l - 236) + h < 65536" using assms by linarith
  ultimately show ?thesis using False by (simp only: mod_mult_self1 mod_less if_False)
qed

lemma swapped_sum:
  assumes "unat a < 65516"
  shows "unat (bswap16 (bswap16 a + bswap16 20)) = (if unat a mod 256 < 236 then unat a + 20 else unat a + 20 - 256)"
proof -
  define h l where "h = unat a div 256" and "l = unat a mod 256"
  define y where "y = (if l < 236 then l + 20 else l - 236)"
  have a: "unat a = 256 * h + l" by (simp add: h_def l_def)
  have hl: "l < 256" "h < 256" using assms by (simp_all add: h_def l_def div_less_iff_less_mult)
  have s: "unat (bswap16 a) = 256 * l + h" "unat (bswap16 20) = 5120" by (simp_all add: unat_bswap16 h_def l_def)
  have "unat (bswap16 a + bswap16 20) = (256 * l + h + 5120) mod 65536" by (simp add: unat_word_ariths s)
  then have u: "unat (bswap16 a + bswap16 20) = 256 * y + h" unfolding y_def by (simp only: carry_lost [OF hl])
  have "(256 * y + h) mod 256 = h" "(256 * y + h) div 256 = y" using hl(2) by simp_all
  then have "unat (bswap16 (bswap16 a + bswap16 20)) = 256 * h + y" by (simp only: unat_bswap16 u)
  also have "\<dots> = (if l < 236 then unat a + 20 else unat a + 20 - 256)" unfolding a y_def by simp
  finally show ?thesis by (simp only: l_def)
qed

lemma udp_frame_ok:
  fixes e :: buf and sk :: uip_udp_socket
  assumes "length (host_mac I) = 6" "length (guest_mac I) = 6" "n \<le> 65507" "\<forall>p. payload = Some p \<longrightarrow> length p = n"
  defines "f \<equiv> udp_frame I sk e payload (int n)"
  shows "inet_ok (buf_read (buf_at f IP_VHL) 20)"
    and "inet_ok (pseudo_hdr f (get16 f UDP_LEN) @ buf_read (buf_at f L4_SPORT) (n + 8))"
    and "uip_udp_len f = of_nat (n + 8)"
    and "unat (uip_ip_len f) = (if (n + 8) mod 256 < 236 then n + 28 else n + 28 - 256)"
    and "buf_read (buf_at f UDP_PAYLOAD) n = (case payload of None \<Rightarrow> buf_read (buf_at e UDP_PAYLOAD) n | Some p \<Rightarrow> p)"
    and "get32 f IP_SIP = us_dip sk" "get32 f IP_DIP = us_sip sk"
    and "get16 f L4_SPORT = ucast (us_dport sk)" "get16 f L4_DPORT = ucast (us_sport sk)"
proof -
  define a where "a = ipv4_header I 0x11 (us_dip sk) (us_sip sk) e"
  define b where "b = put16 (put16 (put16 (put16 a L4_SPORT (ucast (us_dport sk))) L4_DPORT (ucast (us_sport sk))) UDP_LEN
      (bswap16 (word_of_int (int n + 8)))) UDP_CSUM 0"
  define d where "d = (case payload of None \<Rightarrow> b | Some p \<Rightarrow> buf_put b UDP_PAYLOAD p)"
  define g where "g = put16 d IP_LEN (get16 d UDP_LEN + bswap16 (uip_ip_hdrlen d))"
  define k where "k = put16 g IP_CSUM (uip_csum_ip g)"
  have low: "d i = b i" if "i < UDP_PAYLOAD" for i using that by (auto simp: d_def buf_simps split: option.splits)
  have low16: "get16 d i = get16 b i" if "i + 2 \<le> UDP_PAYLOAD" for i using that low by (intro get_cong) simp
  note hf = ipv4_header_fields [OF assms(1,2), where proto = "0x11" and sip = "us_dip sk" and dip = "us_sip sk" and e = e, folded a_def]
  have len: "word_of_int (int n + 8) = (of_nat (n + 8) :: u16)" by simp
  have un: "unat (of_nat (n + 8) :: u16) = n + 8" using assms(3) by (intro unat_of_nat16) simp
  have g1: "g IP_VHL = 0x45" "get16 g IP_CSUM = 0" "get16 g UDP_LEN = bswap16 (of_nat (n + 8))"
    using hf by (simp_all add: g_def low low16 b_def buf_simps len)
  have hdr: "uip_ip_hdrlen d = 20" using hf(1) by (simp add: uip_ip_hdrlen_def low b_def buf_simps)
  have ip: "inet_ok (buf_read (buf_at k IP_VHL) 20)" unfolding k_def by (rule ip_csum_ok [OF g1(1,2)])
  have klen: "uip_udp_len k = of_nat (n + 8)" using g1(3) by (simp add: uip_udp_len_def k_def buf_simps)
  have kc: "get16 k UDP_CSUM = 0" by (simp add: k_def g_def low16 b_def buf_simps)
  obtain c e' where cs: "csum_segment k (n + 8) (pseudo_hdr k (get16 k UDP_LEN)) = (c, e')" by fastforce
  have f: "f = put16 e' (L4_SPORT + 2 * 3) c"
    using cs klen un
    by (simp add: f_def udp_frame_def Let_def uip_csum_udp_def a_def b_def d_def g_def k_def split: option.splits)
  have cs': "csum_segment k (n + 8) (pseudo_hdr k (get16 k UDP_LEN)) = (c, e')" "n + 8 + 13 < 65536" "2 * 3 + 2 \<le> n + 8"
    "get16 k (L4_SPORT + 2 * 3) = 0" using cs assms(3) kc by simp_all
  note seal = seal_ok [OF cs' ip, folded f]
  have same: "f i = k i" if "i < UDP_CSUM \<or> UDP_PAYLOAD \<le> i" "i < UDP_PAYLOAD + n" for i
    using seal(3) [of i] that by simp
  have same16: "get16 f i = get16 k i" if "i + 2 \<le> UDP_CSUM" for i using that same by (intro get_cong) simp
  have same32: "get32 f i = get32 k i" if "i + 4 \<le> UDP_CSUM" for i using that same by (intro get_cong) simp
  show "inet_ok (buf_read (buf_at f IP_VHL) 20)" by (rule seal(1))
  show "inet_ok (pseudo_hdr f (get16 f UDP_LEN) @ buf_read (buf_at f L4_SPORT) (n + 8))" using seal(2) same16 [of UDP_LEN] by simp
  show "uip_udp_len f = of_nat (n + 8)" using klen same16 [of UDP_LEN] by (simp add: uip_udp_len_def)
  have "get16 f IP_LEN = bswap16 (of_nat (n + 8)) + bswap16 20"
    using same16 [of IP_LEN] by (simp add: k_def g_def hdr low16 b_def len buf_simps)
  then show "unat (uip_ip_len f) = (if (n + 8) mod 256 < 236 then n + 28 else n + 28 - 256)"
    using swapped_sum [of "of_nat (n + 8)"] un assms(3) by (simp add: uip_ip_len_def del: of_nat_add)
  show "buf_read (buf_at f UDP_PAYLOAD) n = (case payload of None \<Rightarrow> buf_read (buf_at e UDP_PAYLOAD) n | Some p \<Rightarrow> p)"
  proof -
    have "buf_read (buf_at f UDP_PAYLOAD) n = buf_read (buf_at d UDP_PAYLOAD) n"
      by (rule buf_read_cong) (simp add: buf_at_def same k_def g_def buf_simps)
    also have "\<dots> = (case payload of None \<Rightarrow> buf_read (buf_at e UDP_PAYLOAD) n | Some p \<Rightarrow> p)"
    proof (cases payload)
      case None
      have "buf_read (buf_at b UDP_PAYLOAD) n = buf_read (buf_at e UDP_PAYLOAD) n"
        using assms(1,2) by (intro buf_read_cong) (simp add: buf_at_def b_def a_def ipv4_header_def Let_def buf_simps)
      then show ?thesis using None by (simp add: d_def)
    next
      case (Some p)
      then show ?thesis using assms(4) by (simp add: d_def)
    qed
    finally show ?thesis .
  qed
  have low32: "get32 d i = get32 b i" if "i + 4 \<le> UDP_PAYLOAD" for i using that low by (intro get_cong) simp
  show "get32 f IP_SIP = us_dip sk" "get32 f IP_DIP = us_sip sk"
    using hf(4,5) by (simp_all add: same32 k_def g_def low32 b_def buf_simps)
  show "get16 f L4_SPORT = ucast (us_dport sk)" "get16 f L4_DPORT = ucast (us_sport sk)"
    by (simp_all add: same16 k_def g_def low16 b_def buf_simps)
qed

subsection \<open>The buffer counters are exact\<close>

definition buf_count :: "uip_buf_status \<Rightarrow> uip_info \<Rightarrow> int" where
  "buf_count st I = int (length (filter (\<lambda>b. ub_status b = st) (uip_bufs I)))"

definition uip_inv :: "uip_info \<Rightarrow> bool" where
  "uip_inv I \<longleftrightarrow> buf_free_nr I = buf_count BUF_FREE I \<and> buf_used_nr I = buf_count BUF_USED I \<and>
     length (host_mac I) = 6 \<and> length (guest_mac I) = 6"

definition held :: "nat \<Rightarrow> uip_info \<Rightarrow> bool" where
  "held i I \<longleftrightarrow> i < length (uip_bufs I) \<and> ub_status (uip_bufs I ! i) = BUF_INUSE"

lemma find_buf_Some: "find_buf st bs = Some i \<Longrightarrow> i < length bs \<and> ub_status (bs ! i) = st"
  by (induction bs arbitrary: i) (auto split: if_splits)

lemma find_buf_None: "find_buf st bs = None \<longleftrightarrow> filter (\<lambda>b. ub_status b = st) bs = []"
  by (induction bs) auto

lemma filter_update:
  assumes "i < length xs"
  shows "int (length (filter P (xs[i := x]))) = int (length (filter P xs)) - (if P (xs ! i) then 1 else 0) + (if P x then 1 else 0)"
  using assms
proof (induction xs arbitrary: i)
  case (Cons a xs)
  show ?case
  proof (cases i)
    case (Suc j)
    then show ?thesis using Cons.IH [of j] Cons.prems by (auto split: if_splits)
  qed simp
qed simp

lemma put_buf_count:
  assumes "i < length (uip_bufs I)"
  shows "buf_count st (put_buf i b I) =
     buf_count st I - (if ub_status (uip_bufs I ! i) = st then 1 else 0) + (if ub_status b = st then 1 else 0)"
  using filter_update [OF assms] by (simp add: buf_count_def put_buf_def)

lemma put_buf_inv:
  assumes "uip_inv I" "held i I" "ub_status b = BUF_INUSE"
  shows "uip_inv (put_buf i b I)" "held i (put_buf i b I)"
  using assms by (auto simp: uip_inv_def held_def put_buf_count) (simp_all add: put_buf_def)

lemma put_eth_inv:
  assumes "uip_inv I" "held i I"
  shows "uip_inv (put_eth i e I)" "held i (put_eth i e I)"
  using put_buf_inv [OF assms, of "(uip_bufs I ! i)\<lparr> ub_eth := e \<rparr>"] assms(2) by (simp_all add: put_eth_def held_def)

lemma set_status_buf: "set_status i st I = put_buf i ((uip_bufs I ! i)\<lparr> ub_status := st \<rparr>) I"
  by (simp add: set_status_def put_buf_def)

lemma count_counters [simp]:
  "buf_count st (I\<lparr> buf_free_nr := n \<rparr>) = buf_count st I" "buf_count st (I\<lparr> buf_used_nr := n \<rparr>) = buf_count st I"
  by (simp_all add: buf_count_def)

lemma get_free_cases:
  assumes "uip_inv I"
  obtains (waits) "uip_buf_get_free I = None" "buf_count BUF_FREE I = 0"
  | (gets) i I' where "uip_buf_get_free I = Some (Some i, I')" "uip_inv I'" "held i I'" "ub_status (uip_bufs I ! i) = BUF_FREE"
      "find_buf BUF_FREE (uip_bufs I) = Some i" "I' = (put_buf i ((uip_bufs I ! i)\<lparr> ub_status := BUF_INUSE \<rparr>) I)\<lparr> buf_free_nr := buf_free_nr I - 1 \<rparr>"
proof (cases "find_buf BUF_FREE (uip_bufs I)")
  case None
  then have "buf_count BUF_FREE I = 0" by (simp add: find_buf_None buf_count_def)
  then show ?thesis using assms waits by (simp add: uip_buf_get_free_def uip_inv_def)
next
  case (Some i)
  note i = find_buf_Some [OF Some]
  have "filter (\<lambda>b. ub_status b = BUF_FREE) (uip_bufs I) \<noteq> []" using Some find_buf_None by force
  then have pos: "buf_free_nr I > 0" using assms by (simp add: uip_inv_def buf_count_def)
  let ?I = "(put_buf i ((uip_bufs I ! i)\<lparr> ub_status := BUF_INUSE \<rparr>) I)\<lparr> buf_free_nr := buf_free_nr I - 1 \<rparr>"
  have "uip_inv ?I" using assms i by (simp add: uip_inv_def put_buf_count) (simp add: put_buf_def)
  moreover have "held i ?I" using i by (simp add: held_def put_buf_def)
  ultimately show ?thesis using gets [of i ?I] Some pos i by (simp add: uip_buf_get_free_def set_status_buf)
qed

lemma get_used_cases:
  assumes "uip_inv I"
  obtains (waits) "uip_buf_get_used I = None" "buf_count BUF_USED I = 0"
  | (gets) i I' where "uip_buf_get_used I = Some (Some i, I')" "uip_inv I'" "held i I'" "ub_status (uip_bufs I ! i) = BUF_USED"
      "I' = (put_buf i ((uip_bufs I ! i)\<lparr> ub_status := BUF_INUSE \<rparr>) I)\<lparr> buf_used_nr := buf_used_nr I - 1 \<rparr>"
proof (cases "find_buf BUF_USED (uip_bufs I)")
  case None
  then have "buf_count BUF_USED I = 0" by (simp add: find_buf_None buf_count_def)
  then show ?thesis using assms waits by (simp add: uip_buf_get_used_def uip_inv_def)
next
  case (Some i)
  note i = find_buf_Some [OF Some]
  have "filter (\<lambda>b. ub_status b = BUF_USED) (uip_bufs I) \<noteq> []" using Some find_buf_None by force
  then have pos: "buf_used_nr I > 0" using assms by (simp add: uip_inv_def buf_count_def)
  let ?I = "(put_buf i ((uip_bufs I ! i)\<lparr> ub_status := BUF_INUSE \<rparr>) I)\<lparr> buf_used_nr := buf_used_nr I - 1 \<rparr>"
  have "uip_inv ?I" using assms i by (simp add: uip_inv_def put_buf_count) (simp add: put_buf_def)
  moreover have "held i ?I" using i by (simp add: held_def put_buf_def)
  ultimately show ?thesis using gets [of i ?I] Some pos i by (simp add: uip_buf_get_used_def set_status_buf)
qed

lemma set_used_inv: "uip_inv I \<Longrightarrow> held i I \<Longrightarrow> uip_inv (uip_buf_set_used I i)"
  by (simp add: uip_inv_def held_def uip_buf_set_used_def set_status_buf put_buf_count) (simp add: put_buf_def)

lemma set_free_inv: "uip_inv I \<Longrightarrow> held i I \<Longrightarrow> uip_inv (uip_buf_set_free I i)"
  by (simp add: uip_inv_def held_def uip_buf_set_free_def set_status_buf put_buf_count) (simp add: put_buf_def)

lemma clone_inv:
  assumes "uip_inv I" "uip_buf_clone I arg = Some (i, I')"
  shows "uip_inv I' \<and> held i I'"
  using assms(1)
proof (cases rule: get_free_cases)
  case waits
  then show ?thesis using assms(2) by (simp add: uip_buf_clone_def)
next
  case (gets j J)
  have "ub_status (uip_bufs J ! j) = BUF_INUSE" using gets(3) by (simp add: held_def)
  then show ?thesis using assms(2) gets put_buf_inv [OF gets(2,3)] by (auto simp: uip_buf_clone_def Let_def split: if_splits)
qed

lemma reply_inv:
  assumes "uip_inv I" "uip_buf_clone I arg = Some (i, J)" "I' = put_eth i e J \<or> I' = uip_buf_set_used (put_eth i e J) i"
  shows "uip_inv I'"
proof -
  have "uip_inv J" "held i J" using clone_inv [OF assms(1,2)] by auto
  then have "uip_inv (put_eth i e J)" "held i (put_eth i e J)" by (simp_all add: put_eth_inv)
  then show ?thesis using assms(3) set_used_inv by auto
qed

lemma arp_inv:
  assumes "uip_inv I" "uip_tx_do_arp I arg = Some (r, I')"
  shows "uip_inv I'"
proof -
  obtain i J where c: "uip_buf_clone I arg = Some (i, J)" using assms(2) by (auto simp: uip_tx_do_arp_def split: option.splits)
  have "\<exists>e. I' = put_eth i e J \<or> I' = uip_buf_set_used (put_eth i e J) i"
    using assms(2) by (simp add: uip_tx_do_arp_def c Let_def split: if_splits) blast+
  then show ?thesis using reply_inv [OF assms(1) c] by blast
qed

lemma icmp_inv:
  assumes "uip_inv I" "uip_tx_do_ipv4_icmp I arg = Some (r, I')"
  shows "uip_inv I'"
proof -
  obtain i J where c: "uip_buf_clone I arg = Some (i, J)" using assms(2) by (auto simp: uip_tx_do_ipv4_icmp_def split: option.splits)
  have "\<exists>e. I' = uip_buf_set_used (put_eth i e J) i"
    using assms(2) by (simp add: uip_tx_do_ipv4_icmp_def c Let_def split: prod.splits) blast
  then show ?thesis using reply_inv [OF assms(1) c] by blast
qed

lemma udp_pkg_inv:
  assumes "uip_inv I" "held i I" "uip_udp_make_pkg I sk i p n = Some (r, I')"
  shows "uip_inv I' \<and> held i I'"
proof -
  obtain b where "I' = put_buf i b I" "ub_status b = ub_status (uip_bufs I ! i)"
    using assms(3) by (auto simp: uip_udp_make_pkg_def Let_def split: if_splits)
  then show ?thesis using put_buf_inv [OF assms(1,2)] assms(2) by (simp add: held_def)
qed

lemma udp_thread_inv:
  assumes "uip_inv I" "uip_udp_socket_thread I k p = Some I'"
  shows "uip_inv I'"
  using assms(1)
proof (cases rule: get_free_cases)
  case waits
  then show ?thesis using assms(2) by (simp add: uip_udp_socket_thread_def)
next
  case (gets i J)
  obtain r J' where "uip_udp_make_pkg J (udp_sockets J ! k) i (Some p) (int (length p)) = Some (r, J')" "I' = uip_buf_set_used J' i"
    using assms(2) gets(1) by (auto simp: uip_udp_socket_thread_def)
  then show ?thesis using udp_pkg_inv [OF gets(2,3)] set_used_inv by blast
qed

lemma dhcp_inv:
  assumes "uip_inv I" "uip_tx_do_ipv4_udp_dhcp I arg = Some (r, I')"
  shows "uip_inv I'"
proof (cases "I' = I")
  case False
  then obtain i J t e sk r' J' where c: "uip_buf_clone I arg = Some (i, J)"
    and p: "uip_udp_make_pkg (put_eth i e J) sk i None (int DHCP_MAX_PAYLOAD) = Some (r', J')" "I' = uip_buf_set_used J' i"
    using assms(2) by (auto simp: uip_tx_do_ipv4_udp_dhcp_def Let_def split: option.splits prod.splits if_splits)
  have "uip_inv J" "held i J" using clone_inv [OF assms(1) c] by auto
  then have "uip_inv (put_eth i e J)" "held i (put_eth i e J)" by (simp_all add: put_eth_inv)
  then show ?thesis using udp_pkg_inv p set_used_inv by blast
qed (use assms(1) in simp)

lemma udp_find_inv:
  assumes "uip_udp_socket_find N I h a b c d = Some (k, I', h')" "uip_inv I"
  shows "uip_inv I'"
  using assms by (auto simp: uip_udp_socket_find_def Let_def uip_inv_def buf_count_def split: option.splits prod.splits if_splits)

lemma udp_inv:
  assumes "uip_inv I" "uip_tx_do_ipv4_udp N I h arg = Some (r, I', h')"
  shows "uip_inv I'"
proof (cases "uip_udp_is_dhcp (arg_eth arg)")
  case True
  then show ?thesis using assms dhcp_inv [OF assms(1)] by (auto simp: uip_tx_do_ipv4_udp_def Let_def)
next
  case False
  then obtain k J h1 ok where find: "uip_udp_socket_find N I h (get32 (arg_eth arg) IP_SIP) (get32 (arg_eth arg) IP_DIP)
      (get16 (arg_eth arg) L4_SPORT) (get16 (arg_eth arg) L4_DPORT) = Some (k, J, h1)" and I': "I' = J \<or> I' = J\<lparr> udp_thread := ok \<rparr>"
    using assms(2) by (auto simp: uip_tx_do_ipv4_udp_def Let_def split: option.splits prod.splits if_splits)
  from find assms(1) have "uip_inv J" by (rule udp_find_inv)
  then show ?thesis using I' by (auto simp: uip_inv_def buf_count_def)
qed

text \<open>
  A request for another address is the leak of \<^verbatim>\<open>uip_tx_do_arp\<close>: the buffer is taken and neither sent nor given back.
\<close>

lemma arp_other_leaks:
  assumes "uip_inv I" "uip_tx_do_arp I arg = Some (r, I')" "get32 (arg_eth arg) ARP_DIP \<noteq> bswap32 (host_ip I)"
  shows "buf_count BUF_FREE I' = buf_count BUF_FREE I - 1" "buf_count BUF_USED I' = buf_count BUF_USED I"
proof -
  obtain i J e where c: "uip_buf_clone I arg = Some (i, J)" and I': "I' = put_eth i e J"
  proof -
    have "host_ip J = host_ip I" if "uip_buf_clone I arg = Some (i, J)" for i J
      using that by (auto simp: uip_buf_clone_def uip_buf_get_free_def set_status_def put_buf_def Let_def split: option.splits if_splits)
    then show ?thesis using assms(2,3) that by (auto simp: uip_tx_do_arp_def Let_def split: option.splits prod.splits if_splits)
  qed
  have J: "uip_inv J" "held i J" using clone_inv [OF assms(1) c] by auto
  have fr: "buf_free_nr J = buf_free_nr I - 1" "buf_used_nr J = buf_used_nr I"
    using c by (auto simp: uip_buf_clone_def uip_buf_get_free_def set_status_def put_buf_def Let_def split: option.splits if_splits)
  have "buf_free_nr I' = buf_free_nr J" "buf_used_nr I' = buf_used_nr J" "uip_inv I'"
    using put_eth_inv [OF J] by (simp_all add: I' put_eth_def put_buf_def)
  then show "buf_count BUF_FREE I' = buf_count BUF_FREE I - 1" "buf_count BUF_USED I' = buf_count BUF_USED I"
    using assms(1) fr by (simp_all add: uip_inv_def)
qed


definition one_socket :: uip_info where
  "one_socket = \<lparr> udp_sockets = [\<lparr> us_addr = (0x08080808, 0x3500), us_dport = 0x3500, us_sport = 0x1027, us_dip = 0x08080808, us_sip = 0x0f21a8c0, us_fd = 9 \<rparr>],
     tcp_sockets = [], guest_mac = [2, 21, 21, 21, 21, 21], host_mac = [2, 1, 1, 1, 1, 1],
     uip_bufs = [\<lparr> ub_vnet_len = 10, ub_eth_len = 0, ub_status = BUF_FREE, ub_vnet = (\<lambda>_. 0), ub_eth = (\<lambda>_. 0), ub_id = 0 \<rparr>],
     udp_thread = True, udp_epollfd = 8, buf_free_nr = 1, buf_used_nr = 0, guest_ip = 0xc0a8210f, guest_netmask = 0xffffff00,
     host_ip = 0xc0a82101, dns_ip = [0, 0, 0], domain_name = None, buf_nr = 1, vnet_hdr_len = 10 \<rparr>"


end
