(* ===== verification/Uip_Tcp.thy ===== *)
theory Uip_Tcp
  imports Uip Iovec
begin

section \<open>TCP and the entry points of the user-mode network (src/net/tcp.c, ipv4.c, core.c)\<close>

text \<open>
  A TCP socket is named by the address of its structure; a socket that is no longer in the list has been freed, and its use is \<open>None\<close>. The
  receiving thread is the sequence of its actions: a read from the host socket, the segments that pass it on, each as soon as the
  window of the guest is open, and the end of the stream.
\<close>

abbreviation (input) SHUT_RD :: nat where "SHUT_RD \<equiv> 0"
abbreviation (input) SHUT_WR :: nat where "SHUT_WR \<equiv> 1"
abbreviation (input) SHUT_RDWR :: nat where "SHUT_RDWR \<equiv> 2"
abbreviation (input) FLAG_FIN :: u8 where "FLAG_FIN \<equiv> 1"
abbreviation (input) FLAG_SYN :: u8 where "FLAG_SYN \<equiv> 2"
abbreviation (input) FLAG_ACK :: u8 where "FLAG_ACK \<equiv> 16"
abbreviation (input) UIP_MAX_TCP_PAYLOAD :: nat where "UIP_MAX_TCP_PAYLOAD \<equiv> 64 * 1024 - 20 - 20 - 1"

definition tcp_sk :: "uip_info \<Rightarrow> nat \<Rightarrow> uip_tcp_socket option" where
  "tcp_sk I p = map_of (tcp_sockets I) p"

definition set_sk :: "nat \<Rightarrow> uip_tcp_socket \<Rightarrow> uip_info \<Rightarrow> uip_info" where
  "set_sk p sk I = I\<lparr> tcp_sockets := map (\<lambda>(q, s). (q, if q = p then sk else s)) (tcp_sockets I) \<rparr>"

definition uip_tcp_socket_close :: "'h net_host \<Rightarrow> uip_info \<Rightarrow> 'h \<Rightarrow> nat \<Rightarrow> nat \<Rightarrow> (int \<times> uip_info \<times> 'h) option" where
  "uip_tcp_socket_close N I h p how =
     (case tcp_sk I p of
        None \<Rightarrow> None
      | Some sk \<Rightarrow>
          let h = net_shutdown N h (ts_fd sk) how in
          if write_done sk \<and> read_done sk
          then
            let h = net_close N (net_shutdown N h (ts_fd sk) SHUT_RDWR) (ts_fd sk) in
            Some (0, I\<lparr> tcp_sockets := filter (\<lambda>(q, s). q \<noteq> p) (tcp_sockets I) \<rparr>, h)
          else Some (0, I, h))"

fun uip_tcp_socket_find :: "(nat \<times> uip_tcp_socket) list \<Rightarrow> u32 \<Rightarrow> u32 \<Rightarrow> u16 \<Rightarrow> u16 \<Rightarrow> nat option" where
  "uip_tcp_socket_find [] sip dip sport dport = None"
| "uip_tcp_socket_find ((p, s) # ss) sip dip sport dport =
     (if ts_sip s = sip \<and> ts_dip s = dip \<and> ts_sport s = ucast sport \<and> ts_dport s = ucast dport then Some p
      else uip_tcp_socket_find ss sip dip sport dport)"

definition uip_tcp_socket_alloc ::
    "'h net_host \<Rightarrow> uip_info \<Rightarrow> 'h \<Rightarrow> buf \<Rightarrow> u32 \<Rightarrow> u32 \<Rightarrow> u16 \<Rightarrow> u16 \<Rightarrow> (nat option \<times> uip_info \<times> 'h) option" where
  "uip_tcp_socket_alloc N I h a sip dip sport dport =
     (case net_malloc N h of
        (None, h) \<Rightarrow> None
      | (Some p, h) \<Rightarrow>
          (case net_socket N h True of (fd, h) \<Rightarrow>
           let addr = (if bswap32 dip = host_ip I then 0x0100007f else dip, dport) in
           case net_connect N h fd addr of (ret, h) \<Rightarrow>
           if ret \<noteq> 0 then Some (None, I, h)
           else
             let sk = \<lparr> ts_addr = addr, ts_dport = ucast (get16 a L4_DPORT), ts_sport = ucast (get16 a L4_SPORT), guest_acked = 0,
                        window_size = 0, isn_server = 0, isn_guest = 0, ack_server = 0, seq_server = 0, write_done = False,
                        read_done = False, ts_dip = get32 a IP_DIP, ts_sip = get32 a IP_SIP, ts_thread = False, ts_fd = fd \<rparr> in
             Some (Some p, I\<lparr> tcp_sockets := tcp_sockets I @ [(p, sk)] \<rparr>, h)))"

definition tcp_frame :: "uip_info \<Rightarrow> uip_tcp_socket \<Rightarrow> buf \<Rightarrow> u8 \<Rightarrow> u8 list \<Rightarrow> buf" where
  "tcp_frame I sk e flag payload =
     (let e = ipv4_header I 0x06 (ts_dip sk) (ts_sip sk) e;
          e = put16 e L4_SPORT (ucast (ts_dport sk));
          e = put16 e L4_DPORT (ucast (ts_sport sk));
          e = put32 e TCP_SEQ (bswap32 (seq_server sk));
          e = put32 e TCP_ACK (bswap32 (ack_server sk));
          e = put8 e TCP_OFF 0x50;
          e = put8 e TCP_FLG flag;
          e = put16 e TCP_WIN (bswap16 14600);
          e = put16 e TCP_CSUM 0;
          e = put16 e TCP_URGENT 0;
          e = (if length payload > 0 then buf_put e (uip_tcp_payload e) payload else e);
          e = put16 e IP_LEN (bswap16 (uip_tcp_hdrlen e + of_nat (length payload) + uip_ip_hdrlen e));
          e = put16 e IP_CSUM (uip_csum_ip e) in
      case uip_csum_tcp e of (c, e) \<Rightarrow> put16 e TCP_CSUM c)"

definition uip_tcp_payload_send :: "uip_info \<Rightarrow> nat \<Rightarrow> u8 \<Rightarrow> u8 list \<Rightarrow> uip_info option" where
  "uip_tcp_payload_send I p flag payload =
     (case uip_buf_get_free I of
        Some (Some i, I) \<Rightarrow>
          (case tcp_sk I p of
             None \<Rightarrow> None
           | Some sk \<Rightarrow>
               if 54 + length payload + (if odd (length payload) then 13 else 12) > ETH_BUF_SIZE then None
               else
                 let b = uip_bufs I ! i; e = tcp_frame I sk (ub_eth b) flag payload;
                     I = put_buf i (b\<lparr> ub_eth := e, ub_vnet_len := uint (vnet_hdr_len I),
                                       ub_vnet := buf_put (ub_vnet b) 0 (replicate (unat (vnet_hdr_len I)) 0),
                                       ub_eth_len := uint (uip_ip_len e) + 14 \<rparr>) I;
                     I = set_sk p (sk\<lparr> seq_server := seq_server sk + of_nat (length payload) \<rparr>) I in
                 Some (uip_buf_set_used I i))
      | _ \<Rightarrow> None)"

subsection \<open>The receiving thread\<close>

definition tcp_window :: "uip_tcp_socket \<Rightarrow> int" where
  "tcp_window sk = sint (guest_acked sk + ucast (window_size sk) - seq_server sk)"

text \<open>One round of the inner loop of \<^verbatim>\<open>uip_tcp_socket_thread\<close>, with the bytes that are left of what was read; \<open>None\<close> while the window is closed.\<close>

definition tcp_thread_send :: "uip_info \<Rightarrow> nat \<Rightarrow> u8 list \<Rightarrow> (u8 list \<times> uip_info) option" where
  "tcp_thread_send I p left =
     (case tcp_sk I p of
        None \<Rightarrow> None
      | Some sk \<Rightarrow>
          if tcp_window sk \<le> 0 then None
          else
            let len = min (min (nat (tcp_window sk)) (length left)) UIP_MAX_TCP_PAYLOAD in
            map_option (Pair (drop len left)) (uip_tcp_payload_send I p FLAG_ACK (take len left)))"

text \<open>The end of the thread, after the label \<^verbatim>\<open>out\<close>.\<close>

definition tcp_thread_out :: "'h net_host \<Rightarrow> uip_info \<Rightarrow> 'h \<Rightarrow> nat \<Rightarrow> (uip_info \<times> 'h) option" where
  "tcp_thread_out N I h p =
     (case uip_tcp_socket_close N I h p SHUT_RD of
        None \<Rightarrow> None
      | Some (_, I, h) \<Rightarrow>
          (case uip_tcp_payload_send I p (FLAG_FIN OR FLAG_ACK) [] of
             None \<Rightarrow> None
           | Some I \<Rightarrow>
               map_option (\<lambda>sk. (set_sk p (sk\<lparr> seq_server := seq_server sk + 1, read_done := True \<rparr>) I, h)) (tcp_sk I p)))"

definition uip_tcp_socket_receive :: "'h net_host \<Rightarrow> uip_info \<Rightarrow> 'h \<Rightarrow> nat \<Rightarrow> (uip_info \<times> 'h) option" where
  "uip_tcp_socket_receive N I h p =
     (case tcp_sk I p of
        None \<Rightarrow> None
      | Some sk \<Rightarrow>
          if \<not> ts_thread sk then (case net_thread N h of (ok, h) \<Rightarrow> Some (set_sk p (sk\<lparr> ts_thread := ok \<rparr>) I, h))
          else Some (I, h))"

subsection \<open>Segments of the guest\<close>

definition uip_tcp_socket_send :: "'h net_host \<Rightarrow> 'h \<Rightarrow> uip_tcp_socket \<Rightarrow> buf \<Rightarrow> int \<times> 'h" where
  "uip_tcp_socket_send N h sk a =
     (if write_done sk then (0, h)
      else net_write N h (ts_fd sk) (buf_read (buf_at a (uip_tcp_payload a)) (unat (uip_tcp_payloadlen a))))"

definition tcp_syn :: "'h net_host \<Rightarrow> uip_info \<Rightarrow> 'h \<Rightarrow> buf \<Rightarrow> (int \<times> uip_info \<times> 'h) option" where
  "tcp_syn N I h a =
     (case uip_tcp_socket_alloc N I h a (get32 a IP_SIP) (get32 a IP_DIP) (get16 a L4_SPORT) (get16 a L4_DPORT) of
        None \<Rightarrow> None
      | Some (None, I, h) \<Rightarrow> Some (- 1, I, h)
      | Some (Some p, I, h) \<Rightarrow>
          (case tcp_sk I p of
             None \<Rightarrow> None
           | Some sk \<Rightarrow>
               let sk = sk\<lparr> window_size := bswap16 (get16 a TCP_WIN), isn_guest := uip_tcp_isn a, isn_server := 10000000,
                            seq_server := 10000000, ack_server := uip_tcp_isn a + 1 \<rparr> in
               case uip_tcp_payload_send (set_sk p sk I) p (FLAG_SYN OR FLAG_ACK) [] of
                 None \<Rightarrow> None
               | Some I \<Rightarrow>
                   (case tcp_sk I p of
                      None \<Rightarrow> None
                    | Some sk \<Rightarrow>
                        map_option (\<lambda>(I, h). (0, I, h))
                          (uip_tcp_socket_receive N (set_sk p (sk\<lparr> seq_server := seq_server sk + 1 \<rparr>) I) h p))))"

definition uip_tx_do_ipv4_tcp :: "'h net_host \<Rightarrow> uip_info \<Rightarrow> 'h \<Rightarrow> uip_tx_arg \<Rightarrow> (int \<times> uip_info \<times> 'h) option" where
  "uip_tx_do_ipv4_tcp N I h arg =
     (let a = arg_eth arg in
      if uip_tcp_is_syn a then tcp_syn N I h a
      else
        case uip_tcp_socket_find (tcp_sockets I) (get32 a IP_SIP) (get32 a IP_DIP) (get16 a L4_SPORT) (get16 a L4_DPORT) of
          None \<Rightarrow> Some (- 1, I, h)
        | Some p \<Rightarrow>
            (case tcp_sk I p of
               None \<Rightarrow> None
             | Some sk \<Rightarrow>
                 let sk = sk\<lparr> window_size := bswap16 (get16 a TCP_WIN), guest_acked := bswap32 (get32 a TCP_ACK) \<rparr>; I = set_sk p sk I in
                 if uip_tcp_is_fin a
                 then
                   if write_done sk then Some (0, I, h)
                   else
                     case uip_tcp_payload_send (set_sk p (sk\<lparr> write_done := True, ack_server := ack_server sk + 1 \<rparr>) I) p FLAG_ACK [] of
                       None \<Rightarrow> None
                     | Some I \<Rightarrow> map_option (\<lambda>(_, I, h). (0, I, h)) (uip_tcp_socket_close N I h p SHUT_WR)
                 else if uip_tcp_payloadlen a = 0 then Some (0, I, h)
                 else
                   case uip_tcp_socket_send N h sk a of (ret, h) \<Rightarrow>
                   if ret < 0 then Some (- 1, I, h)
                   else
                     map_option (\<lambda>I. (0, I, h))
                       (uip_tcp_payload_send (set_sk p (sk\<lparr> ack_server := ack_server sk + word_of_int ret \<rparr>) I) p FLAG_ACK [])))"

subsection \<open>Dispatch (ipv4.c, core.c)\<close>

definition uip_tx_do_ipv4 :: "'h net_host \<Rightarrow> uip_info \<Rightarrow> 'h \<Rightarrow> uip_tx_arg \<Rightarrow> (int \<times> uip_info \<times> 'h) option" where
  "uip_tx_do_ipv4 N I h arg =
     (let a = arg_eth arg in
      if uip_ip_hdrlen a \<noteq> 20 then Some (- 1, I, h)
      else if a IP_PROTO = 0x01 then map_option (\<lambda>(_, I). (0, I, h)) (uip_tx_do_ipv4_icmp I arg)
      else if a IP_PROTO = 0x06 then map_option (\<lambda>(_, I, h). (0, I, h)) (uip_tx_do_ipv4_tcp N I h arg)
      else if a IP_PROTO = 0x11 then map_option (\<lambda>(_, I, h). (0, I, h)) (uip_tx_do_ipv4_udp N I h arg)
      else Some (0, I, h))"

definition size_int :: "u64 \<Rightarrow> int" where "size_int n = sint (ucast n :: u32)"

definition uip_tx_frame :: "'h net_host \<Rightarrow> uip_info \<Rightarrow> 'h \<Rightarrow> uip_tx_arg \<Rightarrow> (uip_info \<times> 'h) option" where
  "uip_tx_frame N I h arg =
     (let proto = bswap16 (get16 (arg_eth arg) ETH_TYPE) in
      if proto = 0x0806 then map_option (\<lambda>(_, I). (I, h)) (uip_tx_do_arp I arg)
      else if proto = 0x0800 then map_option (\<lambda>(_, I, h). (I, h)) (uip_tx_do_ipv4 N I h arg)
      else Some (I, h))"

text \<open>
  \<open>junk\<close> is what lies behind the linear copy of a frame in several pieces. The copy needs as many bytes as the pieces have, which the \<^verbatim>\<open>int\<close>
  total does not count when it overflows.
\<close>

definition uip_tx ::
    "'h net_host \<Rightarrow> bool \<Rightarrow> buf \<Rightarrow> mem \<Rightarrow> (nat \<Rightarrow> iovec) \<Rightarrow> u16 \<Rightarrow> uip_info \<Rightarrow> 'h \<Rightarrow> (int \<times> uip_info \<times> 'h) option" where
  "uip_tx N malloc junk m iov out I h =
     (let vnet_len = size_int (iov_len (iov 0));
          vs = map iov [1..<unat out];
          total = sum_list (map (\<lambda>v. unat (iov_len v)) vs);
          eth_len = (if 2 < out then size_int (sum_list (map iov_len vs)) else size_int (iov_len (iov 1)));
          eth = (if 2 < out then buf_write junk (concat (map (\<lambda>v. load m (iov_base v) (unat (iov_len v))) vs))
                 else (\<lambda>i. m (iov_base (iov 1) + of_nat i)));
          arg = \<lparr> arg_vnet = (\<lambda>i. m (iov_base (iov 0) + of_nat i)), arg_eth = eth, arg_vnet_len = vnet_len, arg_eth_len = eth_len \<rparr> in
      if 2 < out \<and> \<not> malloc then Some (- ENOMEM, I, h)
      else if 2 < out \<and> int total \<noteq> eth_len then None
      else
        map_option (\<lambda>(I, h). (vnet_len + eth_len, I, h)) (uip_tx_frame N I h arg))"

definition uip_rx :: "iovec list \<Rightarrow> mem \<Rightarrow> uip_info \<Rightarrow> (int \<times> mem \<times> uip_info) option" where
  "uip_rx iov m I =
     (case uip_buf_get_used I of
        Some (Some i, I) \<Rightarrow>
          let b = uip_bufs I ! i; n = nat (ub_vnet_len b); k = nat (ub_eth_len b) in
          case memcpy_toiovecend iov (buf_read (ub_vnet b) n) 0 n m of
            None \<Rightarrow> None
          | Some m \<Rightarrow>
              (case memcpy_toiovecend iov (buf_read (ub_eth b) k) (word_of_int (ub_vnet_len b)) k m of
                 None \<Rightarrow> None
               | Some m \<Rightarrow> Some (ub_vnet_len b + ub_eth_len b, m, uip_buf_set_free I i))
      | _ \<Rightarrow> None)"

definition uip_static_init :: "uip_info \<Rightarrow> uip_info" where
  "uip_static_init I = I\<lparr> udp_sockets := [], tcp_sockets := [], uip_bufs := [], buf_used_nr := 0 \<rparr>"

definition new_buf :: "u32 \<Rightarrow> nat \<Rightarrow> uip_buf" where
  "new_buf hdr_len i =
     \<lparr> ub_vnet_len = uint hdr_len, ub_eth_len = int ETH_BUF_SIZE, ub_status = BUF_FREE, ub_vnet = (\<lambda>_. 0), ub_eth = (\<lambda>_. 0), ub_id = int i \<rparr>"

definition uip_init :: "(string \<Rightarrow> u32 option) \<Rightarrow> (string \<times> string) list option \<Rightarrow> uip_info \<Rightarrow> int \<times> uip_info" where
  "uip_init aton resolv I =
     (let n = nat (sint (buf_nr I));
          I = I\<lparr> uip_bufs := uip_bufs I @ map (new_buf (vnet_hdr_len I)) [0..<n], buf_free_nr := sint (buf_nr I) \<rparr> in
      (0, snd (uip_dhcp_get_dns aton resolv I)))"

subsection \<open>TCP segments are valid\<close>

lemma tcp_frame_ok:
  fixes e :: buf and sk :: uip_tcp_socket and flag :: u8
  assumes "length (host_mac I) = 6" "length (guest_mac I) = 6" "length p \<le> UIP_MAX_TCP_PAYLOAD"
  defines "f \<equiv> tcp_frame I sk e flag p" and "n \<equiv> length p"
  shows "inet_ok (buf_read (buf_at f IP_VHL) 20)"
    and "inet_ok (pseudo_hdr f (bswap16 (of_nat (20 + n))) @ buf_read (buf_at f L4_SPORT) (20 + n))"
    and "uip_ip_len f = of_nat (40 + n)" "uip_tcp_payloadlen f = of_nat n"
    and "buf_read (buf_at f (uip_tcp_payload f)) n = p"
    and "bswap32 (get32 f TCP_SEQ) = seq_server sk" "bswap32 (get32 f TCP_ACK) = ack_server sk" "f TCP_FLG = flag"
    and "get32 f IP_SIP = ts_dip sk" "get32 f IP_DIP = ts_sip sk"
    and "get16 f L4_SPORT = ucast (ts_dport sk)" "get16 f L4_DPORT = ucast (ts_sport sk)"
proof -
  define a where "a = ipv4_header I 0x06 (ts_dip sk) (ts_sip sk) e"
  define b where "b = put16 (put16 (put16 (put8 (put8 (put32 (put32 (put16 (put16 a L4_SPORT (ucast (ts_dport sk))) L4_DPORT (ucast (ts_sport sk)))
      TCP_SEQ (bswap32 (seq_server sk))) TCP_ACK (bswap32 (ack_server sk))) TCP_OFF 0x50) TCP_FLG flag) TCP_WIN (bswap16 14600)) TCP_CSUM 0) TCP_URGENT 0"
  define d where "d = (if length p > 0 then buf_put b (uip_tcp_payload b) p else b)"
  define g where "g = put16 d IP_LEN (bswap16 (uip_tcp_hdrlen d + of_nat (length p) + uip_ip_hdrlen d))"
  define k where "k = put16 g IP_CSUM (uip_csum_ip g)"
  note hf = ipv4_header_fields [OF assms(1,2), where proto = "0x06" and sip = "ts_dip sk" and dip = "ts_sip sk" and e = e, folded a_def]
  have n: "n \<le> 65495" using assms(3) by (simp add: n_def)
  have boff: "b TCP_OFF = 0x50" by (simp add: b_def buf_simps)
  then have pay: "uip_tcp_payload b = 54" by (simp add: uip_tcp_payload_def uip_tcp_hdrlen_def)
  have low: "d i = b i" if "i < 54" for i using that by (simp add: d_def pay buf_simps)
  have low16: "get16 d i = get16 b i" if "i + 2 \<le> 54" for i using that low by (intro get_cong) simp
  have low32: "get32 d i = get32 b i" if "i + 4 \<le> 54" for i using that low by (intro get_cong) simp
  have hdr: "uip_ip_hdrlen d = 20" "uip_tcp_hdrlen d = 20"
    using hf(1) boff by (simp_all add: uip_ip_hdrlen_def uip_tcp_hdrlen_def low b_def buf_simps)
  have glen: "get16 g IP_LEN = bswap16 (of_nat (40 + n))" by (simp add: g_def hdr n_def)
  have g1: "g IP_VHL = 0x45" "get16 g IP_CSUM = 0" using hf by (simp_all add: g_def low low16 b_def buf_simps)
  have ip: "inet_ok (buf_read (buf_at k IP_VHL) 20)" unfolding k_def by (rule ip_csum_ok [OF g1])
  have kb: "k IP_VHL = 0x45" "get16 k TCP_CSUM = 0" "uip_ip_len k = of_nat (40 + n)"
    using g1(1) glen by (simp_all add: uip_ip_len_def k_def g_def low16 b_def buf_simps)
  have klen: "uip_tcp_len k = of_nat (20 + n)" by (simp add: uip_tcp_len_def kb(1,3) uip_ip_hdrlen_def)
  have un: "unat (of_nat (20 + n) :: u16) = 20 + n" using n by (intro unat_of_nat16) simp
  obtain c e' where cs: "csum_segment k (20 + n) (pseudo_hdr k (bswap16 (of_nat (20 + n)))) = (c, e')" by fastforce
  have "f = (case uip_csum_tcp k of (c, e) \<Rightarrow> put16 e TCP_CSUM c)"
    unfolding f_def tcp_frame_def Let_def k_def g_def d_def b_def a_def ..
  then have f: "f = put16 e' (L4_SPORT + 2 * 8) c"
    using cs un by (simp add: uip_csum_tcp_def klen Let_def del: of_nat_add)
  have cs': "csum_segment k (20 + n) (pseudo_hdr k (bswap16 (of_nat (20 + n)))) = (c, e')" "20 + n + 13 < 65536" "2 * 8 + 2 \<le> 20 + n"
    "get16 k (L4_SPORT + 2 * 8) = 0" using cs n kb(2) by simp_all
  note seal = seal_ok [OF cs' ip, folded f]
  have same: "f i = k i" if "i < TCP_CSUM \<or> TCP_URGENT \<le> i" "i < 54 + n" for i using seal(3) [of i] that by simp
  have same16: "get16 f i = get16 k i" if "i + 2 \<le> TCP_CSUM" for i using that same by (intro get_cong) simp
  have same32: "get32 f i = get32 k i" if "i + 4 \<le> TCP_CSUM" for i using that same by (intro get_cong) simp
  show "inet_ok (buf_read (buf_at f IP_VHL) 20)" by (rule seal(1))
  show "inet_ok (pseudo_hdr f (bswap16 (of_nat (20 + n))) @ buf_read (buf_at f L4_SPORT) (20 + n))" by (rule seal(2))
  show len: "uip_ip_len f = of_nat (40 + n)" using kb(3) same16 [of IP_LEN] by (simp add: uip_ip_len_def)
  have foff: "f TCP_OFF = 0x50" "f IP_VHL = 0x45" using boff kb(1) by (simp_all add: same k_def g_def low buf_simps)
  then show "uip_tcp_payloadlen f = of_nat n"
    by (simp add: uip_tcp_payloadlen_def uip_tcp_len_def len uip_ip_hdrlen_def uip_tcp_hdrlen_def)
  have fpay: "uip_tcp_payload f = 54" using foff(1) by (simp add: uip_tcp_payload_def uip_tcp_hdrlen_def)
  have "buf_read (buf_at f 54) n = buf_read (buf_at d 54) n"
    by (rule buf_read_cong) (simp add: buf_at_def same k_def g_def buf_simps)
  also have "\<dots> = p" by (simp add: d_def pay n_def)
  finally show "buf_read (buf_at f (uip_tcp_payload f)) n = p" by (simp add: fpay)
  show "bswap32 (get32 f TCP_SEQ) = seq_server sk" "bswap32 (get32 f TCP_ACK) = ack_server sk" "f TCP_FLG = flag"
    by (simp_all add: same same32 k_def g_def low low32 b_def buf_simps)
  show "get32 f IP_SIP = ts_dip sk" "get32 f IP_DIP = ts_sip sk"
    using hf(4,5) by (simp_all add: same32 k_def g_def low32 b_def buf_simps)
  show "get16 f L4_SPORT = ucast (ts_dport sk)" "get16 f L4_DPORT = ucast (ts_sport sk)"
    by (simp_all add: same16 k_def g_def low16 b_def buf_simps)
qed

subsection \<open>The counters of the buffers in every state\<close>

definition same_bufs :: "uip_info \<Rightarrow> uip_info \<Rightarrow> bool" where
  "same_bufs I J \<longleftrightarrow> uip_bufs J = uip_bufs I \<and> buf_free_nr J = buf_free_nr I \<and> buf_used_nr J = buf_used_nr I \<and>
     host_mac J = host_mac I \<and> guest_mac J = guest_mac I"

lemma same_bufs_refl [simp]: "same_bufs I I"
  by (simp add: same_bufs_def)

lemma same_bufs_inv: "same_bufs I J \<Longrightarrow> uip_inv J = uip_inv I"
  by (simp add: same_bufs_def uip_inv_def buf_count_def)

lemma set_sk_bufs [simp]: "same_bufs I (set_sk p sk J) = same_bufs I J" "uip_inv (set_sk p sk J) = uip_inv J" "held i (set_sk p sk J) = held i J"
  by (simp_all add: set_sk_def same_bufs_def uip_inv_def buf_count_def held_def)

lemma close_bufs: "uip_tcp_socket_close N I h p how = Some (r, J, h') \<Longrightarrow> same_bufs I J"
  by (auto simp: uip_tcp_socket_close_def Let_def same_bufs_def split: option.splits if_splits)

lemma alloc_bufs: "uip_tcp_socket_alloc N I h a b c d e = Some (r, J, h') \<Longrightarrow> same_bufs I J"
  by (auto simp: uip_tcp_socket_alloc_def Let_def same_bufs_def split: option.splits if_splits prod.splits)

lemma receive_bufs: "uip_tcp_socket_receive N I h p = Some (J, h') \<Longrightarrow> same_bufs I J"
  by (auto simp: uip_tcp_socket_receive_def split: option.splits if_splits prod.splits)

text \<open>A segment that is sent: a free buffer turns into one for the guest, which holds it, and nothing else about the buffers changes.\<close>

lemma payload_send_effect:
  assumes "uip_inv I" "uip_tcp_payload_send I p flag payload = Some I'"
  obtains i sk b where "i < length (uip_bufs I)" "find_buf BUF_FREE (uip_bufs I) = Some i" "tcp_sk I p = Some sk"
    "uip_bufs I' = (uip_bufs I)[i := b]" "ub_status b = BUF_USED" "ub_eth b = tcp_frame I sk (ub_eth (uip_bufs I ! i)) flag payload"
    "ub_eth_len b = uint (uip_ip_len (ub_eth b)) + 14" "ub_vnet_len b = uint (vnet_hdr_len I)"
    "tcp_sockets I' = tcp_sockets (set_sk p (sk\<lparr> seq_server := seq_server sk + of_nat (length payload) \<rparr>) I)" "uip_inv I'"
    "host_mac I' = host_mac I" "guest_mac I' = guest_mac I"
  using assms(1)
proof (cases rule: get_free_cases)
  case waits
  then show ?thesis using assms(2) by (simp add: uip_tcp_payload_send_def)
next
  case (gets i J)
  then obtain sk where sk: "tcp_sk J p = Some sk" using assms(2) gets(1) by (auto simp: uip_tcp_payload_send_def split: option.splits)
  have J: "uip_bufs J = (uip_bufs I)[i := (uip_bufs I ! i)\<lparr> ub_status := BUF_INUSE \<rparr>]" "tcp_sockets J = tcp_sockets I" "vnet_hdr_len J = vnet_hdr_len I"
    "host_mac J = host_mac I" "guest_mac J = guest_mac I" "i < length (uip_bufs I)"
    using gets(3,6) by (auto simp: put_buf_def held_def)
  have fr: "tcp_frame J sk e flag payload = tcp_frame I sk e flag payload" for e
    by (simp add: tcp_frame_def ipv4_header_def J(4,5))
  let ?b = "(uip_bufs I ! i)\<lparr> ub_status := BUF_INUSE, ub_eth := tcp_frame I sk (ub_eth (uip_bufs I ! i)) flag payload,
      ub_vnet_len := uint (vnet_hdr_len I), ub_vnet := buf_put (ub_vnet (uip_bufs I ! i)) 0 (replicate (unat (vnet_hdr_len I)) 0),
      ub_eth_len := uint (uip_ip_len (tcp_frame I sk (ub_eth (uip_bufs I ! i)) flag payload)) + 14 \<rparr>"
  let ?sk = "sk\<lparr> seq_server := seq_server sk + of_nat (length payload) \<rparr>"
  have I': "I' = uip_buf_set_used (set_sk p ?sk (put_buf i ?b J)) i"
    using assms(2) gets(1) sk J(1,3,6) by (simp add: uip_tcp_payload_send_def Let_def fr split: if_splits)
  have "uip_inv (put_buf i ?b J)" "held i (put_buf i ?b J)" using put_buf_inv [OF gets(2,3), of ?b] by simp_all
  then have "uip_inv I'" unfolding I' by (intro set_used_inv) simp_all
  then show ?thesis
    using J gets(5) sk
    by (intro that [of i sk "?b\<lparr> ub_status := BUF_USED \<rparr>"])
       (simp_all add: I' uip_buf_set_used_def set_status_def set_sk_def put_buf_def tcp_sk_def)
qed

lemma payload_send_inv: "uip_tcp_payload_send I p flag payload = Some I' \<Longrightarrow> uip_inv I \<Longrightarrow> uip_inv I'"
  by (rule payload_send_effect)

lemma syn_inv:
  assumes "uip_inv I" "tcp_syn N I h a = Some (r, I', h')"
  shows "uip_inv I'"
proof -
  obtain q J h1 where al: "uip_tcp_socket_alloc N I h a (get32 a IP_SIP) (get32 a IP_DIP) (get16 a L4_SPORT) (get16 a L4_DPORT) = Some (q, J, h1)"
    using assms(2) by (auto simp: tcp_syn_def split: option.splits)
  have J: "uip_inv J" using alloc_bufs [OF al] assms(1) same_bufs_inv by blast
  show ?thesis
  proof (cases q)
    case None
    then show ?thesis using assms(2) al J by (simp add: tcp_syn_def)
  next
    case (Some p)
    then obtain sk K sk' where "uip_tcp_payload_send (set_sk p sk J) p (FLAG_SYN OR FLAG_ACK) [] = Some K"
      "uip_tcp_socket_receive N (set_sk p sk' K) h1 p = Some (I', h')"
      using assms(2) al by (auto simp: tcp_syn_def Let_def split: option.splits)
    then show ?thesis using J payload_send_inv receive_bufs same_bufs_inv set_sk_bufs(2) by metis
  qed
qed

lemma tcp_inv:
  assumes "uip_inv I" "uip_tx_do_ipv4_tcp N I h arg = Some (r, I', h')"
  shows "uip_inv I'"
proof (cases "uip_tcp_is_syn (arg_eth arg)")
  case True
  then show ?thesis using assms syn_inv by (auto simp: uip_tx_do_ipv4_tcp_def Let_def)
next
  case False
  have "uip_inv I' \<or> (\<exists>p flag K J. uip_inv K \<and> uip_tcp_payload_send K p flag [] = Some J \<and>
      (I' = J \<or> (\<exists>r h1 h2 how. uip_tcp_socket_close N J h1 p how = Some (r, I', h2))))"
    using assms False
    by (simp add: uip_tx_do_ipv4_tcp_def Let_def split: option.splits if_splits prod.splits) (metis set_sk_bufs(2))+
  then show ?thesis using payload_send_inv close_bufs same_bufs_inv by metis
qed

lemma ipv4_inv:
  assumes "uip_inv I" "uip_tx_do_ipv4 N I h arg = Some (r, I', h')"
  shows "uip_inv I'"
  using assms icmp_inv [OF assms(1)] tcp_inv [OF assms(1)] udp_inv [OF assms(1)]
  by (auto simp: uip_tx_do_ipv4_def Let_def split: if_splits)

lemma tx_frame_inv:
  assumes "uip_inv I" "uip_tx_frame N I h arg = Some (I', h')"
  shows "uip_inv I'"
  using assms arp_inv [OF assms(1), of arg] ipv4_inv [OF assms(1), of N h arg]
  by (auto simp: uip_tx_frame_def Let_def split: if_splits)

lemma tx_inv:
  assumes "uip_inv I" "uip_tx N malloc junk m iov out I h = Some (r, I', h')"
  shows "uip_inv I'"
proof -
  have "I' = I \<or> (\<exists>arg. uip_tx_frame N I h arg = Some (I', h'))"
    using assms(2) unfolding uip_tx_def Let_def by (elim if_split [THEN iffD1, elim_format] conjE) (auto split: if_splits)
  then show ?thesis using assms(1) by (auto intro: tx_frame_inv)
qed

lemma rx_inv:
  assumes "uip_inv I" "uip_rx iov m I = Some (r, m', I')"
  shows "uip_inv I'"
  using assms(1)
proof (cases rule: get_used_cases)
  case waits
  then show ?thesis using assms(2) by (simp add: uip_rx_def)
next
  case (gets i J)
  then show ?thesis using assms(2) set_free_inv [OF gets(2,3)] by (auto simp: uip_rx_def Let_def split: option.splits)
qed

lemma thread_send_inv: "uip_inv I \<Longrightarrow> tcp_thread_send I p left = Some (left', I') \<Longrightarrow> uip_inv I'"
  by (auto simp: tcp_thread_send_def Let_def dest: payload_send_inv split: option.splits if_splits)

lemma thread_out_inv:
  assumes "uip_inv I" "tcp_thread_out N I h p = Some (I', h')"
  shows "uip_inv I'"
proof -
  obtain r J h1 K sk where "uip_tcp_socket_close N I h p SHUT_RD = Some (r, J, h1)"
    "uip_tcp_payload_send J p (FLAG_FIN OR FLAG_ACK) [] = Some K" "I' = set_sk p sk K"
    using assms(2) by (auto simp: tcp_thread_out_def split: option.splits)
  then show ?thesis using assms(1) close_bufs same_bufs_inv payload_send_inv set_sk_bufs(2) by metis
qed

text \<open>The steps of the network: frames from and to the guest, and the two kinds of receiving threads.\<close>

inductive uip_step :: "'h net_host \<Rightarrow> uip_info \<Rightarrow> uip_info \<Rightarrow> bool" for N where
  guest_sends: "uip_tx N malloc junk m iov out I h = Some (r, I', h') \<Longrightarrow> uip_step N I I'"
| guest_receives: "uip_rx vs m I = Some (r, m', I') \<Longrightarrow> uip_step N I I'"
| datagram: "uip_udp_socket_thread I k payload = Some I' \<Longrightarrow> uip_step N I I'"
| segment: "tcp_thread_send I p left = Some (left', I') \<Longrightarrow> uip_step N I I'"
| stream_ends: "tcp_thread_out N I h p = Some (I', h') \<Longrightarrow> uip_step N I I'"

inductive uip_reachable :: "'h net_host \<Rightarrow> uip_info \<Rightarrow> bool" for N where
  initialised: "length (host_mac I) = 6 \<Longrightarrow> length (guest_mac I) = 6 \<Longrightarrow> 0 \<le> sint (buf_nr I) \<Longrightarrow>
     uip_reachable N (snd (uip_init aton resolv (uip_static_init I)))"
| stepped: "uip_reachable N I \<Longrightarrow> uip_step N I I' \<Longrightarrow> uip_reachable N I'"

lemma get_dns_bufs: "same_bufs I (snd (get_dns_loop aton ls n r I))"
proof (induction aton ls n r I rule: get_dns_loop.induct)
  case (2 aton key val ls n ret I)
  then show ?case by (simp add: same_bufs_def split: option.splits)
qed simp

lemma step_inv: "uip_step N I I' \<Longrightarrow> uip_inv I \<Longrightarrow> uip_inv I'"
  by (induction rule: uip_step.induct) (blast intro: tx_inv rx_inv udp_thread_inv thread_send_inv thread_out_inv)+

lemma reachable_inv: "uip_reachable N I \<Longrightarrow> uip_inv I"
proof (induction rule: uip_reachable.induct)
  case (initialised I aton resolv)
  define J where "J = (uip_static_init I)\<lparr> uip_bufs := map (new_buf (vnet_hdr_len I)) [0..<nat (sint (buf_nr I))], buf_free_nr := sint (buf_nr I) \<rparr>"
  have "filter (\<lambda>b. ub_status b = BUF_USED) (map (new_buf w) ns) = []" "filter (\<lambda>b. ub_status b = BUF_FREE) (map (new_buf w) ns) = map (new_buf w) ns" for w ns
    by (simp_all add: filter_empty_conv filter_id_conv new_buf_def)
  then have "uip_inv J" using initialised by (simp add: J_def uip_inv_def buf_count_def uip_static_init_def)
  moreover have "snd (uip_init aton resolv (uip_static_init I)) = snd (uip_dhcp_get_dns aton resolv J)"
    by (simp add: uip_init_def Let_def J_def uip_static_init_def)
  moreover have "same_bufs J (snd (uip_dhcp_get_dns aton resolv J))"
    by (simp add: uip_dhcp_get_dns_def get_dns_bufs split: option.splits)
  ultimately show ?case using same_bufs_inv by metis
qed (rule step_inv)


definition silent_net :: "unit net_host" where
  "silent_net = \<lparr> net_malloc = (\<lambda>h. (Some 7, h)), net_socket = (\<lambda>h _. (3, h)), net_nonblock = (\<lambda>h _. h), net_epoll_create = (\<lambda>h. (4, h)),
     net_epoll_add = (\<lambda>h _ _. h), net_sendto = (\<lambda>h _ _ _ n. (n, h)), net_connect = (\<lambda>h _ _. (0, h)), net_write = (\<lambda>h _ bs. (int (length bs), h)),
     net_shutdown = (\<lambda>h _ _. h), net_close = (\<lambda>h _. h), net_thread = (\<lambda>h. (True, h)) \<rparr>"

definition small_net :: uip_info where
  "small_net = \<lparr> udp_sockets = [], tcp_sockets = [], guest_mac = [2, 21, 21, 21, 21, 21], host_mac = [2, 1, 1, 1, 1, 1], uip_bufs = [],
     udp_thread = False, udp_epollfd = 0, buf_free_nr = 0, buf_used_nr = 0, guest_ip = 0xc0a8210f, guest_netmask = 0xffffff00,
     host_ip = 0xc0a82101, dns_ip = [0, 0, 0], domain_name = None, buf_nr = 2, vnet_hdr_len = 10 \<rparr>"


subsection \<open>The stream to the guest\<close>

text \<open>
  What the thread has sent of the bytes \<open>data\<close> of one read, in the steps of an interleaving: its own rounds, and any other steps of
  the network, which leave the sequence number of the connection alone. A sent segment is looked at in the buffer it was
  put into, the first free one; the third part is the limit the guest had set, its acknowledgement plus its window.
\<close>

definition sent_frame :: "uip_info \<Rightarrow> uip_info \<Rightarrow> buf option" where
  "sent_frame I I' = map_option (\<lambda>i. ub_eth (uip_bufs I' ! i)) (find_buf BUF_FREE (uip_bufs I))"

inductive tcp_stream :: "nat \<Rightarrow> u8 list \<Rightarrow> u32 \<Rightarrow> uip_info \<Rightarrow> u8 list \<Rightarrow> (u32 \<times> u8 list \<times> u32) list \<Rightarrow> bool" for p data s0 where
  read: "uip_inv I \<Longrightarrow> tcp_sk I p = Some sk \<Longrightarrow> seq_server sk = s0 \<Longrightarrow> tcp_stream p data s0 I data []"
| send: "tcp_stream p data s0 I left segs \<Longrightarrow> left \<noteq> [] \<Longrightarrow> tcp_sk I p = Some sk \<Longrightarrow> tcp_thread_send I p left = Some (left', I') \<Longrightarrow>
     sent_frame I I' = Some e \<Longrightarrow>
     tcp_stream p data s0 I' left'
       (segs @ [(bswap32 (get32 e TCP_SEQ), buf_read (buf_at e (uip_tcp_payload e)) (unat (uip_tcp_payloadlen e)), guest_acked sk + ucast (window_size sk))])"
| others: "tcp_stream p data s0 I left segs \<Longrightarrow> uip_inv I' \<Longrightarrow> tcp_sk I p = Some sk \<Longrightarrow> tcp_sk I' p = Some sk' \<Longrightarrow>
     seq_server sk' = seq_server sk \<Longrightarrow> tcp_stream p data s0 I' left segs"

fun segments_ok :: "u32 \<Rightarrow> (u32 \<times> u8 list \<times> u32) list \<Rightarrow> bool" where
  "segments_ok s [] = True"
| "segments_ok s ((q, bs, limit) # segs) =
     (q = s \<and> bs \<noteq> [] \<and> int (length bs) \<le> sint (limit - q) \<and> segments_ok (s + of_nat (length bs)) segs)"

definition stream_bytes :: "(u32 \<times> u8 list \<times> u32) list \<Rightarrow> u8 list" where
  "stream_bytes segs = concat (map (\<lambda>(q, bs, limit). bs) segs)"

lemma stream_bytes_simps [simp]:
  "stream_bytes [] = []" "stream_bytes ((q, bs, limit) # xs) = bs @ stream_bytes xs" "stream_bytes (xs @ ys) = stream_bytes xs @ stream_bytes ys"
  by (simp_all add: stream_bytes_def)

lemma segments_ok_append:
  "segments_ok s (xs @ ys) \<longleftrightarrow> segments_ok s xs \<and> segments_ok (s + of_nat (length (stream_bytes xs))) ys"
  by (induction s xs rule: segments_ok.induct) (auto simp: add.assoc)

lemma map_of_set_sk: "tcp_sockets I' = tcp_sockets (set_sk p sk' I) \<Longrightarrow> tcp_sk I p = Some sk \<Longrightarrow> tcp_sk I' q = (if q = p then Some sk' else tcp_sk I q)"
proof -
  assume a: "tcp_sockets I' = tcp_sockets (set_sk p sk' I)" "tcp_sk I p = Some sk"
  have "map_of (map (\<lambda>(q, s). (q, if q = p then sk' else s)) xs) q = (if q = p \<and> map_of xs p \<noteq> None then Some sk' else map_of xs q)" for xs
    by (induction xs) auto
  then show ?thesis using a by (simp add: tcp_sk_def set_sk_def)
qed

lemma thread_send_effect:
  assumes "uip_inv I" "tcp_thread_send I p left = Some (left', I')" "left \<noteq> []" "tcp_sk I p = Some sk" "sent_frame I I' = Some e"
  defines "bs \<equiv> buf_read (buf_at e (uip_tcp_payload e)) (unat (uip_tcp_payloadlen e))"
  shows "bswap32 (get32 e TCP_SEQ) = seq_server sk" "bs @ left' = left" "bs \<noteq> []" "int (length bs) \<le> tcp_window sk"
    "\<exists>sk'. tcp_sk I' p = Some sk' \<and> seq_server sk' = seq_server sk + of_nat (length bs)"
proof -
  define n where "n = min (min (nat (tcp_window sk)) (length left)) UIP_MAX_TCP_PAYLOAD"
  have w: "tcp_window sk > 0" and s: "uip_tcp_payload_send I p FLAG_ACK (take n left) = Some I'" and l: "left' = drop n left"
    using assms(2,4) by (auto simp: tcp_thread_send_def Let_def n_def split: if_splits)
  have n: "n \<le> length left" "n \<le> nat (tcp_window sk)" "n \<le> UIP_MAX_TCP_PAYLOAD" "0 < n"
    using w assms(3) by (simp_all add: n_def)
  define pl where "pl = take n left"
  have lpl: "length pl = n" using n(1) by (simp add: pl_def)
  have pl: "pl @ left' = left" "pl \<noteq> []" "int (length pl) \<le> tcp_window sk"
    using n(2,4) w lpl assms(3) by (simp_all add: pl_def l le_nat_iff)
  obtain i sk2 b where i: "i < length (uip_bufs I)" "find_buf BUF_FREE (uip_bufs I) = Some i" "tcp_sk I p = Some sk2"
      "uip_bufs I' = (uip_bufs I)[i := b]"
    and b: "ub_eth b = tcp_frame I sk2 (ub_eth (uip_bufs I ! i)) FLAG_ACK pl"
    and t: "tcp_sockets I' = tcp_sockets (set_sk p (sk2\<lparr> seq_server := seq_server sk2 + of_nat (length pl) \<rparr>) I)"
    by (rule payload_send_effect [OF assms(1) s [folded pl_def]]) blast
  have sk2: "sk2 = sk" using i(3) assms(4) by simp
  have e: "e = tcp_frame I sk (ub_eth (uip_bufs I ! i)) FLAG_ACK pl" using assms(5) i b by (simp add: sent_frame_def sk2)
  have mac: "length (host_mac I) = 6" "length (guest_mac I) = 6" using assms(1) by (simp_all add: uip_inv_def)
  have max: "length pl \<le> UIP_MAX_TCP_PAYLOAD" using lpl n(3) by (simp only:)
  note fr = tcp_frame_ok [OF mac max, where sk = sk and e = "ub_eth (uip_bufs I ! i)" and flag = "FLAG_ACK", folded e]
  have "unat (of_nat (length pl) :: u16) = length pl" using max by (intro unat_of_nat16) simp
  then have bs: "bs = pl" unfolding bs_def fr(4) using fr(5) by simp
  show "bswap32 (get32 e TCP_SEQ) = seq_server sk" by (rule fr(6))
  show "bs @ left' = left" "bs \<noteq> []" "int (length bs) \<le> tcp_window sk" using pl by (simp_all add: bs)
  show "\<exists>sk'. tcp_sk I' p = Some sk' \<and> seq_server sk' = seq_server sk + of_nat (length bs)"
    using map_of_set_sk [OF t i(3), of p] by (simp add: bs sk2)
qed


definition open_sk :: uip_tcp_socket where
  "open_sk = \<lparr> ts_addr = (0x0100007f, 80), ts_dport = 80, ts_sport = 4000, guest_acked = 100, window_size = 2, isn_server = 99, isn_guest = 7,
     ack_server = 8, seq_server = 100, write_done = False, read_done = False, ts_dip = 1, ts_sip = 2, ts_thread = True, ts_fd = 3 \<rparr>"

definition busy_net :: uip_info where
  "busy_net = small_net\<lparr> tcp_sockets := [(5, open_sk)], uip_bufs := [new_buf 10 0], buf_free_nr := 1 \<rparr>"


text \<open>
  The other steps are as the stream assumes: what the guest sends on the connection, other than a second request to open it, leaves the
  sequence number alone.
\<close>

lemma payload_send_empty:
  assumes "uip_inv I" "uip_tcp_payload_send I q flag [] = Some I'" "tcp_sk I p = Some sk"
  shows "\<exists>sk'. tcp_sk I' p = Some sk' \<and> seq_server sk' = seq_server sk"
proof -
  obtain sk2 where "tcp_sk I q = Some sk2" "tcp_sockets I' = tcp_sockets (set_sk q (sk2\<lparr> seq_server := seq_server sk2 + of_nat (length ([] :: u8 list)) \<rparr>) I)"
    by (rule payload_send_effect [OF assms(1,2)]) blast
  then show ?thesis using map_of_set_sk [of I' q _ I sk2 p] assms(3) by auto
qed

text \<open>The buffers are too small by the Ethernet header: a segment of the greatest length that the thread reads does not fit.\<close>

lemma big_segment_overflows:
  assumes "length payload = UIP_MAX_TCP_PAYLOAD"
  shows "uip_tcp_payload_send I p flag payload = None"
  using assms by (auto simp: uip_tcp_payload_send_def split: option.splits)

end
