(* ===== verification/Thread_Pool.thy ===== *)
theory Thread_Pool
  imports Kvmc_Prelude
begin

section \<open>The thread pool (util/threadpool.c, include/kvm/threadpool.h)\<close>

text \<open>
  Workers take jobs from one queue and run their callbacks; any thread asks for a run with
  \<open>thread_pool__do_job\<close>. The state holds the jobs by address, the queue, the workers' program
  counters, the calls of \<open>thread_pool__do_job\<close> in progress (made by VCPU threads or by callbacks) and
  the program counter of the main thread, which starts and stops the pool. Steps of different threads
  interleave freely. A region under \<open>job_mutex\<close> whose only content is one list operation or one
  signal is one step, taken when the mutex is free; the region of the worker loop, which tests
  \<open>running\<close>, pops and may wait, is split at these points and owns the mutex. The mutex of a job is
  owned from its lock to its unlock. \<open>tp_log\<close> records calls and callback runs for the statements
  below; no operation reads it. The link of a job in the queue is its occurrence in \<open>tp_head\<close>; the
  pointer to the machine, one for the process, is left out of a job.
\<close>

type_synonym jid = nat

datatype owner = By_worker nat | By_caller nat

record thread_pool__job =
  job_callback :: "nat option"
  job_data :: nat
  signalcount :: int
  job_lock :: "owner option"

datatype worker =
    W_Top | W_Lock | W_Test | W_Pop | W_Wait | W_Got "jid option" | W_Check "jid option"
  | W_Run jid | W_Dec jid | W_Push jid | W_Rel jid | W_Next | W_Exit

datatype caller = C_Idle | C_Push jid | C_Rel jid | C_Signal

datatype main_thread = M_Init nat | M_Run | M_Signal nat | M_Join nat | M_Done

datatype tp_event = Notify jid | Start jid

record pool =
  tp_jobs :: "jid \<Rightarrow> thread_pool__job"
  tp_head :: "jid list"
  tp_threads :: "worker list"
  tp_running :: bool
  tp_job_mutex :: "nat option"
  tp_callers :: "caller list"
  tp_main :: main_thread
  tp_thread_count :: nat
  tp_log :: "tp_event list"

definition thread_pool__init_job :: "jid \<Rightarrow> nat option \<Rightarrow> nat \<Rightarrow> pool \<Rightarrow> pool" where
  "thread_pool__init_job j cb d s =
     s\<lparr> tp_jobs := (tp_jobs s)(j := \<lparr> job_callback = cb, job_data = d, signalcount = 0, job_lock = None \<rparr>) \<rparr>"

definition thread_pool__job_pop_locked :: "pool \<Rightarrow> jid option \<times> pool" where
  "thread_pool__job_pop_locked s =
     (case tp_head s of [] \<Rightarrow> (None, s) | j # js \<Rightarrow> (Some j, s\<lparr> tp_head := js \<rparr>))"

definition thread_pool__job_push_locked :: "jid \<Rightarrow> pool \<Rightarrow> pool" where
  "thread_pool__job_push_locked j s = s\<lparr> tp_head := tp_head s @ [j] \<rparr>"

definition thread_pool__job_pop :: "pool \<Rightarrow> (jid option \<times> pool) option" where
  "thread_pool__job_pop s =
     (if tp_job_mutex s = None then Some (thread_pool__job_pop_locked s) else None)"

definition thread_pool__job_push :: "jid \<Rightarrow> pool \<Rightarrow> pool option" where
  "thread_pool__job_push j s =
     (if tp_job_mutex s = None then Some (thread_pool__job_push_locked j s) else None)"

definition set_worker :: "nat \<Rightarrow> worker \<Rightarrow> pool \<Rightarrow> pool" where
  "set_worker w pc s = s\<lparr> tp_threads := (tp_threads s)[w := pc] \<rparr>"

definition set_caller :: "nat \<Rightarrow> caller \<Rightarrow> pool \<Rightarrow> pool" where
  "set_caller c pc s = s\<lparr> tp_callers := (tp_callers s)[c := pc] \<rparr>"

definition set_lock :: "jid \<Rightarrow> owner option \<Rightarrow> pool \<Rightarrow> pool" where
  "set_lock j ow s = s\<lparr> tp_jobs := (tp_jobs s)(j := (tp_jobs s j)\<lparr> job_lock := ow \<rparr>) \<rparr>"

definition add_signal :: "jid \<Rightarrow> int \<Rightarrow> pool \<Rightarrow> pool" where
  "add_signal j k s =
     s\<lparr> tp_jobs := (tp_jobs s)(j := (tp_jobs s j)\<lparr> signalcount := signalcount (tp_jobs s j) + k \<rparr>) \<rparr>"

definition log_event :: "tp_event \<Rightarrow> pool \<Rightarrow> pool" where
  "log_event e s = s\<lparr> tp_log := e # tp_log s \<rparr>"

text \<open>The head of the loop of \<open>thread_pool__handle_job\<close>: a job starts its callback, no job returns.\<close>

definition handle_next :: "nat \<Rightarrow> jid option \<Rightarrow> pool \<Rightarrow> pool" where
  "handle_next w job s =
     (case job of None \<Rightarrow> set_worker w W_Top s | Some j \<Rightarrow> set_worker w (W_Run j) (log_event (Start j) s))"

text \<open>The steps of \<open>thread_pool__handle_job\<close>; \<open>None\<close> means that the worker is blocked on a mutex.\<close>

fun thread_pool__handle_job :: "nat \<Rightarrow> worker \<Rightarrow> pool \<Rightarrow> pool option" where
  "thread_pool__handle_job w (W_Run j) s = Some (set_worker w (W_Dec j) s)"
| "thread_pool__handle_job w (W_Dec j) s =
     (if job_lock (tp_jobs s j) \<noteq> None then None
      else let s = add_signal j (- 1) (set_lock j (Some (By_worker w)) s) in
           Some (set_worker w (if signalcount (tp_jobs s j) > 0 then W_Push j else W_Rel j) s))"
| "thread_pool__handle_job w (W_Push j) s = map_option (set_worker w (W_Rel j)) (thread_pool__job_push j s)"
| "thread_pool__handle_job w (W_Rel j) s = Some (set_worker w W_Next (set_lock j None s))"
| "thread_pool__handle_job w W_Next s =
     map_option (\<lambda>(job, s). handle_next w job s) (thread_pool__job_pop s)"
| "thread_pool__handle_job w _ s = None"

fun thread_pool__threadfunc :: "nat \<Rightarrow> worker \<Rightarrow> pool \<Rightarrow> pool option" where
  "thread_pool__threadfunc w W_Top s = Some (set_worker w (if tp_running s then W_Lock else W_Exit) s)"
| "thread_pool__threadfunc w W_Lock s =
     (if tp_job_mutex s \<noteq> None then None
      else Some (set_worker w W_Test (s\<lparr> tp_job_mutex := Some w \<rparr>)))"
| "thread_pool__threadfunc w W_Test s =
     Some (set_worker w (if tp_running s then W_Pop else W_Got None) s)"
| "thread_pool__threadfunc w W_Pop s =
     (case thread_pool__job_pop_locked s of
        (None, s) \<Rightarrow> Some (set_worker w W_Wait (s\<lparr> tp_job_mutex := None \<rparr>))
      | (Some j, s) \<Rightarrow> Some (set_worker w (W_Got (Some j)) s))"
| "thread_pool__threadfunc w W_Wait s = None"
| "thread_pool__threadfunc w (W_Got job) s = Some (set_worker w (W_Check job) (s\<lparr> tp_job_mutex := None \<rparr>))"
| "thread_pool__threadfunc w (W_Check job) s =
     Some (if tp_running s then handle_next w job s else set_worker w W_Top s)"
| "thread_pool__threadfunc w W_Exit s = None"
| "thread_pool__threadfunc w pc s = thread_pool__handle_job w pc s"

definition worker_step :: "nat \<Rightarrow> pool \<Rightarrow> pool option" where
  "worker_step w s = thread_pool__threadfunc w (tp_threads s ! w) s"

text \<open>
  \<^verbatim>\<open>pthread_cond_signal\<close> unblocks at least one of the threads that wait, here the worker \<open>p\<close>; further ones
  are spurious wake-ups. \<open>None\<close> when \<open>p\<close> does not wait although another worker does.
\<close>

definition pthread_cond_signal :: "nat \<Rightarrow> pool \<Rightarrow> pool option" where
  "pthread_cond_signal p s =
     (if W_Wait \<notin> set (tp_threads s) then Some s
      else if p < length (tp_threads s) \<and> tp_threads s ! p = W_Wait then Some (set_worker p W_Lock s)
      else None)"

text \<open>
  \<open>thread_pool__do_job\<close> on a job or NULL, from the call to the release of the job's mutex and then the signal. The outer
  \<open>None\<close> is a blocked call, also the one whose counter would pass the largest \<^verbatim>\<open>int\<close>.
\<close>

definition thread_pool__do_job :: "nat \<Rightarrow> jid option \<Rightarrow> pool \<Rightarrow> pool option" where
  "thread_pool__do_job c job s =
     (case job of
        None \<Rightarrow> Some s
      | Some j \<Rightarrow>
          if job_callback (tp_jobs s j) = None then Some s
          else if job_lock (tp_jobs s j) \<noteq> None \<or> signalcount (tp_jobs s j) \<ge> 2 ^ 31 - 1 then None
          else Some (set_caller c (if signalcount (tp_jobs s j) = 0 then C_Push j else C_Rel j)
                 (add_signal j 1 (set_lock j (Some (By_caller c)) (log_event (Notify j) s)))))"

fun do_job_step :: "nat \<Rightarrow> nat \<Rightarrow> caller \<Rightarrow> pool \<Rightarrow> pool option" where
  "do_job_step c p C_Idle s = None"
| "do_job_step c p (C_Push j) s = map_option (set_caller c (C_Rel j)) (thread_pool__job_push j s)"
| "do_job_step c p (C_Rel j) s = Some (set_caller c C_Signal (set_lock j None s))"
| "do_job_step c p C_Signal s =
     (if tp_job_mutex s \<noteq> None then None else map_option (set_caller c C_Idle) (pthread_cond_signal p s))"

definition caller_step :: "nat \<Rightarrow> nat \<Rightarrow> pool \<Rightarrow> pool option" where
  "caller_step c p s = do_job_step c p (tp_callers s ! c) s"

text \<open>
  \<open>grown\<close> is whether \<^verbatim>\<open>realloc\<close> succeeds, \<open>err\<close> what \<^verbatim>\<open>pthread_create\<close> returns: 0 or a positive error
  number, as POSIX has it.
\<close>

definition thread_pool__addthread :: "bool \<Rightarrow> nat \<Rightarrow> pool \<Rightarrow> int \<times> pool" where
  "thread_pool__addthread grown err s =
     (if \<not> grown then (- 1, s)
      else if err = 0 then (0, s\<lparr> tp_threads := tp_threads s @ [W_Top] \<rparr>)
      else (int err, s))"

definition thread_pool__init :: "nat \<Rightarrow> bool \<Rightarrow> nat \<Rightarrow> pool \<Rightarrow> pool" where
  "thread_pool__init i grown err s =
     (if i < tp_thread_count s then
        case thread_pool__addthread grown err s of
          (r, s) \<Rightarrow> s\<lparr> tp_main := (if r < 0 then M_Run else M_Init (Suc i)) \<rparr>
      else s\<lparr> tp_main := M_Run \<rparr>)"

fun thread_pool__exit :: "nat \<Rightarrow> main_thread \<Rightarrow> pool \<Rightarrow> pool option" where
  "thread_pool__exit p M_Run s = Some (s\<lparr> tp_running := False, tp_main := M_Signal 0 \<rparr>)"
| "thread_pool__exit p (M_Signal i) s =
     (if i < length (tp_threads s) then
        if tp_job_mutex s \<noteq> None then None
        else map_option (\<lambda>s. s\<lparr> tp_main := M_Signal (Suc i) \<rparr>) (pthread_cond_signal p s)
      else Some (s\<lparr> tp_main := M_Join 0 \<rparr>))"
| "thread_pool__exit p (M_Join i) s =
     (if i < length (tp_threads s) then
        if tp_threads s ! i = W_Exit then Some (s\<lparr> tp_main := M_Join (Suc i) \<rparr>) else None
      else Some (s\<lparr> tp_main := M_Done \<rparr>))"
| "thread_pool__exit p _ s = None"

text \<open>A job with no request outstanding may be initialised, as the set-up of a device does.\<close>

definition job_idle :: "jid \<Rightarrow> pool \<Rightarrow> bool" where
  "job_idle j s \<longleftrightarrow> signalcount (tp_jobs s j) = 0 \<and> job_lock (tp_jobs s j) = None"

inductive pool_step :: "pool \<Rightarrow> pool \<Rightarrow> bool" where
  step_worker: "w < length (tp_threads s) \<Longrightarrow> worker_step w s = Some s' \<Longrightarrow> pool_step s s'"
| step_spurious: "w < length (tp_threads s) \<Longrightarrow> tp_threads s ! w = W_Wait \<Longrightarrow>
    pool_step s (set_worker w W_Lock s)"
| step_call: "c < length (tp_callers s) \<Longrightarrow> tp_callers s ! c = C_Idle \<Longrightarrow>
    thread_pool__do_job c job s = Some s' \<Longrightarrow> pool_step s s'"
| step_caller: "c < length (tp_callers s) \<Longrightarrow> caller_step c p s = Some s' \<Longrightarrow> pool_step s s'"
| step_init: "tp_main s = M_Init i \<Longrightarrow> pool_step s (thread_pool__init i grown err s)"
| step_exit: "thread_pool__exit p (tp_main s) s = Some s' \<Longrightarrow> pool_step s s'"
| step_setup: "job_idle j s \<Longrightarrow> pool_step s (thread_pool__init_job j cb d s)"

definition pool_start :: "nat \<Rightarrow> nat \<Rightarrow> pool" where
  "pool_start n m =
     \<lparr> tp_jobs = (\<lambda>_. \<lparr> job_callback = None, job_data = 0, signalcount = 0, job_lock = None \<rparr>), tp_head = [],
       tp_threads = [], tp_running = True, tp_job_mutex = None, tp_callers = replicate m C_Idle,
       tp_main = M_Init 0, tp_thread_count = n, tp_log = [] \<rparr>"

inductive pool_reachable :: "pool \<Rightarrow> bool" where
  reach_start: "pool_reachable (pool_start n m)"
| reach_step: "pool_reachable s \<Longrightarrow> pool_step s s' \<Longrightarrow> pool_reachable s'"

inductive_cases pool_stepE: "pool_step s s'"

subsection \<open>What the threads hold\<close>

definition cnt :: "('a \<Rightarrow> bool) \<Rightarrow> 'a list \<Rightarrow> int" where
  "cnt P xs = int (length (filter P xs))"

fun w_holds :: "jid \<Rightarrow> worker \<Rightarrow> bool" where
  "w_holds j (W_Got job) \<longleftrightarrow> job = Some j"
| "w_holds j (W_Check job) \<longleftrightarrow> job = Some j"
| "w_holds j (W_Run i) \<longleftrightarrow> i = j"
| "w_holds j (W_Dec i) \<longleftrightarrow> i = j"
| "w_holds j (W_Push i) \<longleftrightarrow> i = j"
| "w_holds j _ \<longleftrightarrow> False"

fun w_runs :: "jid \<Rightarrow> worker \<Rightarrow> bool" where
  "w_runs j (W_Run i) \<longleftrightarrow> i = j"
| "w_runs j (W_Dec i) \<longleftrightarrow> i = j"
| "w_runs j _ \<longleftrightarrow> False"

fun w_locks :: "jid \<Rightarrow> worker \<Rightarrow> bool" where
  "w_locks j (W_Push i) \<longleftrightarrow> i = j"
| "w_locks j (W_Rel i) \<longleftrightarrow> i = j"
| "w_locks j _ \<longleftrightarrow> False"

fun w_in_mutex :: "worker \<Rightarrow> bool" where
  "w_in_mutex W_Test \<longleftrightarrow> True"
| "w_in_mutex W_Pop \<longleftrightarrow> True"
| "w_in_mutex (W_Got job) \<longleftrightarrow> True"
| "w_in_mutex _ \<longleftrightarrow> False"

fun w_sleepy :: "worker \<Rightarrow> bool" where
  "w_sleepy W_Pop \<longleftrightarrow> True"
| "w_sleepy W_Wait \<longleftrightarrow> True"
| "w_sleepy _ \<longleftrightarrow> False"

fun c_locks :: "jid \<Rightarrow> caller \<Rightarrow> bool" where
  "c_locks j (C_Push i) \<longleftrightarrow> i = j"
| "c_locks j (C_Rel i) \<longleftrightarrow> i = j"
| "c_locks j _ \<longleftrightarrow> False"

definition pending :: "jid \<Rightarrow> pool \<Rightarrow> int" where
  "pending j s = int (count_list (tp_head s) j) + cnt (w_holds j) (tp_threads s) +
     cnt (\<lambda>c. c = C_Push j) (tp_callers s)"

definition notified :: "jid \<Rightarrow> pool \<Rightarrow> int" where
  "notified j s = int (count_list (tp_log s) (Notify j))"

definition started :: "jid \<Rightarrow> pool \<Rightarrow> int" where
  "started j s = int (count_list (tp_log s) (Start j))"

lemma cnt_simps [simp]: "cnt P [] = 0" "cnt P (x # xs) = of_bool (P x) + cnt P xs"
  "cnt P (xs @ ys) = cnt P xs + cnt P ys" "cnt P (replicate n x) = of_bool (P x) * int n"
  by (auto simp: cnt_def)

lemma cnt_update [simp]:
  "w < length xs \<Longrightarrow> cnt P (xs[w := v]) = cnt P xs - of_bool (P (xs ! w)) + of_bool (P v)"
  by (induction xs arbitrary: w) (auto split: nat.splits)

lemma cnt_nonneg [simp]: "0 \<le> cnt P xs" by (simp add: cnt_def)

lemma cnt_pos: "w < length xs \<Longrightarrow> P (xs ! w) \<Longrightarrow> 1 \<le> cnt P xs"
  by (induction xs arbitrary: w) (auto simp: less_Suc_eq_0_disj add_increasing)

lemma cnt_le: "cnt P xs \<le> int (length xs)" by (simp add: cnt_def)

lemma cnt_zero: "cnt P xs = 0 \<Longrightarrow> w < length xs \<Longrightarrow> \<not> P (xs ! w)"
  using cnt_pos [of w xs P] by auto

lemma cnt_two:
  "w < length xs \<Longrightarrow> w' < length xs \<Longrightarrow> w \<noteq> w' \<Longrightarrow> P (xs ! w) \<Longrightarrow> P (xs ! w') \<Longrightarrow> 2 \<le> cnt P xs"
proof (induction xs arbitrary: w w')
  case (Cons x xs)
  then show ?case
    by (cases w; cases w') (auto dest: cnt_pos)
qed simp

text \<open>
  Who owns which mutex; how many requests a job has and where the job is; that a queued job has a thread that will
  look at the queue; and how far the shutdown is.
\<close>

definition inv_lock :: "pool \<Rightarrow> bool" where
  "inv_lock s \<longleftrightarrow>
     (\<forall>w. tp_job_mutex s = Some w \<longleftrightarrow> w < length (tp_threads s) \<and> w_in_mutex (tp_threads s ! w)) \<and>
     (\<forall>j w. job_lock (tp_jobs s j) = Some (By_worker w) \<longleftrightarrow>
        w < length (tp_threads s) \<and> w_locks j (tp_threads s ! w)) \<and>
     (\<forall>j c. job_lock (tp_jobs s j) = Some (By_caller c) \<longleftrightarrow>
        c < length (tp_callers s) \<and> c_locks j (tp_callers s ! c))"

definition count_ok :: "jid \<Rightarrow> pool \<Rightarrow> bool" where
  "count_ok j s \<longleftrightarrow> 0 \<le> signalcount (tp_jobs s j) \<and>
     pending j s \<le> of_bool (0 < signalcount (tp_jobs s j)) \<and>
     (tp_running s \<longrightarrow> pending j s = of_bool (0 < signalcount (tp_jobs s j))) \<and>
     notified j s = started j s + signalcount (tp_jobs s j) - cnt (w_runs j) (tp_threads s)"

definition inv_wake :: "pool \<Rightarrow> bool" where
  "inv_wake s \<longleftrightarrow> 
     (tp_running s \<longrightarrow> (\<forall>w < length (tp_threads s). tp_threads s ! w \<noteq> W_Exit)) \<and>
     (tp_head s \<noteq> [] \<longrightarrow> tp_threads s \<noteq> [] \<longrightarrow>
       (\<exists>w < length (tp_threads s). tp_threads s ! w \<noteq> W_Wait) \<or>
       (\<exists>c < length (tp_callers s). tp_callers s ! c = C_Signal \<or> (\<exists>j. tp_callers s ! c = C_Rel j)))"

fun exit_ok :: "main_thread \<Rightarrow> pool \<Rightarrow> bool" where
  "exit_ok (M_Init i) s \<longleftrightarrow> tp_running s"
| "exit_ok M_Run s \<longleftrightarrow> tp_running s"
| "exit_ok (M_Signal i) s \<longleftrightarrow> \<not> tp_running s \<and> i \<le> length (tp_threads s) \<and>
     cnt w_sleepy (tp_threads s) + int i \<le> int (length (tp_threads s))"
| "exit_ok (M_Join i) s \<longleftrightarrow> \<not> tp_running s \<and> i \<le> length (tp_threads s) \<and>
     cnt w_sleepy (tp_threads s) = 0 \<and> (\<forall>k < i. tp_threads s ! k = W_Exit)"
| "exit_ok M_Done s \<longleftrightarrow> \<not> tp_running s \<and> (\<forall>k < length (tp_threads s). tp_threads s ! k = W_Exit)"

definition pool_inv :: "pool \<Rightarrow> bool" where
  "pool_inv s \<longleftrightarrow> inv_lock s \<and> (\<forall>j. count_ok j s) \<and> inv_wake s \<and> exit_ok (tp_main s) s"

named_theorems pool_ops \<open>the operations of the pool on its state\<close>

lemmas pool_op_defs [pool_ops] =
  set_worker_def set_caller_def set_lock_def add_signal_def log_event_def handle_next_def
  thread_pool__job_pop_locked_def thread_pool__job_push_locked_def thread_pool__job_pop_def
  thread_pool__job_push_def

lemma pool_start_inv: "pool_inv (pool_start n m)"
  by (auto simp: pool_inv_def pool_start_def inv_lock_def count_ok_def inv_wake_def pending_def notified_def
      started_def)


subsection \<open>Every step keeps the invariant\<close>

lemma lock_move_worker:
  assumes "inv_lock s" "w < length (tp_threads s)" "tp_threads s' = (tp_threads s)[w := pc]"
    "tp_callers s' = tp_callers s"
    "tp_job_mutex s' = (if w_in_mutex pc then Some w else if w_in_mutex (tp_threads s ! w) then None
       else tp_job_mutex s)"
    "w_in_mutex pc \<Longrightarrow> w_in_mutex (tp_threads s ! w) \<or> tp_job_mutex s = None"
    "\<And>j. job_lock (tp_jobs s' j) = (if w_locks j pc then Some (By_worker w)
       else if w_locks j (tp_threads s ! w) then None else job_lock (tp_jobs s j))"
    "\<And>j. w_locks j pc \<Longrightarrow> w_locks j (tp_threads s ! w) \<or> job_lock (tp_jobs s j) = None"
  shows "inv_lock s'"
proof -
  have m: "tp_job_mutex s = Some v \<longleftrightarrow> v < length (tp_threads s) \<and> w_in_mutex (tp_threads s ! v)" for v
    using assms(1) by (simp add: inv_lock_def)
  have l: "job_lock (tp_jobs s j) = Some (By_worker v) \<longleftrightarrow> v < length (tp_threads s) \<and> w_locks j (tp_threads s ! v)" for j v
    using assms(1) by (simp add: inv_lock_def)
  have c: "job_lock (tp_jobs s j) = Some (By_caller v) \<longleftrightarrow> v < length (tp_callers s) \<and> c_locks j (tp_callers s ! v)" for j v
    using assms(1) by (simp add: inv_lock_def)
  have "tp_job_mutex s' = Some v \<longleftrightarrow> v < length (tp_threads s') \<and> w_in_mutex (tp_threads s' ! v)" for v
    using assms(2,3,5,6) m [of v] m [of w] by (cases "v = w") auto
  moreover have "job_lock (tp_jobs s' j) = Some (By_worker v) \<longleftrightarrow> v < length (tp_threads s') \<and> w_locks j (tp_threads s' ! v)" for j v
    using assms(2,3,7) assms(8) [of j] l [of j v] l [of j w] by (cases "v = w") auto
  moreover have "job_lock (tp_jobs s' j) = Some (By_caller v) \<longleftrightarrow> v < length (tp_callers s') \<and> c_locks j (tp_callers s' ! v)" for j v
    using assms(2,3,4,7) assms(8) [of j] c [of j v] l [of j w] by auto
  ultimately show ?thesis by (simp add: inv_lock_def)
qed

lemma worker_lock:
  assumes inv: "inv_lock s" and w: "w < length (tp_threads s)" and step: "worker_step w s = Some s'"
  shows "inv_lock s'"
proof -
  have m: "w_in_mutex (tp_threads s ! w) \<Longrightarrow> tp_job_mutex s = Some w"
    and l: "w_locks j (tp_threads s ! w) \<Longrightarrow> job_lock (tp_jobs s j) = Some (By_worker w)" for j
    using inv w by (simp_all add: inv_lock_def)
  show ?thesis using step w m l
    by (cases "tp_threads s ! w")
      (auto simp: worker_step_def pool_ops Let_def intro!: lock_move_worker [OF inv w]
        split: if_splits list.splits option.splits)
qed

lemma worker_effect:
  assumes "w < length (tp_threads s)" "worker_step w s = Some s'"
  shows "\<exists>pc. tp_threads s' = (tp_threads s)[w := pc] \<and> tp_callers s' = tp_callers s \<and>
      tp_running s' = tp_running s \<and> tp_main s' = tp_main s \<and> (pc = W_Wait \<longrightarrow> tp_head s' = []) \<and>
      (pc = W_Exit \<longrightarrow> \<not> tp_running s) \<and> (w_sleepy pc \<longrightarrow> tp_running s \<or> w_sleepy (tp_threads s ! w)) \<and>
      tp_threads s ! w \<noteq> W_Exit"
  using assms
  by (cases "tp_threads s ! w")
    (auto simp: worker_step_def pool_ops Let_def split: if_splits list.splits option.splits)

lemma worker_wake:
  assumes inv: "inv_wake s" and w: "w < length (tp_threads s)" and step: "worker_step w s = Some s'"
  shows "inv_wake s'"
proof -
  obtain pc where e: "tp_threads s' = (tp_threads s)[w := pc]" "tp_callers s' = tp_callers s"
    "tp_running s' = tp_running s" "tp_main s' = tp_main s" "pc = W_Wait \<longrightarrow> tp_head s' = []"
    "pc = W_Exit \<longrightarrow> \<not> tp_running s" "w_sleepy pc \<longrightarrow> tp_running s \<or> w_sleepy (tp_threads s ! w)"
    "tp_threads s ! w \<noteq> W_Exit"
    using worker_effect [OF w step] by blast
  have "tp_head s' \<noteq> [] \<Longrightarrow> \<exists>w < length (tp_threads s'). tp_threads s' ! w \<noteq> W_Wait"
    using e w by (intro exI [of _ w]) auto
  moreover have "tp_running s' \<Longrightarrow> v < length (tp_threads s') \<Longrightarrow> tp_threads s' ! v \<noteq> W_Exit" for v
    using inv e by (cases "v = w") (auto simp: inv_wake_def)
  ultimately show ?thesis by (auto simp: inv_wake_def)
qed

lemma worker_exit:
  assumes inv: "exit_ok (tp_main s) s" and w: "w < length (tp_threads s)" and step: "worker_step w s = Some s'"
  shows "exit_ok (tp_main s') s'"
proof -
  obtain pc where e: "tp_threads s' = (tp_threads s)[w := pc]" "tp_callers s' = tp_callers s"
    "tp_running s' = tp_running s" "tp_main s' = tp_main s" "pc = W_Wait \<longrightarrow> tp_head s' = []"
    "pc = W_Exit \<longrightarrow> \<not> tp_running s" "w_sleepy pc \<longrightarrow> tp_running s \<or> w_sleepy (tp_threads s ! w)"
    "tp_threads s ! w \<noteq> W_Exit"
    using worker_effect [OF w step] by blast
  show ?thesis
  proof (cases "tp_main s")
    case (M_Join i)
    then have "\<not> w_sleepy (tp_threads s ! w)" using inv w cnt_zero [of w_sleepy "tp_threads s" w] by simp
    moreover have "\<not> w < i" using inv M_Join e(8) by auto
    ultimately show ?thesis using inv e w M_Join by auto
  next
    case M_Done
    then show ?thesis using inv w e(8) by simp
  qed (use inv e w in \<open>auto\<close>)
qed

lemmas count_defs = count_ok_def pool_ops Let_def pending_def notified_def started_def

lemma worker_count:
  assumes inv: "count_ok j s" and w: "w < length (tp_threads s)" and step: "worker_step w s = Some s'"
  shows "count_ok j s'"
proof (cases "tp_threads s ! w")
  case (W_Dec i)
  show ?thesis
  proof (cases "i = j")
    case True
    then have "1 \<le> cnt (w_holds j) (tp_threads s)" using w W_Dec by (auto intro: cnt_pos)
    then have "1 \<le> pending j s" using cnt_nonneg [of "\<lambda>c. c = C_Push j" "tp_callers s"] unfolding pending_def by linarith
    then have "0 < signalcount (tp_jobs s j)" using inv by (cases "0 < signalcount (tp_jobs s j)") (auto simp: count_ok_def)
    then show ?thesis using inv w step True W_Dec
      by (cases "1 < signalcount (tp_jobs s j)")
        (auto simp: worker_step_def count_defs split: if_split_asm)
  next
    case False
    then show ?thesis using inv w step W_Dec
      by (cases "1 < signalcount (tp_jobs s i)")
        (auto simp: worker_step_def count_defs split: if_split_asm)
  qed
next
  case W_Top
  then show ?thesis using inv w step by (auto simp: worker_step_def count_defs)
next
  case W_Lock
  then show ?thesis using inv w step by (auto simp: worker_step_def count_defs split: if_splits)
next
  case W_Test
  then show ?thesis using inv w step by (auto simp: worker_step_def count_defs)
next
  case W_Pop
  then show ?thesis using inv w step by (cases "tp_head s") (auto simp: worker_step_def count_defs)
next
  case W_Wait
  then show ?thesis using inv w step by (auto simp: worker_step_def)
next
  case (W_Got job)
  then show ?thesis using inv w step by (auto simp: worker_step_def count_defs)
next
  case (W_Check job)
  then show ?thesis using inv w step by (cases job) (auto simp: worker_step_def count_defs split: if_splits)
next
  case (W_Run i)
  then show ?thesis using inv w step by (auto simp: worker_step_def count_defs)
next
  case (W_Push i)
  then show ?thesis using inv w step by (auto simp: worker_step_def count_defs split: if_splits)
next
  case (W_Rel i)
  then show ?thesis using inv w step by (cases "i = j") (auto simp: worker_step_def count_defs)
next
  case W_Next
  then show ?thesis using inv w step
    by (cases "tp_head s") (auto simp: worker_step_def count_defs split: if_splits)
next
  case W_Exit
  then show ?thesis using inv w step by (auto simp: worker_step_def)
qed

lemma exit_cong: "tp_threads s' = tp_threads s \<Longrightarrow> tp_running s' = tp_running s \<Longrightarrow> exit_ok m s' = exit_ok m s"
  by (cases m) auto

lemma worker_inv:
  "pool_inv s \<Longrightarrow> w < length (tp_threads s) \<Longrightarrow> worker_step w s = Some s' \<Longrightarrow> pool_inv s'"
  unfolding pool_inv_def by (meson worker_lock worker_count worker_wake worker_exit)

lemma wake_inv:
  assumes inv: "pool_inv s" and w: "w < length (tp_threads s)" "tp_threads s ! w = W_Wait"
  shows "pool_inv (set_worker w W_Lock s)"
proof -
  have ok: "inv_lock s" "count_ok j s" "inv_wake s" "exit_ok (tp_main s) s" for j
    using inv by (auto simp: pool_inv_def)
  have "inv_lock (set_worker w W_Lock s)"
    by (rule lock_move_worker [OF ok(1) w(1), of _ W_Lock]) (simp_all add: w set_worker_def)
  moreover have "count_ok j (set_worker w W_Lock s)" for j
    using ok(2) [of j] w by (simp add: count_defs)
  moreover have "inv_wake (set_worker w W_Lock s)"
  proof -
    have "\<exists>v < length (tp_threads s). (tp_threads s)[w := W_Lock] ! v \<noteq> W_Wait"
      using w(1) by (intro exI [of _ w]) simp
    moreover have "tp_running s \<Longrightarrow> v < length (tp_threads s) \<Longrightarrow> (tp_threads s)[w := W_Lock] ! v \<noteq> W_Exit" for v
      using ok(3) w by (cases "v = w") (simp_all add: inv_wake_def)
    ultimately show ?thesis by (simp add: inv_wake_def set_worker_def)
  qed
  moreover have "exit_ok (tp_main s) (set_worker w W_Lock s)"
  proof (cases "tp_main s")
    case (M_Join i)
    then show ?thesis using ok(4) w cnt_zero [of w_sleepy "tp_threads s" w] by simp
  next
    case M_Done
    then show ?thesis using ok(4) w by simp
  qed (use ok(4) w in \<open>simp_all add: set_worker_def\<close>)
  ultimately show ?thesis by (simp add: pool_inv_def set_worker_def)
qed

lemma signal_cases:
  assumes "pthread_cond_signal p s = Some s'"
  shows "W_Wait \<notin> set (tp_threads s) \<and> s' = s \<or>
    p < length (tp_threads s) \<and> tp_threads s ! p = W_Wait \<and> s' = set_worker p W_Lock s"
  using assms by (auto simp: pthread_cond_signal_def split: if_splits)

lemma signal_inv: "pool_inv s \<Longrightarrow> pthread_cond_signal p s = Some s' \<Longrightarrow> pool_inv s'"
  using signal_cases [of p s s'] wake_inv [of s p] by auto

lemma signal_wakes:
  assumes "pthread_cond_signal p s = Some s'" "tp_threads s \<noteq> []"
  shows "\<exists>w < length (tp_threads s'). tp_threads s' ! w \<noteq> W_Wait"
  using signal_cases [OF assms(1)] assms(2)
  by (auto simp: set_worker_def in_set_conv_nth intro: exI [of _ 0] exI [of _ p])

lemma signal_frame:
  assumes "pthread_cond_signal p s = Some s'"
  shows "tp_callers s' = tp_callers s" "tp_jobs s' = tp_jobs s" "tp_main s' = tp_main s" "tp_running s' = tp_running s"
    "tp_job_mutex s' = tp_job_mutex s" "length (tp_threads s') = length (tp_threads s)"
  using signal_cases [OF assms] by (auto simp: set_worker_def)

lemma lock_move_caller:
  assumes "inv_lock s" "c < length (tp_callers s)" "tp_callers s' = (tp_callers s)[c := pc]"
    "tp_threads s' = tp_threads s" "tp_job_mutex s' = tp_job_mutex s"
    "\<And>j. job_lock (tp_jobs s' j) = (if c_locks j pc then Some (By_caller c)
       else if c_locks j (tp_callers s ! c) then None else job_lock (tp_jobs s j))"
    "\<And>j. c_locks j pc \<Longrightarrow> c_locks j (tp_callers s ! c) \<or> job_lock (tp_jobs s j) = None"
  shows "inv_lock s'"
proof -
  have m: "tp_job_mutex s = Some v \<longleftrightarrow> v < length (tp_threads s) \<and> w_in_mutex (tp_threads s ! v)" for v
    using assms(1) by (simp add: inv_lock_def)
  have l: "job_lock (tp_jobs s j) = Some (By_worker v) \<longleftrightarrow> v < length (tp_threads s) \<and> w_locks j (tp_threads s ! v)" for j v
    using assms(1) by (simp add: inv_lock_def)
  have c: "job_lock (tp_jobs s j) = Some (By_caller v) \<longleftrightarrow> v < length (tp_callers s) \<and> c_locks j (tp_callers s ! v)" for j v
    using assms(1) by (simp add: inv_lock_def)
  have "tp_job_mutex s' = Some v \<longleftrightarrow> v < length (tp_threads s') \<and> w_in_mutex (tp_threads s' ! v)" for v
    using assms(4,5) m [of v] by simp
  moreover have "job_lock (tp_jobs s' j) = Some (By_worker v) \<longleftrightarrow> v < length (tp_threads s') \<and> w_locks j (tp_threads s' ! v)" for j v
    using assms(2,4,6) assms(7) [of j] l [of j v] c [of j c] by auto
  moreover have "job_lock (tp_jobs s' j) = Some (By_caller v) \<longleftrightarrow> v < length (tp_callers s') \<and> c_locks j (tp_callers s' ! v)" for j v
    using assms(2,3,6) assms(7) [of j] c [of j v] c [of j c] by (cases "v = c") auto
  ultimately show ?thesis by (simp add: inv_lock_def)
qed

lemma do_job_inv:
  assumes inv: "pool_inv s" and c: "c < length (tp_callers s)" "tp_callers s ! c = C_Idle"
    and step: "thread_pool__do_job c job s = Some s'"
  shows "pool_inv s'"
proof (cases "s' = s")
  case False
  then obtain j where j: "job = Some j" "job_lock (tp_jobs s j) = None"
    and s': "s' = set_caller c (if signalcount (tp_jobs s j) = 0 then C_Push j else C_Rel j)
        (add_signal j 1 (set_lock j (Some (By_caller c)) (log_event (Notify j) s)))"
    using step by (auto simp: thread_pool__do_job_def split: option.splits if_splits)
  have ok: "inv_lock s" "count_ok i s" "inv_wake s" "exit_ok (tp_main s) s" for i
    using inv by (auto simp: pool_inv_def)
  have "inv_lock s'"
    by (rule lock_move_caller [OF ok(1) c(1),
          of s' "if signalcount (tp_jobs s j) = 0 then C_Push j else C_Rel j"])
      (auto simp: s' c j(2) pool_ops split: if_splits)
  moreover have "count_ok i s'" for i
    using ok(2) [of i] c by (cases "i = j"; cases "signalcount (tp_jobs s j) = 0") (auto simp: s' count_defs)
  moreover have "inv_wake s'"
  proof -
    have keep: "tp_callers s' ! v = tp_callers s ! v" if "tp_callers s ! v \<noteq> C_Idle" for v
      using that c by (cases "v = c") (auto simp: s' pool_ops)
    have "tp_threads s' = tp_threads s" "tp_running s' = tp_running s" "tp_head s' = tp_head s"
      "length (tp_callers s') = length (tp_callers s)" by (simp_all add: s' pool_ops)
    with ok(3) show ?thesis unfolding inv_wake_def by (metis caller.distinct(3,5) keep)
  qed
  moreover have "exit_ok (tp_main s') s'"
    using ok(4) exit_cong [of s' s] by (simp add: s' pool_ops)
  ultimately show ?thesis by (simp add: pool_inv_def)
qed (use inv in simp)

lemma caller_inv:
  assumes inv: "pool_inv s" and c: "c < length (tp_callers s)" and step: "caller_step c p s = Some s'"
  shows "pool_inv s'"
proof -
  have ok: "inv_lock s" "count_ok i s" "inv_wake s" "exit_ok (tp_main s) s" for i
    using inv by (auto simp: pool_inv_def)
  show ?thesis
  proof (cases "tp_callers s ! c")
    case C_Idle
    then show ?thesis using step by (simp add: caller_step_def)
  next
    case (C_Push j)
    then have s': "s' = set_caller c (C_Rel j) (s\<lparr> tp_head := tp_head s @ [j] \<rparr>)"
      using step by (auto simp: caller_step_def pool_ops split: if_splits)
    have l: "job_lock (tp_jobs s j) = Some (By_caller c)" using ok(1) C_Push c by (simp add: inv_lock_def)
    have "inv_lock s'"
      by (rule lock_move_caller [OF ok(1) c, of s' "C_Rel j"]) (auto simp: s' C_Push l pool_ops)
    moreover have "count_ok i s'" for i using ok(2) [of i] c C_Push by (auto simp: s' count_defs)
    moreover have "inv_wake s'"
      using ok(3) c by (auto simp: inv_wake_def s' pool_ops intro: exI [of _ c])
    moreover have "exit_ok (tp_main s') s'"
      using ok(4) exit_cong [of s' s] by (simp add: s' pool_ops)
    ultimately show ?thesis by (simp add: pool_inv_def)
  next
    case (C_Rel j)
    then have s': "s' = set_caller c C_Signal (set_lock j None s)" using step by (simp add: caller_step_def)
    have "inv_lock s'"
      by (rule lock_move_caller [OF ok(1) c, of s' C_Signal]) (auto simp: s' C_Rel pool_ops)
    moreover have "count_ok i s'" for i using ok(2) [of i] c C_Rel by (cases "i = j") (auto simp: s' count_defs)
    moreover have "inv_wake s'"
      using ok(3) c by (auto simp: inv_wake_def s' pool_ops intro: exI [of _ c])
    moreover have "exit_ok (tp_main s') s'"
      using ok(4) exit_cong [of s' s] by (simp add: s' pool_ops)
    ultimately show ?thesis by (simp add: pool_inv_def)
  next
    case C_Signal
    then obtain t where t: "pthread_cond_signal p s = Some t" "s' = set_caller c C_Idle t"
      using step by (auto simp: caller_step_def split: if_splits)
    have inv': "pool_inv t" using signal_inv [OF inv t(1)] .
    note fr = signal_frame [OF t(1)]
    have "inv_lock s'"
      using inv' c C_Signal fr by (intro lock_move_caller [of t c s' C_Idle]) (auto simp: t(2) pool_inv_def set_caller_def)
    moreover have "count_ok i s'" for i
      using inv' c C_Signal fr by (auto simp: t(2) pool_inv_def count_defs)
    moreover have "tp_threads t \<noteq> [] \<Longrightarrow> \<exists>w < length (tp_threads t). tp_threads t ! w \<noteq> W_Wait"
      using signal_wakes [OF t(1)] fr(6) by (metis length_0_conv)
    then have "inv_wake s'" using inv' by (simp add: t(2) inv_wake_def pool_inv_def set_caller_def)
    moreover have "exit_ok (tp_main s') s'"
      using inv' exit_cong [of s' t] by (simp add: t(2) pool_inv_def set_caller_def)
    ultimately show ?thesis by (simp add: pool_inv_def)
  qed
qed

lemma main_inv: "pool_inv s \<Longrightarrow> exit_ok m s \<Longrightarrow> pool_inv (s\<lparr> tp_main := m \<rparr>)"
  using exit_cong [of "s\<lparr> tp_main := m \<rparr>" s m]
  by (simp add: pool_inv_def inv_lock_def inv_wake_def count_ok_def pending_def notified_def started_def)

lemma addthread_inv:
  assumes inv: "pool_inv s" and m: "tp_main s = M_Init i"
  shows "pool_inv (snd (thread_pool__addthread grown err s))"
proof -
  let ?s = "s\<lparr> tp_threads := tp_threads s @ [W_Top] \<rparr>"
  have ok: "inv_lock s" "count_ok j s" "inv_wake s" "tp_running s" for j
    using inv m by (auto simp: pool_inv_def)
  have "inv_lock ?s"
    using ok(1) by (auto simp: inv_lock_def nth_append less_Suc_eq)
  moreover have "count_ok j ?s" for j using ok(2) [of j] by (simp add: count_defs)
  moreover have "inv_wake ?s"
  proof -
    have "\<exists>v < Suc (length (tp_threads s)). (tp_threads s @ [W_Top]) ! v \<noteq> W_Wait"
      by (intro exI [of _ "length (tp_threads s)"]) simp
    moreover have "v < Suc (length (tp_threads s)) \<Longrightarrow> (tp_threads s @ [W_Top]) ! v \<noteq> W_Exit" for v
      using ok(3,4) by (simp add: inv_wake_def nth_append)
    ultimately show ?thesis by (simp add: inv_wake_def)
  qed
  ultimately have "pool_inv ?s" using m ok(4) by (simp add: pool_inv_def)
  then show ?thesis using inv by (simp add: thread_pool__addthread_def)
qed

lemma init_inv:
  assumes inv: "pool_inv s" and m: "tp_main s = M_Init i"
  shows "pool_inv (thread_pool__init i grown err s)"
proof -
  obtain r t where t: "thread_pool__addthread grown err s = (r, t)" by (cases "thread_pool__addthread grown err s")
  have "pool_inv t" using addthread_inv [OF inv m, of grown err] t by simp
  moreover have "tp_running t" using inv m t
    by (auto simp: thread_pool__addthread_def pool_inv_def split: if_splits)
  moreover have "tp_running s" using inv m by (simp add: pool_inv_def)
  ultimately show ?thesis using inv by (auto simp: thread_pool__init_def t intro!: main_inv)
qed

lemma setup_inv:
  assumes inv: "pool_inv s" and j: "job_idle j s"
  shows "pool_inv (thread_pool__init_job j cb d s)"
proof -
  let ?s = "thread_pool__init_job j cb d s"
  have ok: "inv_lock s" "count_ok i s" "inv_wake s" "exit_ok (tp_main s) s" for i
    using inv by (auto simp: pool_inv_def)
  have same: "signalcount (tp_jobs ?s i) = signalcount (tp_jobs s i)" "job_lock (tp_jobs ?s i) = job_lock (tp_jobs s i)" for i
    using j by (auto simp: job_idle_def thread_pool__init_job_def)
  have rest: "tp_threads ?s = tp_threads s" "tp_callers ?s = tp_callers s" "tp_head ?s = tp_head s" "tp_main ?s = tp_main s"
    "tp_running ?s = tp_running s" "tp_log ?s = tp_log s" "tp_job_mutex ?s = tp_job_mutex s"
    by (simp_all add: thread_pool__init_job_def)
  have "inv_lock ?s" using ok(1) by (simp add: inv_lock_def same rest)
  moreover have "count_ok i ?s" for i
    using ok(2) [of i] by (simp add: count_ok_def pending_def notified_def started_def same rest)
  moreover have "inv_wake ?s" using ok(3) by (simp add: inv_wake_def rest)
  moreover have "exit_ok (tp_main ?s) ?s" using ok(4) exit_cong [OF rest(1,5)] by (simp add: rest)
  ultimately show ?thesis by (simp add: pool_inv_def)
qed

lemma no_mutex:
  assumes "inv_lock s" "tp_job_mutex s = None" "w < length (tp_threads s)"
  shows "\<not> w_in_mutex (tp_threads s ! w)"
  using assms by (simp add: inv_lock_def)

text \<open>A signal under the mutex takes one worker out of the wait: no worker stands between its test and its wait.\<close>

lemma signal_sleepy:
  assumes "inv_lock s" "tp_job_mutex s = None" "pthread_cond_signal p s = Some s'"
  shows "cnt w_sleepy (tp_threads s') = 0 \<or> cnt w_sleepy (tp_threads s') = cnt w_sleepy (tp_threads s) - 1"
proof (cases "W_Wait \<in> set (tp_threads s)")
  case True
  then show ?thesis using signal_cases [OF assms(3)] by (auto simp: set_worker_def)
next
  case False
  have "\<not> w_sleepy x" if x: "x \<in> set (tp_threads s)" for x
  proof -
    obtain v where v: "v < length (tp_threads s)" "tp_threads s ! v = x"
      using x unfolding in_set_conv_nth by blast
    have "\<not> w_in_mutex x" using no_mutex [OF assms(1,2) v(1)] v(2) by simp
    moreover have "x \<noteq> W_Wait" using False x by blast
    ultimately show ?thesis by (cases x) simp_all
  qed
  then have "filter w_sleepy (tp_threads s) = []" by simp
  moreover have "s' = s" using signal_cases [OF assms(3)] False by (metis nth_mem)
  ultimately show ?thesis by (simp add: cnt_def)
qed

lemma exit_inv:
  assumes inv: "pool_inv s" and step: "thread_pool__exit p (tp_main s) s = Some s'"
  shows "pool_inv s'"
proof (cases "tp_main s")
  case M_Run
  then have s': "s' = s\<lparr> tp_running := False, tp_main := M_Signal 0 \<rparr>" using step by simp
  have "exit_ok (M_Signal 0) s'" using cnt_le [of w_sleepy "tp_threads s"] by (simp add: s')
  then show ?thesis using inv
    by (simp add: s' pool_inv_def inv_lock_def inv_wake_def count_ok_def pending_def notified_def started_def)
next
  case (M_Signal i)
  show ?thesis
  proof (cases "i < length (tp_threads s)")
    case True
    then obtain t where t: "tp_job_mutex s = None" "pthread_cond_signal p s = Some t" "s' = t\<lparr> tp_main := M_Signal (Suc i) \<rparr>"
      using step M_Signal by (auto split: if_splits)
    have inv': "pool_inv t" using signal_inv [OF inv t(2)] .
    have "inv_lock s" "\<not> tp_running s" "cnt w_sleepy (tp_threads s) + int i \<le> int (length (tp_threads s))"
      using inv M_Signal by (simp_all add: pool_inv_def)
    then have "exit_ok (M_Signal (Suc i)) t"
      using signal_sleepy [OF _ t(1,2)] signal_frame [OF t(2)] True by auto
    with inv' show ?thesis unfolding t(3) by (rule main_inv)
  next
    case False
    then have s': "s' = s\<lparr> tp_main := M_Join 0 \<rparr>" using step M_Signal by simp
    have "exit_ok (M_Join 0) s"
      using inv M_Signal False cnt_nonneg [of w_sleepy "tp_threads s"] by (auto simp: pool_inv_def simp del: cnt_nonneg)
    with inv show ?thesis unfolding s' by (rule main_inv)
  qed
next
  case (M_Join i)
  show ?thesis
  proof (cases "i < length (tp_threads s)")
    case True
    then have t: "tp_threads s ! i = W_Exit" "s' = s\<lparr> tp_main := M_Join (Suc i) \<rparr>"
      using step M_Join by (auto split: if_splits)
    have "exit_ok (M_Join (Suc i)) s" using inv M_Join True t(1) by (auto simp: pool_inv_def less_Suc_eq)
    with inv show ?thesis unfolding t(2) by (rule main_inv)
  next
    case False
    then have s': "s' = s\<lparr> tp_main := M_Done \<rparr>" using step M_Join by simp
    have "exit_ok M_Done s" using inv M_Join False by (auto simp: pool_inv_def)
    with inv show ?thesis unfolding s' by (rule main_inv)
  qed
qed (use step in simp_all)

lemma pool_reachable_inv: "pool_reachable s \<Longrightarrow> pool_inv s"
proof (induction rule: pool_reachable.induct)
  case (reach_start n m)
  show ?case by (rule pool_start_inv)
next
  case (reach_step s s')
  from reach_step.hyps(2) reach_step.IH show ?case
    by (cases rule: pool_step.cases) (auto intro: worker_inv wake_inv do_job_inv caller_inv init_inv exit_inv setup_inv)
qed

subsection \<open>No job runs twice at once, no request is lost, the pool stops\<close>

lemma pending_le_one: "pool_inv s \<Longrightarrow> pending j s \<le> 1"
  by (auto simp: pool_inv_def count_ok_def dest!: spec [of _ j] split: if_splits intro: order_trans)

lemma count_distinct: "(\<And>x. count_list xs x \<le> 1) \<Longrightarrow> distinct xs"
proof (induction xs)
  case (Cons a xs)
  have "count_list xs a = 0" using Cons.prems [of a] by simp
  moreover have "count_list xs x \<le> 1" for x using Cons.prems [of x] by (simp split: if_splits)
  ultimately show ?case using Cons.IH by (simp add: count_list_0_iff)
qed simp

lemma stuck_worker:
  assumes inv: "inv_lock s" and w: "w < length (tp_threads s)" and stuck: "worker_step w s = None"
    and free: "tp_job_mutex s = None" and jobs: "\<And>j. job_lock (tp_jobs s j) = None"
  shows "tp_threads s ! w = W_Wait \<or> tp_threads s ! w = W_Exit"
  using stuck free jobs no_mutex [OF inv free w]
  by (cases "tp_threads s ! w")
    (auto simp: worker_step_def pool_ops Let_def split: if_splits list.splits option.splits)

lemma stuck_mutex:
  assumes inv: "inv_lock s" and stuck: "\<forall>w < length (tp_threads s). worker_step w s = None"
  shows "tp_job_mutex s = None"
proof (cases "tp_job_mutex s")
  case (Some w)
  then have w: "w < length (tp_threads s)" "w_in_mutex (tp_threads s ! w)" using inv by (auto simp: inv_lock_def)
  then have "worker_step w s = None" using stuck by blast
  with w(2) show ?thesis
    by (cases "tp_threads s ! w") (simp_all add: worker_step_def split: prod.splits option.splits)
qed simp

lemma signal_enabled: "\<exists>p s'. pthread_cond_signal p s = Some s'"
  by (cases "W_Wait \<in> set (tp_threads s)") (auto simp: pthread_cond_signal_def in_set_conv_nth)

lemma stuck_caller:
  assumes "tp_job_mutex s = None" and c: "\<forall>p. caller_step c p s = None"
  shows "tp_callers s ! c = C_Idle"
proof (cases "tp_callers s ! c")
  case C_Signal
  obtain p s' where "pthread_cond_signal p s = Some s'" using signal_enabled by blast
  then show ?thesis using assms(1) c [rule_format, of p] C_Signal by (simp add: caller_step_def)
qed (use assms in \<open>auto simp: caller_step_def pool_ops\<close>)

lemma stuck_job_lock:
  assumes inv: "inv_lock s" and free: "tp_job_mutex s = None"
    and w: "\<forall>w < length (tp_threads s). worker_step w s = None"
    and c: "\<forall>c < length (tp_callers s). tp_callers s ! c = C_Idle"
  shows "job_lock (tp_jobs s j) = None"
proof (rule ccontr)
  assume "job_lock (tp_jobs s j) \<noteq> None"
  then consider v where "job_lock (tp_jobs s j) = Some (By_worker v)"
    | v where "job_lock (tp_jobs s j) = Some (By_caller v)" by (metis option.exhaust owner.exhaust)
  then show False
  proof cases
    case (1 v)
    then have v: "v < length (tp_threads s)" "w_locks j (tp_threads s ! v)" using inv by (simp_all add: inv_lock_def)
    then have "worker_step v s = None" using w by blast
    with v(2) free show False
      by (cases "tp_threads s ! v") (simp_all add: worker_step_def pool_ops)
  next
    case (2 v)
    then have "v < length (tp_callers s)" "c_locks j (tp_callers s ! v)" using inv by (simp_all add: inv_lock_def)
    with c show False by auto
  qed
qed

text \<open>
  A pool with one worker, one caller and job 0, played through a list of moves: 0 calls \<open>thread_pool__do_job\<close>, 1 is a step
  of that call and anything else a step of the worker.
\<close>

definition pool_ready :: pool where
  "pool_ready = thread_pool__init 1 True 0 (thread_pool__init 0 True 0
     (thread_pool__init_job 0 (Some 7) 0 (pool_start 1 1)))"

fun play :: "nat list \<Rightarrow> pool \<Rightarrow> pool option" where
  "play [] s = Some s"
| "play (m # ms) s =
     (case (if m = 0 then (if tp_callers s ! 0 = C_Idle then thread_pool__do_job 0 (Some 0) s else None)
            else if m = 1 then caller_step 0 0 s else worker_step 0 s) of
        None \<Rightarrow> None
      | Some s' \<Rightarrow> if 0 < length (tp_callers s) \<and> 0 < length (tp_threads s) then play ms s' else None)"

lemma play_reachable: "pool_reachable s \<Longrightarrow> play ms s = Some t \<Longrightarrow> pool_reachable t"
proof (induction ms arbitrary: s)
  case (Cons m ms)
  from Cons.prems(2) obtain s' where s': "0 < length (tp_callers s)" "0 < length (tp_threads s)" "play ms s' = Some t"
    "(if m = 0 then (if tp_callers s ! 0 = C_Idle then thread_pool__do_job 0 (Some 0) s else None)
      else if m = 1 then caller_step 0 0 s else worker_step 0 s) = Some s'"
    by (auto split: option.splits if_splits)
  have "pool_step s s'"
    using s'(1,2,4) by (auto split: if_splits intro: step_call step_caller step_worker)
  then show ?case using Cons s'(3) by (blast intro: reach_step)
qed simp

lemma pool_ready_reachable: "pool_reachable pool_ready"
proof -
  have "pool_reachable (thread_pool__init_job 0 (Some 7) 0 (pool_start 1 1))"
    by (rule reach_step [OF reach_start step_setup]) (simp add: job_idle_def pool_start_def)
  then have "pool_reachable (thread_pool__init 0 True 0 (thread_pool__init_job 0 (Some 7) 0 (pool_start 1 1)))"
    by (rule reach_step [OF _ step_init]) (simp add: pool_start_def thread_pool__init_job_def)
  then show ?thesis unfolding pool_ready_def
    by (rule reach_step [OF _ step_init])
      (simp add: pool_start_def thread_pool__init_job_def thread_pool__init_def thread_pool__addthread_def)
qed

lemmas play_simps = pool_ready_def pool_start_def thread_pool__init_def thread_pool__addthread_def
  thread_pool__init_job_def thread_pool__do_job_def caller_step_def worker_step_def pool_ops
  pthread_cond_signal_def Let_def





text \<open>
  Initialising a job that is queued forgets that it is: the next request links it a second time. A guest that sets
  up a queue of a device again while its job waits reaches this state.
\<close>

lemma reinit_links_twice:
  assumes "tp_head s = [j]" "tp_job_mutex s = None" "c < length (tp_callers s)"
  shows "\<exists>s1 s2. thread_pool__do_job c (Some j) (thread_pool__init_job j (Some cb) d s) = Some s1 \<and>
    caller_step c p s1 = Some s2 \<and> tp_head s2 = [j, j]"
  using assms
  by (simp add: thread_pool__do_job_def thread_pool__init_job_def caller_step_def pool_ops)

text \<open>
  A failure of \<^verbatim>\<open>pthread_create\<close> is a positive number; the loop of \<open>thread_pool__init\<close> stops at negative ones
  only and counts the thread that does not exist.
\<close>

lemma create_failure_counted:
  assumes "i < tp_thread_count s" "0 < err"
  shows "thread_pool__init i True err s = s\<lparr> tp_main := M_Init (Suc i) \<rparr>"
  using assms by (simp add: thread_pool__init_def thread_pool__addthread_def)

end
