(* ===== verification/Spec2Isabelle.thy ===== *)
theory Spec2Isabelle
  imports X86_Ports Serial I8042 Rtc Pci P9_Pdu Virtio_Blk Virtio_Pci Uip_Tcp Thread_Pool
begin

text \<open>
  \<^bold>\<open>A verification library for kvmc\<close>, a hosted virtual machine monitor on top of KVM (a C program; file names below are
  relative to \<^verbatim>\<open>src/\<close>). It follows the x86 build without asynchronous disk I/O.

  \<^bold>\<open>The program.\<close> VCPU threads run the guest in KVM. When the guest touches a port or a device address the thread leaves
  KVM and \<open>kvm__emulate_io\<close> or \<open>kvm__emulate_mmio\<close> looks the address up in an interval tree and calls the handler that
  a device has registered: a legacy device (serial port, keyboard controller, clock, PCI bridge) or a virtio
  transport. A virtio transport lets the guest set up the queues of a device and notifies the device
  when there is work; the device pops descriptor chains from its queue, serves them, from a disk image or from the
  user-mode network stack, publishes used entries and raises an interrupt through the transport. Jobs outside the
  VCPU threads run on a thread pool.

  \<^bold>\<open>Theories and sources.\<close>

    \<^item> \<^verbatim>\<open>Kvmc_Prelude\<close>: word types, byte encodings, buffers and the lemmas on them that everything shares.
    \<^item> \<^verbatim>\<open>RBTree\<close>, \<^verbatim>\<open>Index\<close>, \<^verbatim>\<open>Interval_Tree\<close> (util/rbtree.c, util/rbtree-interval.c): the tree with parent
      pointers is a tree and the path to the node at hand; NULL dereference is \<open>None\<close>. \<^verbatim>\<open>Index\<close> holds the locale of
      an ordered index and its implementation by the red-black tree.
    \<^item> \<^verbatim>\<open>Irq\<close> (src/irq.c, arch/x86/irq.c), \<^verbatim>\<open>Device_Bus\<close> (src/devices.c): interrupt routes and the registry of devices.
    \<^item> \<^verbatim>\<open>Io_Bus\<close> (hw/ioport.c, hw/mmio.c): registration and dispatch; the locale \<open>io_handler\<close> is the
      contract of a handler. \<^verbatim>\<open>X86_Ports\<close> (arch/x86/ioport.c), \<^verbatim>\<open>Serial\<close> (hw/serial.c, src/term.c), \<^verbatim>\<open>I8042\<close> with
      \<^verbatim>\<open>Ring_Queue\<close> (hw/i8042.c), \<^verbatim>\<open>Rtc\<close> (hw/rtc.c) and \<^verbatim>\<open>Pci\<close> (hw/pci.c) are the handlers: a record per device, a function
      per handler, interpretations of \<open>io_handler\<close>.
    \<^item> \<^verbatim>\<open>Guest_Memory\<close> (src/kvm.c): memory banks and address translation.
    \<^item> \<^verbatim>\<open>Virt_Queue\<close> (hw/virtio/core.c, include/kvm/virtio.h), \<^verbatim>\<open>Iovec\<close> (util/iovec.c): rings, descriptor chains, copies.
    \<^item> \<^verbatim>\<open>Virtio_Ops\<close>, \<^verbatim>\<open>Virtio_Mmio\<close> (hw/virtio/mmio.c), \<^verbatim>\<open>Virtio_Pci\<close> (hw/virtio/pci.c), \<^verbatim>\<open>Ioeventfd\<close> (src/ioeventfd.c): the
      two transports over the operations of any device, and the kernel's notification descriptors.
    \<^item> \<^verbatim>\<open>Read_Write\<close> (util/read-write.c), \<^verbatim>\<open>Disk_Image\<close>, \<^verbatim>\<open>Disk\<close> (hw/disk/core.c, raw.c, blk.c), \<^verbatim>\<open>Lru_Cache\<close> and
      \<^verbatim>\<open>Qcow\<close> (hw/disk/qcow.c), \<^verbatim>\<open>Virtio_Blk\<close> (hw/virtio/blk.c): the path of a disk request from the ring to the file.
    \<^item> \<^verbatim>\<open>P9_Pdu\<close> (hw/virtio/9p-pdu.c): the encoding of 9p messages over scattered buffers.
    \<^item> \<^verbatim>\<open>Uip_Csum\<close>, \<^verbatim>\<open>Uip\<close>, \<^verbatim>\<open>Uip_Tcp\<close> (src/net, include/kvm/uip.h): the user-mode network stack.
    \<^item> \<^verbatim>\<open>Thread_Pool\<close> (util/threadpool.c): the pool, its workers and its callers as interleaved steps.

  \<^bold>\<open>How the code is modelled.\<close> Structures are records and integers are words of the width of the C type. An operation takes
  the state and returns the new one. \<open>None\<close> is a NULL or out-of-bounds access, a loop that does not end, or a
  call that waits, as each theory says; \<open>Died\<close> is an exit of the process. What the program
  asks of the host (KVM ioctls, files, sockets, time, allocation, zlib) is a record of functions over a host state, a
  parameter of the operations; lemmas name what they rely on, and their witnesses
  give concrete hosts. A mutex around a handler is the atomicity of the handler;
  in \<^verbatim>\<open>Thread_Pool\<close>, where the locking is the subject, mutexes and the condition variable are explicit. The rings of a
  queue are records apart from the data memory of the guest, so a guest that lets a data buffer overlap its own ring
  is outside the model.

  \<^bold>\<open>What is shown.\<close>

    \<^item> Data structures: red-black insertion and removal never follow NULL, keep balance and order; the interval tree
      is a map from points; the caches of table blocks are least-recently-used lists; the keyboard queues are bounded queues.
    \<^item> Dispatch: a registered range answers at exactly its addresses, removal and teardown end; start-up
      registers the listed ports.
    \<^item> Legacy devices: invariants of every reachable state of the serial port, interrupt edges, the order of input,
      clock values, configuration space round trips and BAR probing.
    \<^item> Virtio: the descriptor walk ends and collects the chain, the used ring is filled in order across index
      wrap-around, notification suppression is the window of the standard, the registers of the transports keep
      their identification, a programmed message is the one that is sent.
    \<^item> Disks: a block request completes with one used entry and a status; raw images are byte arrays; a QCOW2 read
      is the read of the virtual disk that the tables describe; partial transfers are completed.
    \<^item> Network: frames have correct checksums, buffer counters are exact in every reachable state, TCP bytes are sent
      in order and inside the window.
    \<^item> Thread pool: no callback runs twice at once; a pool that cannot move has served all requests; it can be stopped.
    \<^item> Defects of the code are lemmas too where one is short: an event-index test that uses a bit number as
      a mask, routes that are updated but not passed to the kernel, a buffer leak in ARP, a job linked twice.

  \<^bold>\<open>Bounds.\<close> Recursions whose C loop has no structural measure carry fuel or are partial functions. The fuel of \<open>ioport__unregister_all\<close>
  and of the device walk is the number of entries of the tree, and each round removes or passes one. The capability
  search has 64 rounds, the number of dwords in a 256-byte configuration space. Growing the refcount table
  has the table size and three rounds, one for each block that can be missing. The descriptor walks are partial functions, and they are shown
  to return on every chain that ends.

  \<^bold>\<open>Not modelled.\<close> Of the 9p server, virtio network, rng, console, balloon, SCSI and the shared-memory PCI device the request handlers
  are sequences of host calls around the queue operations shown here. The VCPU loop, start-up, VFIO and the
  displays are system calls and libraries. The BIOS tables and interrupt
  stubs are images that run in the guest. Commands and inter-process control are process management; ARM, MIPS and
  PowerPC are other builds. Of the red-black tree the augmented callbacks and the postorder walk, which the
  program does not use, are left out, and of the core of virtio the compatibility messages.
\<close>

end
